(* ===== verification/Go_Base.thy ===== *)
theory Go_Base
  imports Main "HOL-Library.Char_ord" "HOL-Library.List_Lexorder" "HOL-Library.Sublist"
    "HOL-Library.Monad_Syntax"
begin

text \<open>
  The prelude of the development: Go error values, the shape of effectful calls, and the
  generic lemmas and collections that every component uses.

  \<^item> A Go \<open>error\<close> is a value. \<open>go_error\<close> keeps what the code can observe of it: its identity
    when it is a package-level sentinel, its dynamic type when it comes from a client library,
    its text, and the chain that \<open>fmt.Errorf("...: %w", err)\<close> builds.
  \<^item> A pair \<open>(T, error)\<close> of Go results is \<open>go_error + 'a\<close>, an \<open>error\<close> alone is
    \<open>go_error option\<close> with \<open>None\<close> for \<open>nil\<close>.
  \<^item> A call that touches the outside takes the world \<open>'w\<close> and returns the new one. A call
    whose loop is bounded by nothing in the code has the type
    \<open>'w \<Rightarrow> ('r \<times> 'w) option\<close>, and \<open>None\<close> says that it never returns.
\<close>

section \<open>Error values\<close>

text \<open>
  The sentinels that the code compares with \<open>errors.Is\<close>: those of
  \<open>broker/store/repository.go\<close>, \<open>runner/shell_manager.go\<close> and the ones of the standard
  library that the two programs meet.
\<close>

datatype sentinel =
    ErrNotFound
  | ErrNoIdleRunner
  | ErrConditionFailed
  | ErrConflict
  | ErrInvalidRunnerID
  | ErrInvalidPrivateHost
  | ErrShellNotFound
  | ContextCanceled
  | ContextDeadlineExceeded
  | ErrServerClosed
  | IteratorDone
  | ErrSyntax
  | ErrRange

text \<open>
  \<open>ErrorString\<close> is an error made by \<open>errors.New\<close> or \<open>fmt.Errorf\<close> without \<open>%w\<close>;
  \<open>ApiError\<close> is an error value of a client library with the name of its type or status code;
  \<open>Wrap\<close> is \<open>fmt.Errorf\<close> with \<open>%w\<close> at the end of the format, which is where every
  use in the code has it.
\<close>

datatype go_error =
    Sentinel sentinel
  | ErrorString string
  | ApiError string string
  | Wrap string go_error

fun sentinel_text :: "sentinel \<Rightarrow> string" where
  "sentinel_text ErrNotFound = ''runner not found''"
| "sentinel_text ErrNoIdleRunner = ''no idle runner available''"
| "sentinel_text ErrConditionFailed = ''condition check failed''"
| "sentinel_text ErrConflict = ''runner already exists with different attributes''"
| "sentinel_text ErrInvalidRunnerID = ''runnerID must be 32 lowercase hex characters''"
| "sentinel_text ErrInvalidPrivateHost = ''privateHost must not be empty''"
| "sentinel_text ErrShellNotFound = ''shell not found''"
| "sentinel_text ContextCanceled = ''context canceled''"
| "sentinel_text ContextDeadlineExceeded = ''context deadline exceeded''"
| "sentinel_text ErrServerClosed = ''http: Server closed''"
| "sentinel_text IteratorDone = ''no more items in iterator''"
| "sentinel_text ErrSyntax = ''invalid syntax''"
| "sentinel_text ErrRange = ''value out of range''"

fun error_text :: "go_error \<Rightarrow> string" where
  "error_text (Sentinel s) = sentinel_text s"
| "error_text (ErrorString t) = t"
| "error_text (ApiError ty t) = t"
| "error_text (Wrap t e) = t @ error_text e"

text \<open>\<open>errors.Is(err, sentinel)\<close> and \<open>errors.As(err, &target)\<close> walk the chain.\<close>

fun errors_Is :: "go_error \<Rightarrow> sentinel \<Rightarrow> bool" where
  "errors_Is (Sentinel s) t = (s = t)"
| "errors_Is (ErrorString m) t = False"
| "errors_Is (ApiError ty m) t = False"
| "errors_Is (Wrap m e) t = errors_Is e t"

fun errors_As :: "go_error \<Rightarrow> string \<Rightarrow> bool" where
  "errors_As (Sentinel s) ty = False"
| "errors_As (ErrorString m) ty = False"
| "errors_As (ApiError ty' m) ty = (ty' = ty)"
| "errors_As (Wrap m e) ty = errors_As e ty"

lemma errors_Is_unique: "errors_Is e s \<Longrightarrow> errors_Is e t \<Longrightarrow> s = t"
  by (induction e) auto

lemma errors_Is_not_As: "errors_Is e s \<Longrightarrow> \<not> errors_As e ty"
  by (induction e) auto

section \<open>Collections of facts\<close>

named_theorems go_string_simps "facts about the string routines of the Go library"
named_theorems store_simps "facts that unfold one call of a store or of its client"

section \<open>Lists, options and maps\<close>

lemma bind_Some_iff [simp]:
  "Option.bind m f = Some r \<longleftrightarrow> (\<exists>x. m = Some x \<and> f x = Some r)"
  by (cases m) auto

lemma takeWhile_neq_append: "c \<notin> set p \<Longrightarrow> takeWhile (\<lambda>x. x \<noteq> c) (p @ c # r) = p"
  by (induction p) auto

lemma dropWhile_neq_append: "c \<notin> set p \<Longrightarrow> dropWhile (\<lambda>x. x \<noteq> c) (p @ c # r) = c # r"
  by (induction p) auto

lemma card_dom_restrict_less:
  assumes "finite (dom m)" and "k \<in> dom m"
  shows "card (dom (m(k := None))) < card (dom m)"
proof -
  have "dom (m(k := None)) = dom m - {k}" by auto
  then show ?thesis using assms card_Diff1_less [of "dom m" k] by simp
qed

end
