(* ===== verification/Go_Strings.thy ===== *)
theory Go_Strings
  imports Go_Base
begin

text \<open>
  The routines of Go's \<open>strings\<close>, \<open>strconv\<close> and \<open>encoding/hex\<close> packages that the two
  programs use. A Go string is a sequence of bytes, and so is a \<open>string\<close> here: a \<open>char\<close> is
  one byte. A byte slice is a \<open>string\<close> too.
\<close>

section \<open>strings.TrimSpace\<close>

text \<open>
  The UTF-8 encodings of the runes for which \<open>unicode.IsSpace\<close> holds: the six ASCII ones,
  then U+0085, U+00A0, U+1680, U+2000 to U+200A, U+2028, U+2029, U+202F, U+205F and U+3000.
  A rune is decoded at the end that is being trimmed, and none of these encodings is a proper
  prefix or suffix of another one, so trimming runes is removing these byte sequences.
\<close>

definition ascii_space :: string where
  "ascii_space = [CHR 0x09, CHR 0x0A, CHR 0x0B, CHR 0x0C, CHR 0x0D, CHR 0x20]"

definition space_runes :: "string list" where
  "space_runes = map (\<lambda>c. [c]) ascii_space @
     [[CHR 0xC2, CHR 0x85], [CHR 0xC2, CHR 0xA0], [CHR 0xE1, CHR 0x9A, CHR 0x80]] @
     map (\<lambda>c. [CHR 0xE2, CHR 0x80, c])
       [CHR 0x80, CHR 0x81, CHR 0x82, CHR 0x83, CHR 0x84, CHR 0x85, CHR 0x86, CHR 0x87,
        CHR 0x88, CHR 0x89, CHR 0x8A, CHR 0xA8, CHR 0xA9, CHR 0xAF] @
     [[CHR 0xE2, CHR 0x81, CHR 0x9F], [CHR 0xE3, CHR 0x80, CHR 0x80]]"

fun strip_one :: "string list \<Rightarrow> string \<Rightarrow> string option" where
  "strip_one [] s = None"
| "strip_one (p # ps) s =
     (if p \<noteq> [] \<and> take (length p) s = p then Some (drop (length p) s) else strip_one ps s)"

lemma strip_one_length: "strip_one ps s = Some r \<Longrightarrow> length r < length s"
proof (induction ps)
  case (Cons p ps)
  show ?case
  proof (cases "p \<noteq> [] \<and> take (length p) s = p")
    case True
    then have "s \<noteq> []" by auto
    with True Cons.prems show ?thesis by auto
  next
    case False
    with Cons show ?thesis by auto
  qed
qed simp

function trim_left :: "string list \<Rightarrow> string \<Rightarrow> string" where
  "trim_left ps s = (case strip_one ps s of None \<Rightarrow> s | Some r \<Rightarrow> trim_left ps r)"
  by pat_completeness auto
termination
  by (relation "measure (\<lambda>(ps, s). length s)") (auto dest: strip_one_length)

declare trim_left.simps [simp del]

definition TrimSpace :: "string \<Rightarrow> string" where
  "TrimSpace s =
     rev (trim_left (map rev space_runes) (rev (trim_left space_runes s)))"

text \<open>A string is trimmed when no white space can be removed at either end.\<close>

definition trimmed :: "string \<Rightarrow> bool" where
  "trimmed s \<longleftrightarrow> strip_one space_runes s = None \<and> strip_one (map rev space_runes) (rev s) = None"

lemma trim_left_stop: "strip_one ps (trim_left ps s) = None"
proof (induction ps s rule: trim_left.induct)
  case (1 ps s)
  then show ?case by (cases "strip_one ps s") (simp_all add: trim_left.simps [of ps s])
qed

lemma trim_left_id: "strip_one ps s = None \<Longrightarrow> trim_left ps s = s"
  by (simp add: trim_left.simps)

lemma strip_one_suffix: "strip_one ps s = Some r \<Longrightarrow> \<exists>p. s = p @ r"
proof (induction ps)
  case (Cons p ps)
  then show ?case by (auto split: if_splits) (metis append_take_drop_id)
qed simp

lemma trim_left_suffix: "\<exists>p. s = p @ trim_left ps s"
proof (induction ps s rule: trim_left.induct)
  case (1 ps s)
  show ?case
  proof (cases "strip_one ps s")
    case None
    then show ?thesis by (simp add: trim_left_id)
  next
    case (Some r)
    with 1 obtain q where "r = q @ trim_left ps r" by blast
    moreover obtain p where "s = p @ r" using Some strip_one_suffix by blast
    moreover have "trim_left ps s = trim_left ps r"
      using Some by (simp add: trim_left.simps [of ps s])
    ultimately have "s = (p @ q) @ trim_left ps s" by simp
    then show ?thesis by blast
  qed
qed

lemma TrimSpace_trimmed_id [go_string_simps]: "trimmed s \<Longrightarrow> TrimSpace s = s"
  by (simp add: TrimSpace_def trimmed_def trim_left_id)

lemma set_TrimSpace: "set (TrimSpace s) \<subseteq> set s"
proof -
  obtain p where p: "s = p @ trim_left space_runes s" using trim_left_suffix by blast
  let ?t = "rev (trim_left space_runes s)"
  obtain q where q: "?t = q @ trim_left (map rev space_runes) ?t" using trim_left_suffix by blast
  have "set (TrimSpace s) \<subseteq> set ?t"
    unfolding TrimSpace_def by (metis Un_upper2 q set_append set_rev)
  also have "set ?t \<subseteq> set s" by (metis Un_upper2 p set_append set_rev)
  finally show ?thesis .
qed

lemma TrimSpace_Nil [simp]: "TrimSpace [] = []"
  by (simp add: TrimSpace_trimmed_id trimmed_def space_runes_def ascii_space_def)

text \<open>
  The trimmed string has no white space at its left end either: what the second pass removes
  at the right end leaves the left end as it is, unless nothing is left.
\<close>

lemma strip_one_None_iff:
  "strip_one ps s = None \<longleftrightarrow> (\<forall>p\<in>set ps. p = [] \<or> take (length p) s \<noteq> p)"
  by (induction ps) auto

lemma strip_one_None_prefix:
  assumes "strip_one ps (r @ q) = None"
  shows "strip_one ps r = None"
proof -
  have "p = [] \<or> take (length p) r \<noteq> p" if "p \<in> set ps" for p
  proof (rule ccontr)
    assume "\<not> (p = [] \<or> take (length p) r \<noteq> p)"
    then have "p \<noteq> []" and tk: "take (length p) r = p" by auto
    then have "length p \<le> length r" by (metis length_take min.absorb_iff2 min.commute)
    with tk have "take (length p) (r @ q) = p" by simp
    with \<open>p \<noteq> []\<close> that assms show False by (auto simp: strip_one_None_iff)
  qed
  then show ?thesis by (auto simp: strip_one_None_iff)
qed

lemma trimmed_TrimSpace: "trimmed (TrimSpace s)"
proof -
  let ?t = "trim_left space_runes s"
  let ?u = "trim_left (map rev space_runes) (rev ?t)"
  obtain q where "rev ?t = q @ ?u" using trim_left_suffix by blast
  then have t: "?t = rev ?u @ rev q" by (metis rev_append rev_rev_ident)
  have "strip_one space_runes (rev ?u @ rev q) = None"
    using trim_left_stop [of space_runes s] t by simp
  then have "strip_one space_runes (rev ?u) = None" by (rule strip_one_None_prefix)
  then show ?thesis by (simp add: trimmed_def TrimSpace_def trim_left_stop)
qed

lemma TrimSpace_idem [simp]: "TrimSpace (TrimSpace s) = TrimSpace s"
  by (simp add: TrimSpace_trimmed_id trimmed_TrimSpace)

section \<open>strings.Split, Join and Cut\<close>

text \<open>\<open>strings.Split(s, sep)\<close> for a separator of one byte: always at least one part.\<close>

fun Split_on :: "char \<Rightarrow> string \<Rightarrow> string list" where
  "Split_on c [] = [[]]"
| "Split_on c (x # s) =
     (if x = c then [] # Split_on c s
      else case Split_on c s of [] \<Rightarrow> [[x]] | y # ys \<Rightarrow> (x # y) # ys)"

lemma Split_on_neq_Nil [simp]: "Split_on c s \<noteq> []"
  by (induction s) (auto split: list.splits)

lemma Split_on_no_sep: "c \<notin> set s \<Longrightarrow> Split_on c s = [s]"
  by (induction s) (auto split: list.splits)

lemma Split_on_append: "c \<notin> set p \<Longrightarrow> Split_on c (p @ c # s) = p # Split_on c s"
  by (induction p) (auto split: list.splits)

lemma Split_on_parts: "p \<in> set (Split_on c s) \<Longrightarrow> c \<notin> set p \<and> set p \<subseteq> set s"
proof (induction s arbitrary: p)
  case (Cons x s)
  show ?case
  proof (cases "x = c")
    case True
    with Cons show ?thesis by auto
  next
    case False
    obtain y ys where s: "Split_on c s = y # ys" by (cases "Split_on c s") auto
    with False Cons.prems have "p = x # y \<or> p \<in> set ys" by auto
    then show ?thesis
    proof
      assume "p = x # y"
      then show ?thesis using Cons.IH [of y] s False by auto
    next
      assume "p \<in> set ys"
      then have "p \<in> set (Split_on c s)" using s by simp
      then show ?thesis using Cons.IH [of p] by auto
    qed
  qed
qed simp

fun Join :: "string list \<Rightarrow> string \<Rightarrow> string" where
  "Join [] sep = []"
| "Join [x] sep = x"
| "Join (x # y # ys) sep = x @ sep @ Join (y # ys) sep"

lemma Split_on_Join:
  "xs \<noteq> [] \<Longrightarrow> \<forall>x\<in>set xs. c \<notin> set x \<Longrightarrow> Split_on c (Join xs [c]) = xs"
  by (induction xs "[c]" rule: Join.induct) (auto simp: Split_on_no_sep Split_on_append)

lemma Join_eq_Nil_iff: "\<forall>x\<in>set xs. x \<noteq> [] \<Longrightarrow> Join xs sep = [] \<longleftrightarrow> xs = []"
  by (induction xs sep rule: Join.induct) auto

text \<open>\<open>strings.Cut(s, sep)\<close> for a separator of one byte: before, after and found.\<close>

definition Cut :: "string \<Rightarrow> char \<Rightarrow> string \<times> string \<times> bool" where
  "Cut s c = (takeWhile (\<lambda>x. x \<noteq> c) s, drop 1 (dropWhile (\<lambda>x. x \<noteq> c) s), c \<in> set s)"

lemma Cut_append [go_string_simps]: "c \<notin> set p \<Longrightarrow> Cut (p @ c # r) c = (p, r, True)"
  by (simp add: Cut_def takeWhile_neq_append dropWhile_neq_append)

lemma Cut_not_found: "c \<notin> set s \<Longrightarrow> Cut s c = (s, [], False)"
  by (induction s) (auto simp: Cut_def)

lemma Cut_found_iff: "(\<exists>p r. Cut s c = (p, r, True)) \<longleftrightarrow> c \<in> set s"
  by (auto simp: Cut_def)

lemma Cut_True_D: "Cut s c = (p, r, True) \<Longrightarrow> s = p @ c # r \<and> c \<notin> set p"
  by (metis Cut_append Cut_found_iff prod.inject split_list_first)

section \<open>strings.HasPrefix, Index and LastIndexByte\<close>

abbreviation HasPrefix :: "string \<Rightarrow> string \<Rightarrow> bool" where
  "HasPrefix s p \<equiv> prefix p s"

fun Index :: "string \<Rightarrow> string \<Rightarrow> nat option" where
  "Index [] sub = (if sub = [] then Some 0 else None)"
| "Index (x # s) sub = (if prefix sub (x # s) then Some 0 else map_option Suc (Index s sub))"

fun LastIndexByte :: "string \<Rightarrow> char \<Rightarrow> nat option" where
  "LastIndexByte [] c = None"
| "LastIndexByte (x # s) c =
     (case LastIndexByte s c of Some i \<Rightarrow> Some (Suc i) | None \<Rightarrow> if x = c then Some 0 else None)"

lemma Index_Some_D:
  "Index s sub = Some i \<Longrightarrow> i + length sub \<le> length s \<and> s = take i s @ sub @ drop (i + length sub) s"
proof (induction s arbitrary: i)
  case Nil
  then show ?case by (auto split: if_splits)
next
  case (Cons x s)
  show ?case
  proof (cases "prefix sub (x # s)")
    case True
    with Cons.prems have "i = 0" by auto
    moreover obtain zs where "x # s = sub @ zs" using True by (auto simp: prefix_def)
    ultimately show ?thesis by (metis add_0 append_eq_conv_conj length_append le_add1 append_Nil take_0)
  next
    case False
    with Cons.prems obtain j where "Index s sub = Some j" and "i = Suc j" by auto
    with Cons.IH show ?thesis by auto
  qed
qed

lemma Index_None_iff: "Index s sub = None \<longleftrightarrow> \<not> sublist sub s"
proof (induction s)
  case (Cons x s)
  then show ?case by (auto simp: sublist_Cons_right)
qed auto

text \<open>The first occurrence: nothing before it is the start of another one.\<close>

lemma Index_first:
  "(\<And>k. k < length p \<Longrightarrow> \<not> prefix sub (drop k p @ sub @ r)) \<Longrightarrow> Index (p @ sub @ r) sub = Some (length p)"
proof (induction p)
  case Nil
  have "prefix sub (sub @ r)" by simp
  then show ?case by (cases "sub @ r") (simp_all del: prefix_order.refl)
next
  case (Cons x p)
  have "\<not> prefix sub ((x # p) @ sub @ r)" using Cons.prems [of 0] by simp
  moreover have "Index (p @ sub @ r) sub = Some (length p)"
    using Cons.IH Cons.prems by (metis Suc_less_eq drop_Suc_Cons length_Cons)
  ultimately show ?case by simp
qed

lemma LastIndexByte_Some_D:
  "LastIndexByte s c = Some i \<Longrightarrow> i < length s \<and> s ! i = c \<and> c \<notin> set (drop (Suc i) s)"
proof (induction s arbitrary: i)
  case (Cons x s)
  show ?case
  proof (cases "LastIndexByte s c")
    case None
    have "c \<notin> set s" using None
    proof (induction s)
      case (Cons y s)
      then show ?case by (auto split: option.splits if_splits)
    qed simp
    with None Cons.prems show ?thesis by (auto split: if_splits)
  next
    case (Some j)
    with Cons show ?thesis by auto
  qed
qed simp

section \<open>Lines and paths\<close>

definition nl :: char where "nl = CHR 0x0A"

text \<open>\<open>filepath.Dir\<close> and \<open>filepath.Base\<close> of a cleaned absolute path, and \<open>filepath.Join\<close> of two such parts.\<close>

definition path_Dir :: "string \<Rightarrow> string" where
  "path_Dir p =
     (case LastIndexByte p (CHR ''/'') of None \<Rightarrow> ''.'' | Some i \<Rightarrow> if i = 0 then ''/'' else take i p)"

definition path_Base :: "string \<Rightarrow> string" where
  "path_Base p = (case LastIndexByte p (CHR ''/'') of None \<Rightarrow> p | Some i \<Rightarrow> drop (i + 1) p)"

definition path_Join :: "string \<Rightarrow> string \<Rightarrow> string" where
  "path_Join d b = (if d = ''/'' then ''/'' @ b else d @ ''/'' @ b)"

section \<open>encoding/hex\<close>

definition hex_digit :: "nat \<Rightarrow> char" where
  "hex_digit n = ''0123456789abcdef'' ! n"

fun EncodeToString :: "string \<Rightarrow> string" where
  "EncodeToString [] = []"
| "EncodeToString (b # bs) =
     hex_digit (of_char b div 16) # hex_digit (of_char b mod 16) # EncodeToString bs"

text \<open>The class \<open>[0-9a-f]\<close> of the regular expressions.\<close>

definition in_range :: "char \<Rightarrow> char \<Rightarrow> char \<Rightarrow> bool" where
  "in_range lo hi c \<longleftrightarrow> (of_char lo :: nat) \<le> of_char c \<and> (of_char c :: nat) \<le> of_char hi"

definition is_digit :: "char \<Rightarrow> bool" where
  "is_digit c \<longleftrightarrow> in_range (CHR ''0'') (CHR ''9'') c"

definition is_hex_lower :: "char \<Rightarrow> bool" where
  "is_hex_lower c \<longleftrightarrow> is_digit c \<or> in_range (CHR ''a'') (CHR ''f'') c"

lemmas char_class_defs = in_range_def is_digit_def is_hex_lower_def

lemma is_hex_lower_hex_digit: "n < 16 \<Longrightarrow> is_hex_lower (hex_digit n)"
proof -
  have "list_all (\<lambda>n. is_hex_lower (hex_digit n)) [0..<16]"
    by (simp add: upt_rec hex_digit_def char_class_defs)
  then show "n < 16 \<Longrightarrow> is_hex_lower (hex_digit n)" by (simp add: list_all_iff)
qed

lemma hex_digit_inj:
  assumes "m < 16" and "n < 16" and "hex_digit m = hex_digit n"
  shows "m = n"
proof -
  have "distinct ''0123456789abcdef''" by simp
  then show ?thesis using assms by (simp add: hex_digit_def nth_eq_iff_index_eq)
qed

lemma of_char_less_256: "(of_char c :: nat) < 256"
  by simp

lemma of_char_div_16: "(of_char c :: nat) div 16 < 16"
  using of_char_less_256 [of c] by presburger

lemma length_EncodeToString [simp]: "length (EncodeToString bs) = 2 * length bs"
  by (induction bs) auto

lemma EncodeToString_hex: "list_all is_hex_lower (EncodeToString bs)"
proof (induction bs)
  case (Cons b bs)
  have "(of_char b :: nat) div 16 < 16" by (rule of_char_div_16)
  then show ?case using Cons by (simp add: is_hex_lower_hex_digit)
qed simp

lemma EncodeToString_inj: "EncodeToString bs = EncodeToString cs \<Longrightarrow> bs = cs"
proof (induction bs arbitrary: cs)
  case Nil
  then show ?case by (cases cs) auto
next
  case (Cons b bs)
  then obtain c cs' where cs: "cs = c # cs'" by (cases cs) auto
  let ?b = "of_char b :: nat" and ?c = "of_char c :: nat"
  have lt: "?b div 16 < 16" "?c div 16 < 16"
    by (rule of_char_div_16)+
  have "?b div 16 = ?c div 16" and "?b mod 16 = ?c mod 16"
    using Cons.prems cs lt by (auto intro: hex_digit_inj)
  then have "?b = ?c" by (metis div_mult_mod_eq)
  then show ?case using Cons.IH Cons.prems cs by simp
qed

section \<open>Decimal numbers: fmt's verb d and strconv.Atoi\<close>

definition digit_char :: "nat \<Rightarrow> char" where
  "digit_char n = ''0123456789'' ! n"

fun show_nat :: "nat \<Rightarrow> string" where
  "show_nat n = (if n < 10 then [digit_char n] else show_nat (n div 10) @ [digit_char (n mod 10)])"

declare show_nat.simps [simp del]

definition show_int :: "int \<Rightarrow> string" where
  "show_int i = (if i < 0 then CHR ''-'' # show_nat (nat (- i)) else show_nat (nat i))"

definition digit_value :: "char \<Rightarrow> nat" where
  "digit_value c = of_char c - 48"

definition digits_value :: "string \<Rightarrow> nat" where
  "digits_value s = foldl (\<lambda>n c. 10 * n + digit_value c) 0 s"

lemma digit_char_props:
  "n < 10 \<Longrightarrow> is_digit (digit_char n) \<and> digit_value (digit_char n) = n"
proof -
  have "list_all (\<lambda>n. is_digit (digit_char n) \<and> digit_value (digit_char n) = n) [0..<10]"
    by (simp add: upt_rec digit_char_def digit_value_def char_class_defs)
  then show "n < 10 \<Longrightarrow> is_digit (digit_char n) \<and> digit_value (digit_char n) = n"
    by (simp add: list_all_iff)
qed

lemma show_nat_digits: "show_nat n \<noteq> [] \<and> list_all is_digit (show_nat n)"
proof (induction n rule: show_nat.induct)
  case (1 n)
  then show ?case by (cases "n < 10") (auto simp: show_nat.simps [of n] digit_char_props)
qed

lemma digits_value_show_nat [go_string_simps]: "digits_value (show_nat n) = n"
proof (induction n rule: show_nat.induct)
  case (1 n)
  show ?case
  proof (cases "n < 10")
    case True
    then show ?thesis by (simp add: show_nat.simps [of n] digits_value_def digit_char_props)
  next
    case False
    with 1 have "digits_value (show_nat (n div 10)) = n div 10" by simp
    with False show ?thesis
      by (simp add: show_nat.simps [of n] digits_value_def digit_char_props)
  qed
qed

text \<open>
  The text of a string between quotes, as the verb \<open>q\<close> and \<open>strconv.Quote\<close> write it: the
  quote and the backslash are escaped, so are the control characters. A byte of 128 or more is
  copied, which is what the library does with a printable rune.
\<close>

fun quote_char :: "char \<Rightarrow> string" where
  "quote_char c =
     (if c = CHR 0x22 then [CHR 0x5C, CHR 0x22]
      else if c = CHR 0x5C then [CHR 0x5C, CHR 0x5C]
      else if c = CHR 0x07 then [CHR 0x5C, CHR ''a'']
      else if c = CHR 0x08 then [CHR 0x5C, CHR ''b'']
      else if c = CHR 0x0C then [CHR 0x5C, CHR ''f'']
      else if c = CHR 0x0A then [CHR 0x5C, CHR ''n'']
      else if c = CHR 0x0D then [CHR 0x5C, CHR ''r'']
      else if c = CHR 0x09 then [CHR 0x5C, CHR ''t'']
      else if c = CHR 0x0B then [CHR 0x5C, CHR ''v'']
      else if (of_char c :: nat) < 32 \<or> of_char c = (127 :: nat)
      then [CHR 0x5C, CHR ''x'', hex_digit (of_char c div 16), hex_digit (of_char c mod 16)]
      else [c])"

declare quote_char.simps [simp del]

definition Quote :: "string \<Rightarrow> string" where
  "Quote s = CHR 0x22 # concat (map quote_char s) @ [CHR 0x22]"

text \<open>
  \<open>strconv.Atoi\<close> on a 64-bit platform: an optional sign, then decimal digits only, and a
  value that fits in 64 bits. Its error is a \<open>*NumError\<close>, which unwraps to \<open>ErrSyntax\<close> or
  \<open>ErrRange\<close>.
\<close>

definition NumError :: "string \<Rightarrow> string \<Rightarrow> sentinel \<Rightarrow> go_error" where
  "NumError fn num err =
     Wrap (''strconv.'' @ fn @ '': parsing '' @ Quote num @ '': '') (Sentinel err)"

definition Atoi :: "string \<Rightarrow> go_error + int" where
  "Atoi s =
     (let neg = (s \<noteq> [] \<and> hd s = CHR ''-'');
          ds = (if s \<noteq> [] \<and> (hd s = CHR ''-'' \<or> hd s = CHR ''+'') then tl s else s)
      in if ds = [] \<or> \<not> list_all is_digit ds then Inl (NumError ''Atoi'' s ErrSyntax)
         else let v = (if neg then - int (digits_value ds) else int (digits_value ds))
              in if - (2 ^ 63) \<le> v \<and> v < 2 ^ 63 then Inr v else Inl (NumError ''Atoi'' s ErrRange))"

text \<open>\<open>strconv.ParseUint(s, 10, bits)\<close>: no sign, no underscore, a value below \<open>2 ^ bits\<close>.\<close>

definition ParseUint10 :: "string \<Rightarrow> nat \<Rightarrow> go_error + int" where
  "ParseUint10 s bits =
     (if s = [] \<or> \<not> list_all is_digit s then Inl (NumError ''ParseUint'' s ErrSyntax)
      else if int (digits_value s) < 2 ^ bits then Inr (int (digits_value s))
      else Inl (NumError ''ParseUint'' s ErrRange))"

lemma is_digit_not_sign: "is_digit c \<Longrightarrow> c \<noteq> CHR ''-'' \<and> c \<noteq> CHR ''+''"
  by (auto simp: char_class_defs)

lemma Atoi_show_nat [go_string_simps]: "int n < 2 ^ 63 \<Longrightarrow> Atoi (show_nat n) = Inr (int n)"
proof -
  assume n: "int n < 2 ^ 63"
  obtain c cs where s: "show_nat n = c # cs" and c: "is_digit c"
    using show_nat_digits [of n] by (cases "show_nat n") auto
  show ?thesis
    using n show_nat_digits [of n] is_digit_not_sign [OF c] s digits_value_show_nat [of n]
    by (simp add: Atoi_def Let_def)
qed

lemma Atoi_show_int [go_string_simps]:
  assumes "- (2 ^ 63) \<le> i" and "i < 2 ^ 63"
  shows "Atoi (show_int i) = Inr i"
proof (cases "i < 0")
  case True
  then show ?thesis
    using assms show_nat_digits [of "nat (- i)"] digits_value_show_nat [of "nat (- i)"]
    by (simp add: Atoi_def Let_def show_int_def)
next
  case False
  then show ?thesis using assms Atoi_show_nat [of "nat i"] by (simp add: show_int_def)
qed

section \<open>Validation\<close>

text \<open>The error text of gin's validator for a required field of a struct that has its zero value.\<close>

definition field_required :: "string \<Rightarrow> string \<Rightarrow> string" where
  "field_required struct field =
     ''Key: '' @ CHR 0x27 # struct @ ''.'' @ field @ CHR 0x27 # '' Error:Field validation for '' @
     CHR 0x27 # field @ CHR 0x27 # '' failed on the 'required' tag''"

end
