(* ===== verification/Stacklist.thy ===== *)
theory Stacklist
  imports Go_Strings "HOL-Library.Multiset"
begin

text \<open>
  \<open>broker/stacklist/stacklist.go\<close>: the parsing of \<open>BUNSHIN_STACKS\<close> and of the header
  \<open>X-Fallback-Remaining\<close>, and the order in which a stack tries the others.
\<close>

section \<open>Split and Parse\<close>

text \<open>The loop of \<open>Split\<close> over the parts: trim, drop the empty ones, append.\<close>

fun Split_loop :: "string list \<Rightarrow> string list \<Rightarrow> string list" where
  "Split_loop [] stacks = stacks"
| "Split_loop (s # ss) stacks =
     (let s' = TrimSpace s in Split_loop ss (if s' \<noteq> [] then stacks @ [s'] else stacks))"

definition Split :: "string \<Rightarrow> string list" where
  "Split raw = Split_loop (Split_on (CHR '','') raw) []"

text \<open>The search for \<open>self\<close>: the index of its first occurrence, \<open>None\<close> for the \<open>-1\<close> of the code.\<close>

fun find_pivot :: "string list \<Rightarrow> string \<Rightarrow> nat \<Rightarrow> nat option" where
  "find_pivot [] self i = None"
| "find_pivot (s # ss) self i = (if s = self then Some i else find_pivot ss self (Suc i))"

text \<open>The loop from \<open>pivot + 1\<close> to the end, which skips further occurrences of \<open>self\<close>.\<close>

fun append_others :: "string list \<Rightarrow> string \<Rightarrow> string list \<Rightarrow> string list" where
  "append_others [] self fallbacks = fallbacks"
| "append_others (s # ss) self fallbacks =
     append_others ss self (if s = self then fallbacks else fallbacks @ [s])"

definition Parse :: "string \<Rightarrow> string \<Rightarrow> string list \<times> bool" where
  "Parse raw self =
     (let all = Split raw in
      case find_pivot all self 0 of
        None \<Rightarrow> ([] @ all, False)
      | Some pivot \<Rightarrow>
          (append_others (drop (pivot + 1) all) self [] @ take pivot all, True))"

section \<open>What the loops compute\<close>

lemma Split_loop_eq: "Split_loop ss acc = acc @ filter (\<lambda>s. s \<noteq> []) (map TrimSpace ss)"
  by (induction ss arbitrary: acc) (auto simp: Let_def)

lemma Split_eq: "Split raw = filter (\<lambda>s. s \<noteq> []) (map TrimSpace (Split_on (CHR '','') raw))"
  by (simp add: Split_def Split_loop_eq)

lemma append_others_eq: "append_others ss self acc = acc @ filter (\<lambda>s. s \<noteq> self) ss"
  by (induction ss arbitrary: acc) auto

lemma find_pivot_None: "find_pivot ss self i = None \<longleftrightarrow> self \<notin> set ss"
  by (induction ss arbitrary: i) auto

lemma find_pivot_Some:
  "find_pivot ss self i = Some p \<Longrightarrow>
     i \<le> p \<and> p - i < length ss \<and> ss = take (p - i) ss @ self # drop (Suc (p - i)) ss \<and>
     self \<notin> set (take (p - i) ss)"
proof (induction ss arbitrary: i)
  case (Cons s ss)
  show ?case
  proof (cases "s = self")
    case True
    with Cons.prems show ?thesis by auto
  next
    case False
    with Cons.prems have "find_pivot ss self (Suc i) = Some p" by simp
    note ih = Cons.IH [OF this]
    then have "p - i = Suc (p - Suc i)" and "i \<le> p" by linarith+
    with ih False show ?thesis by auto
  qed
qed simp

text \<open>\<open>clean\<close> is what a stack name is: trimmed, not empty, without a comma.\<close>

definition clean_stack :: "string \<Rightarrow> bool" where
  "clean_stack s \<longleftrightarrow> s \<noteq> [] \<and> trimmed s \<and> CHR '','' \<notin> set s"

lemma Split_clean: "s \<in> set (Split raw) \<Longrightarrow> clean_stack s"
proof -
  assume "s \<in> set (Split raw)"
  then obtain p where p: "p \<in> set (Split_on (CHR '','') raw)" and s: "s = TrimSpace p" "s \<noteq> []"
    by (auto simp: Split_eq)
  from Split_on_parts [OF p] have "CHR '','' \<notin> set p" by simp
  then have "CHR '','' \<notin> set s" using s set_TrimSpace by blast
  then show ?thesis using s by (simp add: clean_stack_def trimmed_TrimSpace)
qed

lemma Split_Join_clean: "\<forall>s\<in>set ss. clean_stack s \<Longrightarrow> Split (Join ss '','') = ss"
proof (cases "ss = []")
  case True
  then show ?thesis by (simp add: Split_eq)
next
  case False
  assume clean: "\<forall>s\<in>set ss. clean_stack s"
  then have "Split_on (CHR '','') (Join ss '','') = ss"
    using False by (intro Split_on_Join) (auto simp: clean_stack_def)
  moreover have "map TrimSpace ss = ss"
    using clean by (intro map_idI) (simp add: clean_stack_def TrimSpace_trimmed_id)
  moreover have "filter (\<lambda>s. s \<noteq> []) ss = ss"
    using clean by (intro filter_True) (auto simp: clean_stack_def)
  ultimately show ?thesis by (simp add: Split_eq)
qed

lemma Parse_cases:
  obtains (absent) "self \<notin> set (Split raw)" "Parse raw self = (Split raw, False)"
  | (present) pre post where "Split raw = pre @ self # post" "self \<notin> set pre"
      "Parse raw self = (filter (\<lambda>s. s \<noteq> self) post @ pre, True)"
proof (cases "find_pivot (Split raw) self 0")
  case None
  then have "self \<notin> set (Split raw)" by (simp add: find_pivot_None)
  moreover have "Parse raw self = (Split raw, False)" using None by (simp add: Parse_def Let_def)
  ultimately show ?thesis by (rule absent)
next
  case (Some p)
  from find_pivot_Some [OF this] have
    "Split raw = take p (Split raw) @ self # drop (Suc p) (Split raw)"
    "self \<notin> set (take p (Split raw))" by auto
  with Some show ?thesis
    by (intro present) (auto simp: Parse_def append_others_eq Let_def)
qed

lemma Parse_fallbacks_clean: "s \<in> set (fst (Parse raw self)) \<Longrightarrow> clean_stack s"
  by (rule Parse_cases [of self raw]) (auto intro: Split_clean [of s raw])

lemma Parse_distinct:
  assumes "distinct (Split raw)" and "Split raw = pre @ self # post"
  shows "Parse raw self = (post @ pre, True)"
proof (cases rule: Parse_cases [of self raw])
  case absent
  then show ?thesis using assms by simp
next
  case (present pre' post')
  with assms have "pre' = pre \<and> post' = post"
    by (metis append_Cons_eq_iff distinct_append not_distinct_conv_prefix distinct.simps(2))
  moreover have "filter (\<lambda>s. s \<noteq> self) post = post"
    using assms by (intro filter_True) auto
  ultimately show ?thesis using present by simp
qed

section \<open>The fallbacks of a stack\<close>

text \<open>
  The fallbacks are the other stacks: \<open>Parse\<close> says that \<open>self\<close> is listed exactly when it is,
  the fallbacks never contain \<open>self\<close>, and they hold every other entry of the list with its
  multiplicity.
\<close>

lemma Parse_permutes_others:
  "snd (Parse raw self) = (self \<in> set (Split raw)) \<and>
   self \<notin> set (fst (Parse raw self)) \<and>
   mset (fst (Parse raw self)) = filter_mset (\<lambda>s. s \<noteq> self) (mset (Split raw))"
proof (cases rule: Parse_cases [of self raw])
  case absent
  then have "filter_mset (\<lambda>s. s \<noteq> self) (mset (Split raw)) = mset (Split raw)"
    by (auto simp: filter_mset_eq_conv)
  with absent show ?thesis by simp
next
  case (present pre post)
  then have "filter (\<lambda>s. s \<noteq> self) pre = pre" by (intro filter_True) auto
  then have "mset pre = filter_mset (\<lambda>s. s \<noteq> self) (mset pre)" by (metis mset_filter)
  with present show ?thesis by auto
qed

text \<open>
  C20: the order spreads the load. When the same list of two or more different stacks is given
  to every stack, the first fallback of the stack at position \<open>i\<close> is the one at position
  \<open>i + 1\<close>, cyclically, and so no two stacks have the same first fallback.
\<close>

theorem Parse_first_fallbacks:
  assumes "distinct (Split raw)" and "2 \<le> length (Split raw)"
  shows "(\<forall>i < length (Split raw). hd (fst (Parse raw (Split raw ! i))) =
            Split raw ! (Suc i mod length (Split raw))) \<and>
         inj_on (\<lambda>self. hd (fst (Parse raw self))) (set (Split raw))"
proof -
  let ?all = "Split raw" and ?n = "length (Split raw)"
  have first: "hd (fst (Parse raw (?all ! i))) = ?all ! (Suc i mod ?n)" if i: "i < ?n" for i
  proof -
    have "Parse raw (?all ! i) = (drop (Suc i) ?all @ take i ?all, True)"
      using assms(1) id_take_nth_drop [OF i] by (rule Parse_distinct)
    then have "hd (fst (Parse raw (?all ! i))) = hd (drop (Suc i) ?all @ take i ?all)" by simp
    also have "\<dots> = ?all ! (Suc i mod ?n)"
    proof (cases "Suc i = ?n")
      case True
      with i assms(2) have "?all \<noteq> []" and "0 < i" by auto
      then show ?thesis using True by (simp add: hd_conv_nth)
    next
      case False
      then show ?thesis using i by (simp add: hd_append hd_drop_conv_nth)
    qed
    finally show ?thesis .
  qed
  have "inj_on (\<lambda>self. hd (fst (Parse raw self))) (set ?all)"
  proof (rule inj_onI)
    fix x y assume "x \<in> set ?all" and "y \<in> set ?all"
      and eq: "hd (fst (Parse raw x)) = hd (fst (Parse raw y))"
    then obtain i j where ij: "i < ?n" "x = ?all ! i" "j < ?n" "y = ?all ! j"
      by (auto simp: in_set_conv_nth)
    with eq first have "?all ! (Suc i mod ?n) = ?all ! (Suc j mod ?n)" by simp
    moreover have "0 < ?n" using assms(2) by linarith
    then have "Suc i mod ?n < ?n" and "Suc j mod ?n < ?n" by simp_all
    ultimately have "Suc i mod ?n = Suc j mod ?n"
      using nth_eq_iff_index_eq [OF assms(1)] by blast
    then have "i = j" using ij
      by (metis Suc_lessI mod_less mod_self nat.inject nat.simps(3))
    with ij show "x = y" by simp
  qed
  with first show ?thesis by blast
qed

theorem Parse_first_fallbacks_witness:
  "distinct (Split ''a,b'') \<and> hd (fst (Parse ''a,b'' ''a'')) = ''b''"
proof -
  have split: "Split ''a,b'' = [''a'', ''b'']" by code_simp
  have "hd (fst (Parse ''a,b'' (Split ''a,b'' ! 0))) = Split ''a,b'' ! (Suc 0 mod length (Split ''a,b''))"
    by (rule Parse_first_fallbacks [of "''a,b''", THEN conjunct1, rule_format]) (simp_all add: split)
  then show ?thesis by (simp add: split)
qed

end
