(* ===== verification/Runner_Model.thy ===== *)
theory Runner_Model
  imports Go_Strings
begin

text \<open>
  \<open>broker/model\<close>: the runner record that the store keeps, its two states, and the body of an
  API error. The Go type \<open>State\<close> is a string type with two constants, not a closed
  enumeration, and a store may hand back any text, so it stays a string here.
\<close>

type_synonym State = string

definition StateIdle :: State where "StateIdle = ''idle''"
definition StateBusy :: State where "StateBusy = ''busy''"

lemma StateIdle_neq_StateBusy [simp]: "StateIdle \<noteq> StateBusy" "StateBusy \<noteq> StateIdle"
  by (simp_all add: StateIdle_def StateBusy_def)

record Runner =
  RunnerID :: string
  State :: State
  CurrentSessionID :: string
  PrivateHost :: string

definition IsIdle :: "Runner \<Rightarrow> bool" where
  "IsIdle r \<longleftrightarrow> State r = StateIdle"

definition IsBusy :: "Runner \<Rightarrow> bool" where
  "IsBusy r \<longleftrightarrow> State r = StateBusy"

lemma not_IsIdle_and_IsBusy: "\<not> (IsIdle r \<and> IsBusy r)"
  by (auto simp: IsIdle_def IsBusy_def)

lemma IsIdle_assigned [simp]: "\<not> IsIdle (r\<lparr>State := StateBusy, CurrentSessionID := sid\<rparr>)"
  by (simp add: IsIdle_def)

section \<open>API errors\<close>

definition CodeNoIdleRunner :: string where "CodeNoIdleRunner = ''NO_IDLE_RUNNER''"
definition CodeSessionNotFound :: string where "CodeSessionNotFound = ''SESSION_NOT_FOUND''"
definition CodeInvalidRequest :: string where "CodeInvalidRequest = ''INVALID_REQUEST''"
definition CodeRunnerConflict :: string where "CodeRunnerConflict = ''RUNNER_CONFLICT''"
definition CodeInternalError :: string where "CodeInternalError = ''INTERNAL_ERROR''"

record ErrorResponse =
  Code :: string
  Message :: string
  RequestID :: string

end
