(* ===== verification/Repository.thy ===== *)
theory Repository
  imports Runner_Model "HOL-Library.Word"
begin

text \<open>
  \<open>broker/store/repository.go\<close>: the interface \<open>Repository\<close> that the broker's service calls,
  and what its two implementations share. The contract of the interface is stated twice:

  \<^item> \<open>repository\<close> is what holds whatever other brokers do to the store at the same time;
  \<^item> \<open>settled_repository\<close> adds what holds while nobody else writes.

  The abstract store is a map from runner IDs to runners, which changes by three atomic
  actions: a registration, an assignment and a deletion.
\<close>

section \<open>Shared by both stores\<close>

definition acquireQueryLimit :: nat where
  "acquireQueryLimit = 5"

text \<open>The regular expression \<open>^[0-9a-f]{32}$\<close>.\<close>

definition runnerIDRe :: "string \<Rightarrow> bool" where
  "runnerIDRe s \<longleftrightarrow> length s = 32 \<and> list_all is_hex_lower s"

text \<open>
  \<open>defaultRandHexFn\<close>: two random 64-bit words, written in little-endian order into 16 bytes,
  then in hex. The random source is an argument.
\<close>

definition PutUint64 :: "64 word \<Rightarrow> string" where
  "PutUint64 v = map (\<lambda>i. char_of (unat (drop_bit (8 * i) v) mod 256)) [0..<8]"

definition defaultRandHexFn :: "('w \<Rightarrow> 64 word \<times> 'w) \<Rightarrow> 'w \<Rightarrow> string \<times> 'w" where
  "defaultRandHexFn randUint64 w =
     (let (v1, w1) = randUint64 w; (v2, w2) = randUint64 w1
      in (EncodeToString (PutUint64 v1 @ PutUint64 v2), w2))"

lemma length_PutUint64 [simp]: "length (PutUint64 v) = 8"
  by (simp add: PutUint64_def)

lemma runnerIDRe_EncodeToString: "length bs = 16 \<Longrightarrow> runnerIDRe (EncodeToString bs)"
  by (simp add: runnerIDRe_def EncodeToString_hex)

lemma runnerIDRe_defaultRandHexFn: "runnerIDRe (fst (defaultRandHexFn rnd w))"
  by (simp add: defaultRandHexFn_def runnerIDRe_EncodeToString split: prod.split)

lemma runnerIDRe_neq_Nil: "runnerIDRe s \<Longrightarrow> s \<noteq> []"
  by (auto simp: runnerIDRe_def)

section \<open>The interface\<close>

text \<open>
  The methods of \<open>Repository\<close>, without the context argument, whose cancellation reaches the
  client library only. \<open>AcquireIdle\<close> and \<open>ListBusyRunners\<close> loop over pages for as long as
  the store returns more of them.
\<close>

record 'w Repository =
  Register :: "string \<Rightarrow> string \<Rightarrow> 'w \<Rightarrow> go_error option \<times> 'w"
  AcquireIdle :: "string \<Rightarrow> 'w \<Rightarrow> ((go_error + Runner) \<times> 'w) option"
  ListBusyRunners :: "'w \<Rightarrow> ((go_error + Runner list) \<times> 'w) option"
  FindBySessionID :: "string \<Rightarrow> 'w \<Rightarrow> (go_error + Runner) \<times> 'w"
  FindByID :: "string \<Rightarrow> 'w \<Rightarrow> (go_error + Runner) \<times> 'w"
  Delete :: "string \<Rightarrow> 'w \<Rightarrow> go_error option \<times> 'w"

section \<open>The abstract store\<close>

type_synonym runners = "string \<rightharpoonup> Runner"

definition new_runner :: "string \<Rightarrow> string \<Rightarrow> Runner" where
  "new_runner rid host =
     \<lparr>RunnerID = rid, State = StateIdle, CurrentSessionID = [], PrivateHost = host\<rparr>"

definition assigned :: "string \<Rightarrow> Runner \<Rightarrow> Runner" where
  "assigned sid r = r\<lparr>State := StateBusy, CurrentSessionID := sid\<rparr>"

datatype action =
    Registered string string
  | Assigned string string
  | Deleted string

inductive store_step :: "runners \<Rightarrow> action \<Rightarrow> runners \<Rightarrow> bool" where
  register: "runnerIDRe rid \<Longrightarrow> host \<noteq> [] \<Longrightarrow> t rid = None \<Longrightarrow>
     store_step t (Registered rid host) (t(rid \<mapsto> new_runner rid host))"
| assign: "t rid = Some r \<Longrightarrow> IsIdle r \<Longrightarrow>
     store_step t (Assigned rid sid) (t(rid \<mapsto> assigned sid r))"
| delete: "store_step t (Deleted rid) (t(rid := None))"

inductive_cases registerE [elim]: "store_step t (Registered rid host) t'"
inductive_cases assignE [elim]: "store_step t (Assigned rid sid) t'"
inductive_cases deleteE [elim]: "store_step t (Deleted rid) t'"

inductive_simps store_step_Assigned [simp]: "store_step t (Assigned rid sid) t'"
inductive_simps store_step_Deleted [simp]: "store_step t (Deleted rid) t'"
inductive_simps store_step_Registered [simp]: "store_step t (Registered rid host) t'"

text \<open>A run: the actions of any number of brokers, in the order in which the store takes them.\<close>

inductive store_run :: "runners \<Rightarrow> action list \<Rightarrow> runners \<Rightarrow> bool" where
  finish: "store_run t [] t"
| more: "store_step t a u \<Longrightarrow> store_run u as v \<Longrightarrow> store_run t (a # as) v"

inductive_simps store_run_Nil [simp]: "store_run t [] t'"
inductive_simps store_run_Cons: "store_run t (a # as) t'"

lemma store_run_append: "store_run t (as @ bs) v \<longleftrightarrow> (\<exists>u. store_run t as u \<and> store_run u bs v)"
  by (induction as arbitrary: t) (auto simp: store_run_Cons)

text \<open>What other brokers can have done between two calls of ours.\<close>

definition others :: "runners \<Rightarrow> runners \<Rightarrow> bool" where
  "others t t' \<longleftrightarrow> (\<exists>as. store_run t as t')"

lemma others_refl: "others t t"
  unfolding others_def by (blast intro: store_run.finish)

lemma others_trans: "others t u \<Longrightarrow> others u v \<Longrightarrow> others t v"
  unfolding others_def by (meson store_run_append)

lemma others_step: "store_step t a u \<Longrightarrow> others t u"
  unfolding others_def by (blast intro: store_run.intros)

text \<open>The IDs of the idle runners, and a store without some of its runners.\<close>

definition idle_ids :: "runners \<Rightarrow> string set" where
  "idle_ids t = {rid. \<exists>r. t rid = Some r \<and> IsIdle r}"

definition without :: "string set \<Rightarrow> runners \<Rightarrow> runners" where
  "without D t = t |` (- D)"

lemma without_empty [simp]: "without {} t = t"
  by (simp add: without_def restrict_map_def fun_eq_iff)

lemma without_insert: "without (insert rid D) t = without D (t(rid := None))"
  by (auto simp: without_def restrict_map_def)

lemma without_busy: "D \<subseteq> idle_ids t \<Longrightarrow> t rid = Some r \<Longrightarrow> \<not> IsIdle r \<Longrightarrow> without D t rid = Some r"
  by (auto simp: without_def idle_ids_def restrict_map_def)

lemma idle_ids_delete [simp]: "idle_ids (t(rid := None)) = idle_ids t - {rid}"
  by (auto simp: idle_ids_def)

text \<open>
  The invariant of the store: a record sits under its own ID, which has the right form; an idle
  runner has no session; every other one is busy.
\<close>

definition store_ok :: "runners \<Rightarrow> bool" where
  "store_ok t \<longleftrightarrow> (\<forall>rid r. t rid = Some r \<longrightarrow>
     RunnerID r = rid \<and> runnerIDRe rid \<and> PrivateHost r \<noteq> [] \<and>
     (IsIdle r \<and> CurrentSessionID r = [] \<or> IsBusy r))"

lemma store_ok_empty: "store_ok Map.empty"
  by (simp add: store_ok_def)

lemma store_step_ok: "store_step t a t' \<Longrightarrow> store_ok t \<Longrightarrow> store_ok t'"
  by (induction rule: store_step.induct)
    (auto simp: store_ok_def new_runner_def assigned_def IsIdle_def IsBusy_def)

lemma store_run_ok: "store_run t as t' \<Longrightarrow> store_ok t \<Longrightarrow> store_ok t'"
  by (induction rule: store_run.induct) (auto intro: store_step_ok)

text \<open>
  A busy runner stays as it is, its session included, until it is deleted: no action but a
  deletion of that runner touches its record.
\<close>

lemma store_step_busy:
  "store_step t a t' \<Longrightarrow> t rid = Some r \<Longrightarrow> \<not> IsIdle r \<Longrightarrow> a \<noteq> Deleted rid \<Longrightarrow> t' rid = Some r"
  by (induction rule: store_step.induct) auto

lemma store_run_busy:
  "store_run t as t' \<Longrightarrow> t rid = Some r \<Longrightarrow> \<not> IsIdle r \<Longrightarrow> Deleted rid \<notin> set as \<Longrightarrow> t' rid = Some r"
proof (induction rule: store_run.induct)
  case (more t a u as v)
  then have "u rid = Some r" by (intro store_step_busy [of t a u]) auto
  with more show ?case by simp
qed auto

lemma store_run_no_assign:
  assumes "store_run t as t'" and "t rid = Some r" and "\<not> IsIdle r" and "Deleted rid \<notin> set as"
  shows "Assigned rid sid \<notin> set as"
proof
  assume "Assigned rid sid \<in> set as"
  then obtain bs cs where as: "as = bs @ Assigned rid sid # cs" by (meson split_list)
  with assms(1) have "store_run t (bs @ Assigned rid sid # cs) t'" by simp
  then obtain u where u: "store_run t bs u" "store_run u (Assigned rid sid # cs) t'"
    unfolding store_run_append by blast
  then obtain v where "store_step u (Assigned rid sid) v" unfolding store_run_Cons by blast
  then have "\<exists>r'. u rid = Some r' \<and> IsIdle r'" by auto
  moreover have "u rid = Some r"
    using u(1) assms(2,3) by (rule store_run_busy) (use as assms(4) in simp)
  ultimately show False using assms(3) by simp
qed

text \<open>A session keeps its runner from the assignment on, whatever the others do.\<close>

lemma store_run_exclusive:
  assumes "store_run t (before @ Assigned rid sid # later) t'" and "Deleted rid \<notin> set later"
  shows "(\<exists>x. t' rid = Some x \<and> IsBusy x \<and> CurrentSessionID x = sid) \<and>
    (\<forall>sid'. Assigned rid sid' \<notin> set later)"
proof -
  obtain u v where u: "store_step u (Assigned rid sid) v" and run: "store_run v later t'"
    using assms(1) by (auto simp: store_run_append store_run_Cons simp del: store_step_Assigned)
  then obtain x where v: "v rid = Some (assigned sid x)" by auto
  have busy: "\<not> IsIdle (assigned sid x)" by (simp add: assigned_def)
  have "t' rid = Some (assigned sid x)" using run v busy assms(2) by (rule store_run_busy)
  then show ?thesis using store_run_no_assign [OF run v busy assms(2)]
    by (auto simp: assigned_def IsBusy_def)
qed

text \<open>An error that is none of the store's own.\<close>

definition foreign :: "go_error \<Rightarrow> bool" where
  "foreign e \<longleftrightarrow> \<not> errors_Is e ErrNotFound \<and> \<not> errors_Is e ErrNoIdleRunner \<and>
     \<not> errors_Is e ErrConditionFailed \<and> \<not> errors_Is e ErrConflict"

lemma foreign_simps [simp]:
  "foreign e \<Longrightarrow> \<not> errors_Is e ErrNotFound"
  "foreign e \<Longrightarrow> \<not> errors_Is e ErrNoIdleRunner"
  "foreign e \<Longrightarrow> \<not> errors_Is e ErrConditionFailed"
  "foreign e \<Longrightarrow> \<not> errors_Is e ErrConflict"
  "foreign (Wrap m e) = foreign e"
  by (auto simp: foreign_def)

text \<open>
  What a loop that tries to take a runner for the session \<open>sid\<close> can have done to the store by the
  time it returns: nothing of its own, or one assignment, which is that of the runner it returns.
\<close>

definition acquired ::
  "(runners \<Rightarrow> runners \<Rightarrow> bool) \<Rightarrow> string \<Rightarrow> runners \<Rightarrow> go_error + Runner option \<Rightarrow> runners \<Rightarrow> bool" where
  "acquired env sid t res t' \<longleftrightarrow>
     (case res of
        Inr None \<Rightarrow> env t t'
      | Inr (Some x) \<Rightarrow> State x = StateBusy \<and> CurrentSessionID x = sid \<and>
          (\<exists>u. env t u \<and> store_step u (Assigned (RunnerID x) sid) t')
      | Inl e \<Rightarrow> \<not> errors_Is e ErrNoIdleRunner \<and>
          (env t t' \<or> (\<exists>u rid. env t u \<and> store_step u (Assigned rid sid) t')))"

lemma acquired_trans:
  assumes trans: "\<And>t u v. env t u \<Longrightarrow> env u v \<Longrightarrow> env t v"
    and "env t t1" and "acquired env sid t1 res t2"
  shows "acquired env sid t res t2"
proof -
  have tr: "env t1 u \<Longrightarrow> env t u" for u using \<open>env t t1\<close> by (rule trans)
  show ?thesis
    using assms(3) by (cases res) (auto simp: acquired_def split: option.splits dest: tr simp del: store_step_Assigned)
qed

section \<open>The contract under interference\<close>

text \<open>
  \<open>abs\<close> reads the abstract store out of the world, \<open>env\<close> is what the others may do in
  between. An error that is not one of the sentinels leaves it open whether the store took the
  request, as a lost answer does.
\<close>

locale repository =
  fixes repo :: "'w Repository"
    and abs :: "'w \<Rightarrow> runners"
    and env :: "runners \<Rightarrow> runners \<Rightarrow> bool"
  assumes env_refl: "env t t"
    and env_trans: "env t u \<Longrightarrow> env u v \<Longrightarrow> env t v"
    and register_ok: "Register repo rid host w = (None, w') \<Longrightarrow>
      \<exists>t. env (abs w) t \<and> store_step t (Registered rid host) (abs w')"
    and register_error: "Register repo rid host w = (Some e, w') \<Longrightarrow>
      \<exists>t. env (abs w) t \<and> (abs w' = t \<or> store_step t (Registered rid host) (abs w'))"
    and register_conflict: "Register repo rid host w = (Some e, w') \<Longrightarrow> errors_Is e ErrConflict \<Longrightarrow>
      env (abs w) (abs w') \<and> abs w' rid \<noteq> None"
    and acquire_ok: "AcquireIdle repo sid w = Some (Inr r, w') \<Longrightarrow> sid \<noteq> [] \<Longrightarrow>
      State r = StateBusy \<and> CurrentSessionID r = sid \<and>
      (\<exists>t. env (abs w) t \<and> store_step t (Assigned (RunnerID r) sid) (abs w'))"
    and acquire_error: "AcquireIdle repo sid w = Some (Inl e, w') \<Longrightarrow> sid \<noteq> [] \<Longrightarrow>
      env (abs w) (abs w') \<or>
      (\<not> errors_Is e ErrNoIdleRunner \<and>
       (\<exists>t rid. env (abs w) t \<and> store_step t (Assigned rid sid) (abs w')))"
    and find_session_env: "FindBySessionID repo sid w = (res, w') \<Longrightarrow> env (abs w) (abs w')"
    and find_session_error: "FindBySessionID repo sid w = (Inl e, w') \<Longrightarrow> \<not> errors_Is e ErrNoIdleRunner"
    and find_id_ok: "FindByID repo rid w = (Inr r, w') \<Longrightarrow>
      env (abs w) (abs w') \<and> abs w' rid = Some r"
    and find_id_env: "FindByID repo rid w = (Inl e, w') \<Longrightarrow> env (abs w) (abs w')"
    and find_id_none: "FindByID repo rid w = (Inl e, w') \<Longrightarrow> errors_Is e ErrNotFound \<Longrightarrow>
      abs w' rid = None"
    and list_env: "ListBusyRunners repo w = Some (res', w') \<Longrightarrow> env (abs w) (abs w')"
    and delete_ok: "Delete repo rid w = (None, w') \<Longrightarrow>
      \<exists>t. env (abs w) t \<and> store_step t (Deleted rid) (abs w')"
    and delete_error: "Delete repo rid w = (Some e, w') \<Longrightarrow> \<not> errors_Is e ErrNoIdleRunner \<and>
      (\<exists>t. env (abs w) t \<and> (abs w' = t \<or> store_step t (Deleted rid) (abs w')))"

section \<open>The contract while nobody else writes\<close>

text \<open>
  \<open>synced\<close> says that the indexes of the store have caught up with its records. Looking a
  session up and listing the busy runners read an index, and are exact only then; acquiring a
  runner works without it.
\<close>

locale settled_repository = repository repo abs "(=)"
  for repo :: "'w Repository" and abs :: "'w \<Rightarrow> runners" +
  fixes synced :: "'w \<Rightarrow> bool"
  assumes finite_store: "finite (dom (abs w))"
    and acquire_total: "sid \<noteq> [] \<Longrightarrow> AcquireIdle repo sid w \<noteq> None"
    and acquire_none: "AcquireIdle repo sid w = Some (Inl e, w') \<Longrightarrow> sid \<noteq> [] \<Longrightarrow> errors_Is e ErrNoIdleRunner \<Longrightarrow>
      abs w rid = Some r \<Longrightarrow> \<not> IsIdle r"
    and acquire_record: "AcquireIdle repo sid w = Some (Inr r, w') \<Longrightarrow> sid \<noteq> [] \<Longrightarrow> abs w' (RunnerID r) = Some r"
    and find_session_ok: "synced w \<Longrightarrow> FindBySessionID repo sid w = (Inr r, w') \<Longrightarrow>
      abs w (RunnerID r) = Some r \<and> CurrentSessionID r = sid"
    and find_session_none: "synced w \<Longrightarrow> FindBySessionID repo sid w = (Inl e, w') \<Longrightarrow> errors_Is e ErrNotFound \<Longrightarrow>
      sid \<noteq> [] \<Longrightarrow> abs w rid = Some r \<Longrightarrow> CurrentSessionID r \<noteq> sid"
    and list_total: "ListBusyRunners repo w \<noteq> None"
    and list_ok: "synced w \<Longrightarrow> ListBusyRunners repo w = Some (Inr rs, w') \<Longrightarrow>
      distinct rs \<and> set rs = {r \<in> ran (abs w). IsBusy r}"
begin

lemma find_session_same: "FindBySessionID repo sid w = (res, w') \<Longrightarrow> abs w' = abs w"
  by (simp add: find_session_env)

lemma acquire_step: "AcquireIdle repo sid w = Some (Inr r, w') \<Longrightarrow> sid \<noteq> [] \<Longrightarrow>
  \<exists>r0. abs w (RunnerID r) = Some r0 \<and> IsIdle r0 \<and> r = assigned sid r0 \<and>
    abs w' = (abs w)(RunnerID r \<mapsto> r)"
  using acquire_ok [of sid w r w'] acquire_record [of sid w r w'] by auto

lemma acquire_noop: "AcquireIdle repo sid w = Some (Inl e, w') \<Longrightarrow> sid \<noteq> [] \<Longrightarrow> errors_Is e ErrNoIdleRunner \<Longrightarrow>
  abs w' = abs w"
  using acquire_error [of sid w e w'] by auto

lemma delete_step: "Delete repo rid w = (None, w') \<Longrightarrow> abs w' = (abs w)(rid := None)"
  using delete_ok [of rid w w'] by auto

end

end
