(* ===== verification/Dynamo_Store.thy ===== *)
theory Dynamo_Store
  imports Repository
begin

text \<open>
  \<open>broker/store/dynamo.go\<close>: the store on DynamoDB. The client library is an argument: the
  five calls of \<open>dynamoDBAPI\<close> with the texts of the requests that the code builds, and the two
  conversions of \<open>attributevalue\<close>. All attributes the code uses are strings, so an item is an
  association list of strings.

  The locale \<open>dynamo_service\<close> states what the code relies on at each call, with other brokers
  at work; \<open>settled_dynamo\<close> adds the documented behaviour of queries on an index that may lag
  behind the table. Both give the contracts of \<open>Repository\<close>.
\<close>

section \<open>Requests and answers of the client\<close>

type_synonym item = "(string \<times> string) list"

record put_input =
  put_TableName :: string
  put_Item :: item
  put_ConditionExpression :: string

record get_input =
  get_TableName :: string
  get_Key :: item
  get_ConsistentRead :: bool

record update_input =
  upd_TableName :: string
  upd_Key :: item
  upd_UpdateExpression :: string
  upd_ConditionExpression :: string
  upd_Names :: "(string \<times> string) list"
  upd_Values :: "(string \<times> string) list"

record delete_input =
  del_TableName :: string
  del_Key :: item

text \<open>\<open>None\<close> for \<open>Limit\<close> and \<open>[]\<close> for a key are the \<open>nil\<close> of the code.\<close>

record query_input =
  qry_TableName :: string
  qry_IndexName :: string
  qry_KeyCondition :: string
  qry_Names :: "(string \<times> string) list"
  qry_Values :: "(string \<times> string) list"
  qry_Limit :: "nat option"
  qry_ExclusiveStartKey :: item

record query_output =
  Items :: "item list"
  LastEvaluatedKey :: item

record 'w dynamoDBAPI =
  PutItem :: "put_input \<Rightarrow> 'w \<Rightarrow> go_error option \<times> 'w"
  GetItem :: "get_input \<Rightarrow> 'w \<Rightarrow> (go_error + item option) \<times> 'w"
  UpdateItem :: "update_input \<Rightarrow> 'w \<Rightarrow> go_error option \<times> 'w"
  DeleteItem :: "delete_input \<Rightarrow> 'w \<Rightarrow> go_error option \<times> 'w"
  Query :: "query_input \<Rightarrow> 'w \<Rightarrow> (go_error + query_output) \<times> 'w"

text \<open>
  \<open>unmarshalFn\<close> is \<open>attributevalue.UnmarshalMap\<close> into a \<open>model.Runner\<close>, which the code calls
  by name.
\<close>

record 'w DynamoRepository =
  client :: "'w dynamoDBAPI"
  tableName :: string
  randHexFn :: "'w \<Rightarrow> string \<times> 'w"
  marshalFn :: "Runner \<Rightarrow> go_error + item"
  unmarshalFn :: "item \<Rightarrow> go_error + Runner"

definition NewDynamoRepository ::
  "'w dynamoDBAPI \<Rightarrow> string \<Rightarrow> ('w \<Rightarrow> 64 word \<times> 'w) \<Rightarrow> (Runner \<Rightarrow> go_error + item) \<Rightarrow>
   (item \<Rightarrow> go_error + Runner) \<Rightarrow> 'w DynamoRepository" where
  "NewDynamoRepository api table randUint64 marshal unmarshal =
     \<lparr>client = api, tableName = table, randHexFn = defaultRandHexFn randUint64,
      marshalFn = marshal, unmarshalFn = unmarshal\<rparr>"

section \<open>The operations\<close>

definition segFirstCond :: string where "segFirstCond = ''runnerId > :v''"
definition segSecondCond :: string where "segSecondCond = ''runnerId <= :v''"

definition isConditionalCheckFailed :: "go_error \<Rightarrow> bool" where
  "isConditionalCheckFailed err = errors_As err ''ConditionalCheckFailedException''"

definition dynamo_Register ::
  "'w DynamoRepository \<Rightarrow> string \<Rightarrow> string \<Rightarrow> 'w \<Rightarrow> go_error option \<times> 'w" where
  "dynamo_Register r runnerID privateHost w =
     (if \<not> runnerIDRe runnerID then (Some (Sentinel ErrInvalidRunnerID), w)
      else if privateHost = [] then (Some (Sentinel ErrInvalidPrivateHost), w)
      else case marshalFn r \<lparr>RunnerID = runnerID, State = StateIdle, CurrentSessionID = [],
                            PrivateHost = privateHost\<rparr> of
        Inl err \<Rightarrow> (Some (Wrap ''marshal runner: '' err), w)
      | Inr item \<Rightarrow>
          (case PutItem (client r)
                  \<lparr>put_TableName = tableName r, put_Item = item,
                   put_ConditionExpression = ''attribute_not_exists(runnerId)''\<rparr> w of
             (None, w1) \<Rightarrow> (None, w1)
           | (Some err, w1) \<Rightarrow>
               if isConditionalCheckFailed err then (Some (Sentinel ErrConflict), w1)
               else (Some (Wrap ''put item: '' err), w1)))"

definition assignSession ::
  "'w DynamoRepository \<Rightarrow> string \<Rightarrow> string \<Rightarrow> 'w \<Rightarrow> go_error option \<times> 'w" where
  "assignSession r runnerID sessionID w =
     (case UpdateItem (client r)
             \<lparr>upd_TableName = tableName r,
              upd_Key = [(''runnerId'', runnerID)],
              upd_UpdateExpression = ''SET #s = :busy, currentSessionId = :sid'',
              upd_ConditionExpression = ''#s = :idle'',
              upd_Names = [(''#s'', ''state'')],
              upd_Values = [('':sid'', sessionID), ('':idle'', StateIdle), ('':busy'', StateBusy)]\<rparr> w of
        (None, w1) \<Rightarrow> (None, w1)
      | (Some err, w1) \<Rightarrow>
          if isConditionalCheckFailed err then (Some (Sentinel ErrConditionFailed), w1)
          else (Some (Wrap ''update item: '' err), w1))"

text \<open>The loop over the candidates; \<open>tried\<close> is the caller's map, which the loop extends.\<close>

fun assignFirst ::
  "'w DynamoRepository \<Rightarrow> string \<Rightarrow> Runner list \<Rightarrow> string set \<Rightarrow> 'w \<Rightarrow>
   (go_error + Runner option) \<times> string set \<times> 'w" where
  "assignFirst r sessionID [] tried w = (Inr None, tried, w)"
| "assignFirst r sessionID (runner # candidates) tried w =
     (if RunnerID runner \<in> tried then assignFirst r sessionID candidates tried w
      else case assignSession r (RunnerID runner) sessionID w of
        (None, w1) \<Rightarrow>
          (Inr (Some (runner\<lparr>State := StateBusy, CurrentSessionID := sessionID\<rparr>)), tried, w1)
      | (Some err, w1) \<Rightarrow>
          if \<not> errors_Is err ErrConditionFailed then (Inl err, tried, w1)
          else assignFirst r sessionID candidates (insert (RunnerID runner) tried) w1)"

text \<open>\<open>attributevalue.UnmarshalListOfMaps\<close>: every item, stopping at the first error.\<close>

fun UnmarshalListOfMaps :: "(item \<Rightarrow> go_error + Runner) \<Rightarrow> item list \<Rightarrow> go_error + Runner list" where
  "UnmarshalListOfMaps f [] = Inr []"
| "UnmarshalListOfMaps f (it # its) =
     (case f it of Inl e \<Rightarrow> Inl e
      | Inr r \<Rightarrow> (case UnmarshalListOfMaps f its of Inl e \<Rightarrow> Inl e | Inr rs \<Rightarrow> Inr (r # rs)))"

definition queryIdlePage ::
  "'w DynamoRepository \<Rightarrow> string \<Rightarrow> string \<Rightarrow> item \<Rightarrow> 'w \<Rightarrow>
   (go_error + Runner list \<times> item) \<times> 'w" where
  "queryIdlePage r cond val exclusiveStart w =
     (case Query (client r)
             \<lparr>qry_TableName = tableName r, qry_IndexName = ''state-index'',
              qry_KeyCondition = ''#s = :s AND '' @ cond,
              qry_Names = [(''#s'', ''state'')],
              qry_Values = [('':s'', StateIdle), ('':v'', val)],
              qry_Limit = Some acquireQueryLimit,
              qry_ExclusiveStartKey = exclusiveStart\<rparr> w of
        (Inl err, w1) \<Rightarrow> (Inl (Wrap ''query state-index: '' err), w1)
      | (Inr out, w1) \<Rightarrow>
          (case UnmarshalListOfMaps (unmarshalFn r) (Items out) of
             Inl err \<Rightarrow> (Inl (Wrap ''unmarshal runners: '' err), w1)
           | Inr runners \<Rightarrow> (Inr (runners, LastEvaluatedKey out), w1)))"

text \<open>The inner loop of \<open>AcquireIdle\<close>: the pages of one segment.\<close>

partial_function (option) acquire_pages ::
  "'w DynamoRepository \<Rightarrow> string \<Rightarrow> string \<Rightarrow> string \<Rightarrow> string set \<Rightarrow> item \<Rightarrow> 'w \<Rightarrow>
   ((go_error + Runner option) \<times> string set \<times> 'w) option" where
  [code]: "acquire_pages r sessionID cond start tried exclusiveStart w =
     (case queryIdlePage r cond start exclusiveStart w of
        (Inl err, w1) \<Rightarrow> Some (Inl err, tried, w1)
      | (Inr (runners, nxt), w1) \<Rightarrow>
          (case assignFirst r sessionID runners tried w1 of
             (Inl err, tried1, w2) \<Rightarrow> Some (Inl err, tried1, w2)
           | (Inr (Some runner), tried1, w2) \<Rightarrow> Some (Inr (Some runner), tried1, w2)
           | (Inr None, tried1, w2) \<Rightarrow>
               if nxt = [] then Some (Inr None, tried1, w2)
               else acquire_pages r sessionID cond start tried1 nxt w2))"

text \<open>The outer loop: one segment after the other, then \<open>ErrNoIdleRunner\<close>.\<close>

fun acquire_segments ::
  "'w DynamoRepository \<Rightarrow> string \<Rightarrow> string \<Rightarrow> string list \<Rightarrow> string set \<Rightarrow> 'w \<Rightarrow>
   ((go_error + Runner) \<times> 'w) option" where
  "acquire_segments r sessionID start [] tried w = Some (Inl (Sentinel ErrNoIdleRunner), w)"
| "acquire_segments r sessionID start (cond # conds) tried w =
     (case acquire_pages r sessionID cond start tried [] w of
        None \<Rightarrow> None
      | Some (Inl err, tried1, w1) \<Rightarrow> Some (Inl err, w1)
      | Some (Inr (Some runner), tried1, w1) \<Rightarrow> Some (Inr runner, w1)
      | Some (Inr None, tried1, w1) \<Rightarrow> acquire_segments r sessionID start conds tried1 w1)"

definition dynamo_AcquireIdle ::
  "'w DynamoRepository \<Rightarrow> string \<Rightarrow> 'w \<Rightarrow> ((go_error + Runner) \<times> 'w) option" where
  "dynamo_AcquireIdle r sessionID w =
     (let (start, w1) = randHexFn r w
      in acquire_segments r sessionID start [segFirstCond, segSecondCond] {} w1)"

text \<open>The loop of \<open>ListBusyRunners\<close> over the pages of the busy partition.\<close>

partial_function (option) list_busy_pages ::
  "'w DynamoRepository \<Rightarrow> Runner list \<Rightarrow> item \<Rightarrow> 'w \<Rightarrow> ((go_error + Runner list) \<times> 'w) option" where
  [code]: "list_busy_pages r all exclusiveStart w =
     (case Query (client r)
             \<lparr>qry_TableName = tableName r, qry_IndexName = ''state-index'',
              qry_KeyCondition = ''#s = :s'',
              qry_Names = [(''#s'', ''state'')],
              qry_Values = [('':s'', StateBusy)],
              qry_Limit = None,
              qry_ExclusiveStartKey = exclusiveStart\<rparr> w of
        (Inl err, w1) \<Rightarrow> Some (Inl (Wrap ''query state-index: '' err), w1)
      | (Inr out, w1) \<Rightarrow>
          (case UnmarshalListOfMaps (unmarshalFn r) (Items out) of
             Inl err \<Rightarrow> Some (Inl (Wrap ''unmarshal runners: '' err), w1)
           | Inr page \<Rightarrow>
               if LastEvaluatedKey out = [] then Some (Inr (all @ page), w1)
               else list_busy_pages r (all @ page) (LastEvaluatedKey out) w1))"

definition dynamo_ListBusyRunners ::
  "'w DynamoRepository \<Rightarrow> 'w \<Rightarrow> ((go_error + Runner list) \<times> 'w) option" where
  "dynamo_ListBusyRunners r w = list_busy_pages r [] [] w"

definition dynamo_FindBySessionID ::
  "'w DynamoRepository \<Rightarrow> string \<Rightarrow> 'w \<Rightarrow> (go_error + Runner) \<times> 'w" where
  "dynamo_FindBySessionID r sessionID w =
     (case Query (client r)
             \<lparr>qry_TableName = tableName r, qry_IndexName = ''session-index'',
              qry_KeyCondition = ''currentSessionId = :sid'',
              qry_Names = [],
              qry_Values = [('':sid'', sessionID)],
              qry_Limit = Some 1,
              qry_ExclusiveStartKey = []\<rparr> w of
        (Inl err, w1) \<Rightarrow> (Inl (Wrap ''query session-index: '' err), w1)
      | (Inr out, w1) \<Rightarrow>
          (case Items out of
             [] \<Rightarrow> (Inl (Sentinel ErrNotFound), w1)
           | item # _ \<Rightarrow>
               (case unmarshalFn r item of
                  Inl err \<Rightarrow> (Inl (Wrap ''unmarshal runner: '' err), w1)
                | Inr runner \<Rightarrow> (Inr runner, w1))))"

definition dynamo_FindByID ::
  "'w DynamoRepository \<Rightarrow> string \<Rightarrow> 'w \<Rightarrow> (go_error + Runner) \<times> 'w" where
  "dynamo_FindByID r runnerID w =
     (case GetItem (client r)
             \<lparr>get_TableName = tableName r, get_Key = [(''runnerId'', runnerID)],
              get_ConsistentRead = True\<rparr> w of
        (Inl err, w1) \<Rightarrow> (Inl (Wrap ''get item: '' err), w1)
      | (Inr None, w1) \<Rightarrow> (Inl (Sentinel ErrNotFound), w1)
      | (Inr (Some item), w1) \<Rightarrow>
          (case unmarshalFn r item of
             Inl err \<Rightarrow> (Inl (Wrap ''unmarshal runner: '' err), w1)
           | Inr runner \<Rightarrow> (Inr runner, w1)))"

definition dynamo_Delete ::
  "'w DynamoRepository \<Rightarrow> string \<Rightarrow> 'w \<Rightarrow> go_error option \<times> 'w" where
  "dynamo_Delete r runnerID w =
     (case DeleteItem (client r)
             \<lparr>del_TableName = tableName r, del_Key = [(''runnerId'', runnerID)]\<rparr> w of
        (Some err, w1) \<Rightarrow> (Some (Wrap ''delete item: '' err), w1)
      | (None, w1) \<Rightarrow> (None, w1))"

definition dynamo_Repository :: "'w DynamoRepository \<Rightarrow> 'w Repository" where
  "dynamo_Repository r =
     \<lparr>Register = dynamo_Register r, AcquireIdle = dynamo_AcquireIdle r,
      ListBusyRunners = dynamo_ListBusyRunners r, FindBySessionID = dynamo_FindBySessionID r,
      FindByID = dynamo_FindByID r, Delete = dynamo_Delete r\<rparr>"

section \<open>Items and runners\<close>

text \<open>
  The struct tags of \<open>broker/model/runner.go\<close>: the attribute names, and \<open>omitempty\<close> on all but
  the key. Reading an item leaves the zero value in a field whose attribute is missing.
\<close>

definition omitempty :: "string \<Rightarrow> string \<Rightarrow> item" where
  "omitempty name v = (if v = [] then [] else [(name, v)])"

definition runner_item :: "Runner \<Rightarrow> item" where
  "runner_item r =
     (''runnerId'', RunnerID r) # omitempty ''state'' (State r) @
     omitempty ''currentSessionId'' (CurrentSessionID r) @ omitempty ''privateHost'' (PrivateHost r)"

definition attr :: "item \<Rightarrow> string \<Rightarrow> string" where
  "attr it name = (case map_of it name of None \<Rightarrow> [] | Some v \<Rightarrow> v)"

definition item_runner :: "item \<Rightarrow> Runner" where
  "item_runner it =
     \<lparr>RunnerID = attr it ''runnerId'', State = attr it ''state'',
      CurrentSessionID = attr it ''currentSessionId'', PrivateHost = attr it ''privateHost''\<rparr>"

lemma item_runner_sel [simp]:
  "RunnerID (item_runner it) = attr it ''runnerId''"
  "State (item_runner it) = attr it ''state''"
  "CurrentSessionID (item_runner it) = attr it ''currentSessionId''"
  "PrivateHost (item_runner it) = attr it ''privateHost''"
  by (simp_all add: item_runner_def)

lemma item_runner_item [simp]: "item_runner (runner_item r) = r"
  by (cases r) (simp add: item_runner_def runner_item_def omitempty_def attr_def)

definition runners_of :: "(string \<rightharpoonup> item) \<Rightarrow> runners" where
  "runners_of t = (\<lambda>rid. map_option item_runner (t rid))"

lemma runners_of_apply [simp]: "runners_of t rid = map_option item_runner (t rid)"
  by (simp add: runners_of_def)

lemma runners_of_upd [simp]: "runners_of (t(rid \<mapsto> it)) = (runners_of t)(rid \<mapsto> item_runner it)"
  by (auto simp: runners_of_def)

lemma runners_of_del [simp]: "runners_of (t(rid := None)) = (runners_of t)(rid := None)"
  by (auto simp: runners_of_def)

section \<open>What the service does with the requests\<close>

text \<open>
  The documented meaning of the expressions that occur in the requests above, for these texts
  only: a placeholder \<open>#s\<close> stands for a name, \<open>:v\<close> for a value; strings compare by their
  bytes.
\<close>

definition name_of :: "(string \<times> string) list \<Rightarrow> string \<Rightarrow> string" where
  "name_of names n = (case map_of names n of None \<Rightarrow> n | Some a \<Rightarrow> a)"

definition put_applies :: "put_input \<Rightarrow> (string \<rightharpoonup> item) \<Rightarrow> (string \<rightharpoonup> item) \<Rightarrow> bool" where
  "put_applies i t t' \<longleftrightarrow>
     (let rid = attr (put_Item i) ''runnerId'' in t rid = None \<and> t' = t(rid \<mapsto> put_Item i))"

definition update_condition :: "update_input \<Rightarrow> item option \<Rightarrow> bool" where
  "update_condition i x \<longleftrightarrow>
     (case x of None \<Rightarrow> False
      | Some it \<Rightarrow> map_of it (name_of (upd_Names i) ''#s'') = Some (attr (upd_Values i) '':idle''))"

definition update_applies :: "update_input \<Rightarrow> (string \<rightharpoonup> item) \<Rightarrow> (string \<rightharpoonup> item) \<Rightarrow> bool" where
  "update_applies i t t' \<longleftrightarrow>
     (let rid = attr (upd_Key i) ''runnerId'' in
      update_condition i (t rid) \<and>
      (\<exists>it it'. t rid = Some it \<and>
         map_of it' = (map_of it)
           (name_of (upd_Names i) ''#s'' \<mapsto> attr (upd_Values i) '':busy'',
            ''currentSessionId'' \<mapsto> attr (upd_Values i) '':sid'') \<and>
         t' = t(rid \<mapsto> it')))"

definition delete_applies :: "delete_input \<Rightarrow> (string \<rightharpoonup> item) \<Rightarrow> (string \<rightharpoonup> item) \<Rightarrow> bool" where
  "delete_applies i t t' \<longleftrightarrow> t' = t(attr (del_Key i) ''runnerId'' := None)"

locale dynamo_service =
  fixes r :: "'w DynamoRepository"
    and table :: "'w \<Rightarrow> (string \<rightharpoonup> item)"
    and env :: "runners \<Rightarrow> runners \<Rightarrow> bool"
  assumes env_refl: "env t t"
    and env_trans: "env t u \<Longrightarrow> env u v \<Longrightarrow> env t v"
    and marshal: "marshalFn r x = Inr (runner_item x)"
    and unmarshal: "unmarshalFn r it = Inr (item_runner it)"
    and rand_env: "randHexFn r w = (s, w') \<Longrightarrow> env (runners_of (table w)) (runners_of (table w'))"
    and put_law: "PutItem (client r) i w = (res, w') \<Longrightarrow> put_TableName i = tableName r \<Longrightarrow>
      put_ConditionExpression i = ''attribute_not_exists(runnerId)'' \<Longrightarrow>
      \<exists>t. env (runners_of (table w)) (runners_of t) \<and>
        (case res of
           None \<Rightarrow> put_applies i t (table w')
         | Some e \<Rightarrow> foreign e \<and>
             (if isConditionalCheckFailed e
              then t (attr (put_Item i) ''runnerId'') \<noteq> None \<and> table w' = t
              else table w' = t \<or> put_applies i t (table w')))"
    and update_law: "UpdateItem (client r) j w = (res, w') \<Longrightarrow> upd_TableName j = tableName r \<Longrightarrow>
      upd_UpdateExpression j = ''SET #s = :busy, currentSessionId = :sid'' \<Longrightarrow>
      upd_ConditionExpression j = ''#s = :idle'' \<Longrightarrow> upd_Names j = [(''#s'', ''state'')] \<Longrightarrow>
      \<exists>t. env (runners_of (table w)) (runners_of t) \<and>
        (case res of
           None \<Rightarrow> update_applies j t (table w')
         | Some e \<Rightarrow> foreign e \<and>
             (if isConditionalCheckFailed e
              then \<not> update_condition j (t (attr (upd_Key j) ''runnerId'')) \<and> table w' = t
              else table w' = t \<or> update_applies j t (table w')))"
    and delete_law: "DeleteItem (client r) k w = (res, w') \<Longrightarrow> del_TableName k = tableName r \<Longrightarrow>
      \<exists>t. env (runners_of (table w)) (runners_of t) \<and>
        (case res of
           None \<Rightarrow> delete_applies k t (table w')
         | Some e \<Rightarrow> foreign e \<and> (table w' = t \<or> delete_applies k t (table w')))"
    and get_law: "GetItem (client r) g w = (ans, w') \<Longrightarrow> get_TableName g = tableName r \<Longrightarrow>
      get_ConsistentRead g \<Longrightarrow>
      env (runners_of (table w)) (runners_of (table w')) \<and>
      (case ans of Inl e \<Rightarrow> foreign e
       | Inr x \<Rightarrow> x = table w' (attr (get_Key g) ''runnerId''))"
    and query_law: "Query (client r) q w = (page, w') \<Longrightarrow>
      env (runners_of (table w)) (runners_of (table w')) \<and>
      (case page of Inl e \<Rightarrow> foreign e | Inr out \<Rightarrow> True)"
begin

abbreviation abs :: "'w \<Rightarrow> runners" where
  "abs w \<equiv> runners_of (table w)"

lemma put_applies_step:
  assumes "put_applies i t t'" and "put_Item i = runner_item (new_runner rid host)"
    and "runnerIDRe rid" and "host \<noteq> []"
  shows "store_step (runners_of t) (Registered rid host) (runners_of t')"
proof -
  have "attr (put_Item i) ''runnerId'' = rid"
    by (simp add: assms(2) runner_item_def attr_def new_runner_def)
  with assms show ?thesis by (auto simp: put_applies_def Let_def)
qed

lemma unmarshal_list: "UnmarshalListOfMaps (unmarshalFn r) its = Inr (map item_runner its)"
  by (induction its) (simp_all add: unmarshal)

text \<open>One lemma per kind of request: what it does to the abstract store.\<close>

lemma put_call:
  assumes put: "PutItem (client r)
      \<lparr>put_TableName = tableName r, put_Item = runner_item (new_runner rid host),
       put_ConditionExpression = ''attribute_not_exists(runnerId)''\<rparr> w = (res, w')"
    and form: "runnerIDRe rid" "host \<noteq> []"
  shows "\<exists>t. env (abs w) t \<and>
    (case res of
       None \<Rightarrow> store_step t (Registered rid host) (abs w')
     | Some e \<Rightarrow> foreign e \<and>
         (if isConditionalCheckFailed e then t rid \<noteq> None \<and> abs w' = t
          else abs w' = t \<or> store_step t (Registered rid host) (abs w')))"
proof -
  let ?i = "\<lparr>put_TableName = tableName r, put_Item = runner_item (new_runner rid host),
             put_ConditionExpression = ''attribute_not_exists(runnerId)''\<rparr>"
  have key: "attr (put_Item ?i) ''runnerId'' = rid"
    by (simp add: runner_item_def attr_def new_runner_def)
  have step: "store_step (runners_of t) (Registered rid host) (runners_of t')"
    if "put_applies ?i t t'" for t t'
    by (rule put_applies_step [OF that _ form]) simp
  show ?thesis
  proof (cases res)
    case None
    with put_law [OF put] obtain t where "env (abs w) (runners_of t)" "put_applies ?i t (table w')"
      by auto
    then show ?thesis using None step by (intro exI [of _ "runners_of t"]) (simp del: store_step_Registered)
  next
    case (Some e)
    with put_law [OF put] obtain t where "env (abs w) (runners_of t)" "foreign e"
      "if isConditionalCheckFailed e then t rid \<noteq> None \<and> table w' = t
       else table w' = t \<or> put_applies ?i t (table w')" unfolding key by auto
    then show ?thesis using Some step [of t "table w'"]
      by (intro exI [of _ "runners_of t"]) (auto simp del: store_step_Registered split: if_splits)
  qed
qed

lemma update_call:
  assumes upd: "UpdateItem (client r)
      \<lparr>upd_TableName = tableName r, upd_Key = [(''runnerId'', rid)],
       upd_UpdateExpression = ''SET #s = :busy, currentSessionId = :sid'',
       upd_ConditionExpression = ''#s = :idle'', upd_Names = [(''#s'', ''state'')],
       upd_Values = [('':sid'', sid), ('':idle'', StateIdle), ('':busy'', StateBusy)]\<rparr> w = (res, w')"
  shows "\<exists>t. env (abs w) t \<and>
    (case res of
       None \<Rightarrow> store_step t (Assigned rid sid) (abs w')
     | Some e \<Rightarrow> foreign e \<and>
         (if isConditionalCheckFailed e then abs w' = t \<and> \<not> (\<exists>x. t rid = Some x \<and> IsIdle x)
          else abs w' = t \<or> store_step t (Assigned rid sid) (abs w')))"
proof -
  let ?j = "\<lparr>upd_TableName = tableName r, upd_Key = [(''runnerId'', rid)],
       upd_UpdateExpression = ''SET #s = :busy, currentSessionId = :sid'',
       upd_ConditionExpression = ''#s = :idle'', upd_Names = [(''#s'', ''state'')],
       upd_Values = [('':sid'', sid), ('':idle'', StateIdle), ('':busy'', StateBusy)]\<rparr>"
  have key: "attr (upd_Key ?j) ''runnerId'' = rid" by (simp add: attr_def)
  have cond: "update_condition ?j x \<longleftrightarrow> (\<exists>it. x = Some it \<and> IsIdle (item_runner it))" for x
    by (auto simp: update_condition_def name_of_def attr_def IsIdle_def StateIdle_def
        split: option.splits)
  have step: "store_step (runners_of t) (Assigned rid sid) (runners_of t')"
    if "update_applies ?j t t'" for t t'
    using that unfolding update_applies_def Let_def key cond
    by (auto simp: name_of_def assigned_def item_runner_def attr_def)
  show ?thesis
  proof (cases res)
    case None
    with update_law [OF upd] obtain t where "env (abs w) (runners_of t)" "update_applies ?j t (table w')"
      by auto
    then show ?thesis using None step by (intro exI [of _ "runners_of t"]) (simp del: store_step_Assigned)
  next
    case (Some e)
    with update_law [OF upd] obtain t where "env (abs w) (runners_of t)" "foreign e"
      "if isConditionalCheckFailed e then \<not> update_condition ?j (t rid) \<and> table w' = t
       else table w' = t \<or> update_applies ?j t (table w')" unfolding key by auto
    then show ?thesis using Some step [of t "table w'"] unfolding cond
      by (intro exI [of _ "runners_of t"]) (auto simp del: store_step_Assigned split: if_splits)
  qed
qed

lemma delete_call:
  assumes del: "DeleteItem (client r)
      \<lparr>del_TableName = tableName r, del_Key = [(''runnerId'', rid)]\<rparr> w = (res, w')"
  shows "\<exists>t. env (abs w) t \<and>
    (case res of
       None \<Rightarrow> store_step t (Deleted rid) (abs w')
     | Some e \<Rightarrow> foreign e \<and> (abs w' = t \<or> store_step t (Deleted rid) (abs w')))"
proof -
  have key: "attr (del_Key \<lparr>del_TableName = tableName r, del_Key = [(''runnerId'', rid)]\<rparr>) ''runnerId'' = rid"
    by (simp add: attr_def)
  obtain t where "env (abs w) (runners_of t)" and "case res of
      None \<Rightarrow> table w' = t(rid := None)
    | Some e \<Rightarrow> foreign e \<and> (table w' = t \<or> table w' = t(rid := None))"
    using delete_law [OF del] unfolding delete_applies_def key by auto
  then show ?thesis by (intro exI [of _ "runners_of t"]) (auto split: option.splits)
qed

text \<open>The operations of the repository, one after the other.\<close>

lemma register_result:
  assumes reg: "dynamo_Register r rid host w = (res, w')"
  shows "\<exists>t. env (abs w) t \<and>
    (case res of
       None \<Rightarrow> store_step t (Registered rid host) (abs w')
     | Some e \<Rightarrow> (abs w' = t \<or> store_step t (Registered rid host) (abs w')) \<and>
         (errors_Is e ErrConflict \<longrightarrow> abs w' = t \<and> t rid \<noteq> None))"
proof (cases "runnerIDRe rid \<and> host \<noteq> []")
  case False
  then have "res \<in> {Some (Sentinel ErrInvalidRunnerID), Some (Sentinel ErrInvalidPrivateHost)} \<and> w' = w"
    using reg by (auto simp: dynamo_Register_def split: if_splits)
  then show ?thesis by (auto intro!: exI [of _ "abs w"] env_refl)
next
  case True
  let ?put = "PutItem (client r)
      \<lparr>put_TableName = tableName r, put_Item = runner_item (new_runner rid host),
       put_ConditionExpression = ''attribute_not_exists(runnerId)''\<rparr> w"
  obtain res0 w0 where put: "?put = (res0, w0)" by (cases ?put)
  have "w0 = w' \<and> res = (case res0 of None \<Rightarrow> None
    | Some e \<Rightarrow> Some (if isConditionalCheckFailed e then Sentinel ErrConflict
                      else Wrap ''put item: '' e))"
    using reg True put
    by (auto simp: dynamo_Register_def marshal simp flip: new_runner_def split: option.splits if_splits)
  with put_call [OF put] True show ?thesis
    by (cases res0) (auto split: if_splits)
qed

lemma assign_result:
  assumes asg: "assignSession r rid sid w = (res, w')"
  shows "\<exists>t. env (abs w) t \<and>
    (case res of
       None \<Rightarrow> store_step t (Assigned rid sid) (abs w')
     | Some e \<Rightarrow> \<not> errors_Is e ErrNoIdleRunner \<and>
        (if errors_Is e ErrConditionFailed then abs w' = t \<and> \<not> (\<exists>x. t rid = Some x \<and> IsIdle x)
         else abs w' = t \<or> store_step t (Assigned rid sid) (abs w')))"
proof -
  let ?upd = "UpdateItem (client r)
      \<lparr>upd_TableName = tableName r, upd_Key = [(''runnerId'', rid)],
       upd_UpdateExpression = ''SET #s = :busy, currentSessionId = :sid'',
       upd_ConditionExpression = ''#s = :idle'', upd_Names = [(''#s'', ''state'')],
       upd_Values = [('':sid'', sid), ('':idle'', StateIdle), ('':busy'', StateBusy)]\<rparr> w"
  obtain res0 w0 where upd: "?upd = (res0, w0)" by (cases ?upd)
  have "w0 = w' \<and> res = (case res0 of None \<Rightarrow> None
    | Some e \<Rightarrow> Some (if isConditionalCheckFailed e then Sentinel ErrConditionFailed
                      else Wrap ''update item: '' e))"
    using asg upd by (auto simp: assignSession_def split: option.splits if_splits)
  with update_call [OF upd] show ?thesis
    by (cases res0) (auto split: if_splits)
qed

lemma delete_result:
  assumes del: "dynamo_Delete r rid w = (res, w')"
  shows "\<exists>t. env (abs w) t \<and>
    (case res of
       None \<Rightarrow> store_step t (Deleted rid) (abs w')
     | Some e \<Rightarrow> foreign e \<and> (abs w' = t \<or> store_step t (Deleted rid) (abs w')))"
proof -
  let ?del = "DeleteItem (client r) \<lparr>del_TableName = tableName r, del_Key = [(''runnerId'', rid)]\<rparr> w"
  obtain res0 w0 where call: "?del = (res0, w0)" by (cases ?del)
  have "w0 = w' \<and> res = map_option (Wrap ''delete item: '') res0"
    using del call by (auto simp: dynamo_Delete_def split: option.splits)
  with delete_call [OF call] show ?thesis by (cases res0) auto
qed

end

section \<open>Acquiring a runner while others write\<close>

text \<open>
  What a candidate loop or a page loop can have done to the store by the time it returns:
  nothing of its own, or one assignment, which is that of the runner it returns.
\<close>

context dynamo_service
begin

abbreviation acq :: "string \<Rightarrow> 'w \<Rightarrow> go_error + Runner option \<Rightarrow> 'w \<Rightarrow> bool" where
  "acq sid w res w' \<equiv> acquired env sid (abs w) res (abs w')"

lemma acquired_after:
  assumes "env (abs w) (abs w1)" and "acq sid w1 res w2"
  shows "acq sid w res w2"
  using env_trans assms by (rule acquired_trans)

lemma assignFirst_acquired:
  "assignFirst r sid cands tried w = (res, tried', w') \<Longrightarrow> acq sid w res w'"
proof (induction cands arbitrary: tried w)
  case Nil
  then have "res = Inr None \<and> w' = w" by auto
  then show ?case by (simp add: acquired_def env_refl)
next
  case (Cons x cands)
  show ?case
  proof (cases "RunnerID x \<in> tried")
    case True
    with Cons show ?thesis by simp
  next
    case False
    obtain res1 w1 where asg: "assignSession r (RunnerID x) sid w = (res1, w1)"
      by (cases "assignSession r (RunnerID x) sid w")
    from assign_result [OF asg] obtain t where t: "env (abs w) t" and law: "case res1 of
        None \<Rightarrow> store_step t (Assigned (RunnerID x) sid) (abs w1)
      | Some e \<Rightarrow> \<not> errors_Is e ErrNoIdleRunner \<and>
         (if errors_Is e ErrConditionFailed
          then abs w1 = t \<and> \<not> (\<exists>y. t (RunnerID x) = Some y \<and> IsIdle y)
          else abs w1 = t \<or> store_step t (Assigned (RunnerID x) sid) (abs w1))" by blast
    show ?thesis
    proof (cases res1)
      case None
      with law t False asg Cons.prems show ?thesis
        by (auto simp: acquired_def simp del: store_step_Assigned runners_of_apply)
    next
      case (Some e)
      show ?thesis
      proof (cases "errors_Is e ErrConditionFailed")
        case True
        with law t Some have "env (abs w) (abs w1)" by simp
        moreover have "assignFirst r sid cands (insert (RunnerID x) tried) w1 = (res, tried', w')"
          using True False Some asg Cons.prems by simp
        then have "acq sid w1 res w'" by (rule Cons.IH)
        ultimately show ?thesis by (rule acquired_after)
      next
        case cf: False
        with law t Some False asg Cons.prems show ?thesis
          by (auto simp: acquired_def simp del: store_step_Assigned runners_of_apply)
      qed
    qed
  qed
qed

lemma queryIdlePage_env:
  assumes "queryIdlePage r cond start excl w = (page, w')"
  shows "env (abs w) (abs w') \<and> (case page of Inl e \<Rightarrow> foreign e | Inr x \<Rightarrow> True)"
proof -
  let ?q = "\<lparr>qry_TableName = tableName r, qry_IndexName = ''state-index'',
             qry_KeyCondition = ''#s = :s AND '' @ cond, qry_Names = [(''#s'', ''state'')],
             qry_Values = [('':s'', StateIdle), ('':v'', start)],
             qry_Limit = Some acquireQueryLimit, qry_ExclusiveStartKey = excl\<rparr>"
  obtain ans w0 where call: "Query (client r) ?q w = (ans, w0)" by (cases "Query (client r) ?q w")
  show ?thesis
    using assms call query_law [OF call]
    by (cases ans) (auto simp: queryIdlePage_def unmarshal_list)
qed

lemma acquire_pages_acquired:
  assumes ret: "acquire_pages r sid cond start tried excl w = Some (res, tried', w')"
  shows "acq sid w res w'"
proof -
  have "r' = r \<longrightarrow> acq sid w (fst out) (snd (snd out))"
    if "acquire_pages r' sid cond start tried excl w = Some out" for r' out
  proof (rule acquire_pages.raw_induct
      [where P = "\<lambda>r' sid cond start tried excl w out. r' = r \<longrightarrow>
         acq sid w (fst out) (snd (snd out))", OF _ that])
    fix f :: "'w DynamoRepository \<Rightarrow> string \<Rightarrow> string \<Rightarrow> string \<Rightarrow> string set \<Rightarrow> item \<Rightarrow> 'w \<Rightarrow>
        ((go_error + Runner option) \<times> string set \<times> 'w) option"
      and r' sid cond start tried excl w out
    assume IH: "\<And>r' sid cond start tried excl w out.
        f r' sid cond start tried excl w = Some out \<Longrightarrow> r' = r \<longrightarrow>
        acq sid w (fst out) (snd (snd out))"
      and eq: "(case queryIdlePage r' cond start excl w of
        (Inl err, w1) \<Rightarrow> Some (Inl err, tried, w1)
      | (Inr (runners, nxt), w1) \<Rightarrow>
          (case assignFirst r' sid runners tried w1 of
             (Inl err, tried1, w2) \<Rightarrow> Some (Inl err, tried1, w2)
           | (Inr (Some runner), tried1, w2) \<Rightarrow> Some (Inr (Some runner), tried1, w2)
           | (Inr None, tried1, w2) \<Rightarrow>
               if nxt = [] then Some (Inr None, tried1, w2)
               else f r' sid cond start tried1 nxt w2)) = Some out"
    show "r' = r \<longrightarrow> acq sid w (fst out) (snd (snd out))"
    proof
      assume r: "r' = r"
      obtain page w1 where pg: "queryIdlePage r cond start excl w = (page, w1)"
        by (cases "queryIdlePage r cond start excl w")
      note env1 = queryIdlePage_env [OF pg]
      show "acq sid w (fst out) (snd (snd out))"
      proof (cases page)
        case (Inl e)
        with eq pg r env1 show ?thesis by (auto simp: acquired_def)
      next
        case (Inr x)
        obtain runners nxt where x: "x = (runners, nxt)" by (cases x)
        obtain res1 tried1 w2 where af: "assignFirst r sid runners tried w1 = (res1, tried1, w2)"
          by (cases "assignFirst r sid runners tried w1")
        have acq: "acq sid w res1 w2"
          using env1 assignFirst_acquired [OF af] by (blast intro: acquired_after)
        show ?thesis
        proof (cases "res1 = Inr None \<and> nxt \<noteq> []")
          case True
          then have "f r' sid cond start tried1 nxt w2 = Some out"
            using eq pg r Inr x af by simp
          from IH [OF this] r have "acq sid w2 (fst out) (snd (snd out))" by simp
          moreover have "env (abs w) (abs w2)" using acq True by (simp add: acquired_def)
          ultimately show ?thesis by (blast intro: acquired_after)
        next
          case False
          then have "out = (res1, tried1, w2)"
            using eq unfolding r pg Inr x prod.case sum.case af
            by (auto split: sum.splits option.splits if_splits)
          with acq show ?thesis by simp
        qed
      qed
    qed
  qed
  from this [OF ret] show ?thesis by simp
qed

lemma acquire_segments_acquired:
  "acquire_segments r sid start conds tried w = Some (res, w') \<Longrightarrow>
   acq sid w (map_sum (\<lambda>e. e) Some res) w' \<or>
   (res = Inl (Sentinel ErrNoIdleRunner) \<and> env (abs w) (abs w'))"
proof (induction conds arbitrary: tried w)
  case Nil
  then show ?case by (auto simp: env_refl)
next
  case (Cons cond conds)
  then obtain res1 tried1 w1
    where pages: "acquire_pages r sid cond start tried [] w = Some (res1, tried1, w1)"
    by (auto split: option.splits)
  note acq = acquire_pages_acquired [OF pages]
  show ?case
  proof (cases "res1 = Inr None")
    case True
    then have "acquire_segments r sid start conds tried1 w1 = Some (res, w')"
      using Cons.prems pages by simp
    note ih = Cons.IH [OF this]
    have "env (abs w) (abs w1)" using acq True by (simp add: acquired_def)
    with ih show ?thesis by (blast intro: acquired_after env_trans)
  next
    case False
    then have "map_sum (\<lambda>e. e) Some res = res1 \<and> w' = w1"
      using Cons.prems pages by (auto split: sum.splits option.splits)
    with acq show ?thesis by (simp del: runners_of_apply)
  qed
qed

lemma acquire_result:
  assumes "dynamo_AcquireIdle r sid w = Some (res, w')"
  shows "acq sid w (map_sum (\<lambda>e. e) Some res) w' \<or>
    (res = Inl (Sentinel ErrNoIdleRunner) \<and> env (abs w) (abs w'))"
proof -
  obtain start w1 where rnd: "randHexFn r w = (start, w1)" by (cases "randHexFn r w")
  then have "acquire_segments r sid start [segFirstCond, segSecondCond] {} w1 = Some (res, w')"
    using assms by (simp add: dynamo_AcquireIdle_def)
  from acquire_segments_acquired [OF this] rand_env [OF rnd] show ?thesis
    by (blast intro: acquired_after env_trans)
qed

lemma find_session_result:
  assumes "dynamo_FindBySessionID r sid w = (res, w')"
  shows "env (abs w) (abs w') \<and> (case res of Inl e \<Rightarrow> \<not> errors_Is e ErrNoIdleRunner | Inr x \<Rightarrow> True)"
proof -
  let ?q = "\<lparr>qry_TableName = tableName r, qry_IndexName = ''session-index'',
             qry_KeyCondition = ''currentSessionId = :sid'', qry_Names = [],
             qry_Values = [('':sid'', sid)], qry_Limit = Some 1, qry_ExclusiveStartKey = []\<rparr>"
  obtain ans w0 where call: "Query (client r) ?q w = (ans, w0)" by (cases "Query (client r) ?q w")
  then show ?thesis
    using assms query_law [OF call]
    by (cases ans) (auto simp: dynamo_FindBySessionID_def unmarshal split: list.splits)
qed

lemma find_id_result:
  assumes "dynamo_FindByID r rid w = (res, w')"
  shows "env (abs w) (abs w') \<and>
    (case res of
       Inr x \<Rightarrow> abs w' rid = Some x
     | Inl e \<Rightarrow> errors_Is e ErrNotFound \<longrightarrow> abs w' rid = None)"
proof -
  let ?g = "\<lparr>get_TableName = tableName r, get_Key = [(''runnerId'', rid)], get_ConsistentRead = True\<rparr>"
  obtain ans w0 where call: "GetItem (client r) ?g w = (ans, w0)" by (cases "GetItem (client r) ?g w")
  have key: "attr (get_Key ?g) ''runnerId'' = rid" by (simp add: attr_def)
  have law: "env (abs w) (abs w0)" "case ans of Inl e \<Rightarrow> foreign e | Inr x \<Rightarrow> x = table w0 rid"
    using get_law [OF call] unfolding key by auto
  show ?thesis
  proof (cases ans)
    case (Inl e)
    then show ?thesis using assms call law by (auto simp: dynamo_FindByID_def)
  next
    case (Inr x)
    then have "w' = w0 \<and> res = (case x of None \<Rightarrow> Inl (Sentinel ErrNotFound)
        | Some it \<Rightarrow> Inr (item_runner it))"
      using assms call by (cases x) (auto simp: dynamo_FindByID_def unmarshal)
    then show ?thesis using law Inr by (cases x) (auto dest: sym)
  qed
qed

lemma list_busy_env:
  assumes ret: "list_busy_pages r acc excl w = Some (res, w')"
  shows "env (abs w) (abs w')"
proof -
  have "r' = r \<longrightarrow> env (abs w) (abs (snd out))"
    if "list_busy_pages r' acc excl w = Some out" for r' out
  proof (rule list_busy_pages.raw_induct
      [where P = "\<lambda>r' acc excl w out. r' = r \<longrightarrow> env (abs w) (abs (snd out))", OF _ that], rule impI)
    fix f :: "'w DynamoRepository \<Rightarrow> Runner list \<Rightarrow> item \<Rightarrow> 'w \<Rightarrow> ((go_error + Runner list) \<times> 'w) option"
      and r' acc excl w out
    assume IH: "\<And>r' acc excl w out. f r' acc excl w = Some out \<Longrightarrow> r' = r \<longrightarrow> env (abs w) (abs (snd out))"
      and r: "r' = r"
      and eq: "(case Query (client r')
             \<lparr>qry_TableName = tableName r', qry_IndexName = ''state-index'',
              qry_KeyCondition = ''#s = :s'', qry_Names = [(''#s'', ''state'')],
              qry_Values = [('':s'', StateBusy)], qry_Limit = None,
              qry_ExclusiveStartKey = excl\<rparr> w of
        (Inl err, w1) \<Rightarrow> Some (Inl (Wrap ''query state-index: '' err), w1)
      | (Inr out, w1) \<Rightarrow>
          (case UnmarshalListOfMaps (unmarshalFn r') (Items out) of
             Inl err \<Rightarrow> Some (Inl (Wrap ''unmarshal runners: '' err), w1)
           | Inr page \<Rightarrow>
               if LastEvaluatedKey out = [] then Some (Inr (acc @ page), w1)
               else f r' (acc @ page) (LastEvaluatedKey out) w1)) = Some out"
    let ?q = "\<lparr>qry_TableName = tableName r, qry_IndexName = ''state-index'',
              qry_KeyCondition = ''#s = :s'', qry_Names = [(''#s'', ''state'')],
              qry_Values = [('':s'', StateBusy)], qry_Limit = None,
              qry_ExclusiveStartKey = excl\<rparr>"
    obtain ans w0 where call: "Query (client r) ?q w = (ans, w0)" by (cases "Query (client r) ?q w")
    then have e: "env (abs w) (abs w0)" using query_law by blast
    have "w0 = snd out \<or> (\<exists>acc' k. f r acc' k w0 = Some out)"
      using eq call r by (cases ans) (auto simp: unmarshal_list split: if_splits)
    with e IH show "env (abs w) (abs (snd out))" by (blast intro: env_trans)
  qed
  from this [OF ret] show ?thesis by simp
qed

end

text \<open>The first contract: DynamoDB gives what \<open>Repository\<close> promises under interference.\<close>

sublocale dynamo_service \<subseteq> repo: repository "dynamo_Repository r" "\<lambda>w. runners_of (table w)" env
proof (unfold_locales, goal_cases)
  case (1 t)
  show ?case by (rule env_refl)
next
  case (2 t u v)
  then show ?case by (rule env_trans)
next
  case (3 rid host w w')
  then show ?case using register_result [of rid host w None w'] by (simp add: dynamo_Repository_def)
next
  case (4 rid host w e w')
  then show ?case using register_result [of rid host w "Some e" w']
    by (auto simp: dynamo_Repository_def simp del: store_step_Registered)
next
  case (5 rid host w e w')
  then show ?case using register_result [of rid host w "Some e" w']
    by (auto simp: dynamo_Repository_def simp del: store_step_Registered)
next
  case (6 sid w x w')
  then show ?case using acquire_result [of sid w "Inr x" w']
    by (simp add: dynamo_Repository_def acquired_def)
next
  case (7 sid w e w')
  then show ?case using acquire_result [of sid w "Inl e" w']
    by (auto simp: dynamo_Repository_def acquired_def)
next
  case (8 sid w res w')
  then show ?case using find_session_result [of sid w res w'] by (simp add: dynamo_Repository_def)
next
  case (9 sid w e w')
  then show ?case using find_session_result [of sid w "Inl e" w'] by (simp add: dynamo_Repository_def)
next
  case (10 rid w x w')
  then show ?case using find_id_result [of rid w "Inr x" w'] by (simp add: dynamo_Repository_def)
next
  case (11 rid w e w')
  then show ?case using find_id_result [of rid w "Inl e" w'] by (simp add: dynamo_Repository_def)
next
  case (12 rid w e w')
  then show ?case using find_id_result [of rid w "Inl e" w'] by (simp add: dynamo_Repository_def)
next
  case (13 w res w')
  then show ?case
    by (auto simp: dynamo_Repository_def dynamo_ListBusyRunners_def intro: list_busy_env)
next
  case (14 rid w w')
  then show ?case using delete_result [of rid w None w'] by (simp add: dynamo_Repository_def)
next
  case (15 rid w e w')
  then show ?case using delete_result [of rid w "Some e" w']
    by (auto simp: dynamo_Repository_def)
qed

section \<open>Queries on an index\<close>

text \<open>
  The documented meaning of the key conditions that the code sends, and of one page of a query:
  the entries that satisfy the condition and come after \<open>ExclusiveStartKey\<close>, in the order of the
  sort key, up to \<open>LastEvaluatedKey\<close>, which is empty when there is nothing left.
\<close>

definition state_conditions :: "string list" where
  "state_conditions =
     [''#s = :s AND runnerId > :v'', ''#s = :s AND runnerId <= :v'', ''#s = :s'']"

definition query_matches :: "query_input \<Rightarrow> item \<Rightarrow> bool" where
  "query_matches q it \<longleftrightarrow>
     (if qry_KeyCondition q = ''currentSessionId = :sid''
      then map_of it ''currentSessionId'' = Some (attr (qry_Values q) '':sid'')
      else map_of it (name_of (qry_Names q) ''#s'') = Some (attr (qry_Values q) '':s'') \<and>
        (qry_KeyCondition q = ''#s = :s AND runnerId > :v'' \<longrightarrow>
           attr (qry_Values q) '':v'' < attr it ''runnerId'') \<and>
        (qry_KeyCondition q = ''#s = :s AND runnerId <= :v'' \<longrightarrow>
           attr it ''runnerId'' \<le> attr (qry_Values q) '':v''))"

definition after_key :: "item \<Rightarrow> string \<Rightarrow> bool" where
  "after_key k rid \<longleftrightarrow> k = [] \<or> attr k ''runnerId'' < rid"

definition entries_after :: "(string \<rightharpoonup> item) \<Rightarrow> query_input \<Rightarrow> item set" where
  "entries_after ix q =
     {it \<in> ran ix. query_matches q it \<and> after_key (qry_ExclusiveStartKey q) (attr it ''runnerId'')}"

definition page_of :: "(string \<rightharpoonup> item) \<Rightarrow> query_input \<Rightarrow> query_output \<Rightarrow> bool" where
  "page_of ix q out \<longleftrightarrow>
     distinct (Items out) \<and>
     (if LastEvaluatedKey out = [] then set (Items out) = entries_after ix q
      else Items out \<noteq> [] \<and>
        attr (LastEvaluatedKey out) ''runnerId'' = attr (last (Items out)) ''runnerId'' \<and>
        set (Items out) = {it \<in> entries_after ix q.
          attr it ''runnerId'' \<le> attr (LastEvaluatedKey out) ''runnerId''})"

text \<open>
  \<open>index w\<close> is what \<open>state-index\<close> holds: an entry per runner, possibly out of date. The code
  relies on it for idle runners only, and on their being there (\<open>index_idle\<close>); entries that
  are out of date may be there as well and disappear at any time. \<open>synced\<close> says that both
  indexes agree with the table.
\<close>

locale settled_dynamo = dynamo_service r table "(=)"
  for r :: "'w DynamoRepository" and table :: "'w \<Rightarrow> (string \<rightharpoonup> item)" +
  fixes index :: "'w \<Rightarrow> (string \<rightharpoonup> item)"
    and synced :: "'w \<Rightarrow> bool"
  assumes table_key: "table w rid = Some it \<Longrightarrow> attr it ''runnerId'' = rid"
    and index_key: "index w rid = Some it \<Longrightarrow> attr it ''runnerId'' = rid"
    and finite_table: "finite (dom (table w))"
    and finite_index: "finite (dom (index w))"
    and index_idle: "runners_of (table w) rid = Some x \<Longrightarrow> IsIdle x \<Longrightarrow>
      runners_of (index w) rid = Some x"
    and index_synced: "synced w \<Longrightarrow> runners_of (index w) = runners_of (table w)"
    and state_query: "Query (client r) q w = (Inr out, w') \<Longrightarrow> qry_TableName q = tableName r \<Longrightarrow>
      qry_IndexName q = ''state-index'' \<Longrightarrow> qry_KeyCondition q \<in> set state_conditions \<Longrightarrow>
      page_of (index w) q out \<and> index w' \<subseteq>\<^sub>m index w \<and> (synced w \<longrightarrow> synced w')"
    and session_query: "Query (client r) q w = (Inr out, w') \<Longrightarrow> qry_TableName q = tableName r \<Longrightarrow>
      qry_IndexName q = ''session-index'' \<Longrightarrow> qry_KeyCondition q = ''currentSessionId = :sid'' \<Longrightarrow>
      qry_ExclusiveStartKey q = [] \<Longrightarrow> synced w \<Longrightarrow>
      set (Items out) \<subseteq> {it \<in> ran (table w). query_matches q it} \<and>
      (Items out = [] \<longrightarrow> {it \<in> ran (table w). query_matches q it} = {})"
    and update_index: "UpdateItem (client r) j w = (Some e, w') \<Longrightarrow> isConditionalCheckFailed e \<Longrightarrow>
      index w' \<subseteq>\<^sub>m index w"
begin

text \<open>The IDs a query can still return: this set shrinks from page to page.\<close>

definition ids_after :: "(string \<rightharpoonup> item) \<Rightarrow> item \<Rightarrow> string set" where
  "ids_after ix k = {rid \<in> dom ix. after_key k rid}"

lemma finite_ids_after: "finite (ids_after (index w) k)"
  using finite_index [of w] by (simp add: ids_after_def)

lemma ids_after_mono: "ix' \<subseteq>\<^sub>m ix \<Longrightarrow> ids_after ix' k \<subseteq> ids_after ix k"
  by (auto simp: ids_after_def dest: map_le_implies_dom_le)

lemma entries_afterD:
  assumes "it \<in> entries_after (index w) q"
  shows "index w (attr it ''runnerId'') = Some it"
    and "attr it ''runnerId'' \<in> ids_after (index w) (qry_ExclusiveStartKey q)"
    and "query_matches q it"
proof -
  from assms obtain rid where "index w rid = Some it" by (auto simp: entries_after_def ran_def)
  with index_key show i: "index w (attr it ''runnerId'') = Some it" by metis
  show "attr it ''runnerId'' \<in> ids_after (index w) (qry_ExclusiveStartKey q)"
    and "query_matches q it"
    using assms i by (auto simp: entries_after_def ids_after_def)
qed

lemma page_entries: "page_of (index w) q out \<Longrightarrow> set (Items out) \<subseteq> entries_after (index w) q"
  by (cases "LastEvaluatedKey out = []") (auto simp: page_of_def)

lemma page_progress:
  assumes page: "page_of (index w) q out" and more: "LastEvaluatedKey out \<noteq> []"
    and shrink: "index w' \<subseteq>\<^sub>m index w"
  shows "ids_after (index w') (LastEvaluatedKey out) \<subset> ids_after (index w) (qry_ExclusiveStartKey q)"
proof -
  let ?k = "attr (LastEvaluatedKey out) ''runnerId''"
  from page more have items: "Items out \<noteq> []" "?k = attr (last (Items out)) ''runnerId''"
    by (simp_all add: page_of_def)
  then have "last (Items out) \<in> entries_after (index w) q"
    using page_entries [OF page] last_in_set by blast
  then have k: "?k \<in> ids_after (index w) (qry_ExclusiveStartKey q)"
    unfolding items(2) by (rule entries_afterD(2))
  have "rid \<in> ids_after (index w) (qry_ExclusiveStartKey q) \<and> rid \<noteq> ?k"
    if "rid \<in> ids_after (index w') (LastEvaluatedKey out)" for rid
    using that k more map_le_implies_dom_le [OF shrink] by (auto simp: ids_after_def after_key_def)
  with k show ?thesis by blast
qed

lemma page_covers:
  assumes "page_of (index w) q out" and "it \<in> entries_after (index w) q"
  shows "it \<in> set (Items out) \<or>
    (LastEvaluatedKey out \<noteq> [] \<and> after_key (LastEvaluatedKey out) (attr it ''runnerId''))"
  using assms by (cases "LastEvaluatedKey out = []") (auto simp: page_of_def after_key_def not_le)

end

section \<open>Acquiring a runner while nobody else writes\<close>

text \<open>
  One page holds every idle runner of its part of the segment, possibly among entries that are
  out of date, and an entry that is still idle is the table's record.
\<close>

definition in_segment :: "string \<Rightarrow> string \<Rightarrow> string \<Rightarrow> bool" where
  "in_segment cond start rid \<longleftrightarrow>
     (cond = segFirstCond \<and> start < rid) \<or> (cond = segSecondCond \<and> rid \<le> start)"

context settled_dynamo
begin

definition idle_at :: "'w \<Rightarrow> string \<Rightarrow> bool" where
  "idle_at w rid \<longleftrightarrow> (\<exists>x. abs w rid = Some x \<and> IsIdle x)"

lemma idle_at_cong: "abs w' = abs w \<Longrightarrow> idle_at w' = idle_at w"
  by (simp add: idle_at_def fun_eq_iff)

lemma abs_key: "abs w rid = Some x \<Longrightarrow> RunnerID x = rid"
  using table_key by auto

lemma idle_entry:
  assumes "abs w rid = Some x" and "IsIdle x"
  obtains it where "index w rid = Some it" and "item_runner it = x"
    and "map_of it ''state'' = Some StateIdle" and "attr it ''runnerId'' = rid"
proof -
  from index_idle [OF assms] obtain it where it: "index w rid = Some it" "item_runner it = x"
    by auto
  then have "attr it ''state'' = StateIdle" using assms(2) by (auto simp: IsIdle_def)
  then have "map_of it ''state'' = Some StateIdle"
    by (auto simp: attr_def StateIdle_def split: option.splits)
  with it that index_key show ?thesis by blast
qed

lemma queryIdlePage_page:
  assumes page: "queryIdlePage r cond start excl w = (Inr (rs, nxt), w')"
    and cond: "cond = segFirstCond \<or> cond = segSecondCond"
  shows "abs w' = abs w \<and> index w' \<subseteq>\<^sub>m index w \<and>
    (\<forall>c\<in>set rs. \<forall>x. abs w (RunnerID c) = Some x \<longrightarrow> IsIdle x \<longrightarrow> c = x) \<and>
    (\<forall>rid. idle_at w rid \<longrightarrow> in_segment cond start rid \<longrightarrow> after_key excl rid \<longrightarrow>
       rid \<in> RunnerID ` set rs \<or> (nxt \<noteq> [] \<and> after_key nxt rid)) \<and>
    (nxt \<noteq> [] \<longrightarrow> ids_after (index w') nxt \<subset> ids_after (index w) excl)"
proof -
  let ?q = "\<lparr>qry_TableName = tableName r, qry_IndexName = ''state-index'',
             qry_KeyCondition = ''#s = :s AND '' @ cond, qry_Names = [(''#s'', ''state'')],
             qry_Values = [('':s'', StateIdle), ('':v'', start)],
             qry_Limit = Some acquireQueryLimit, qry_ExclusiveStartKey = excl\<rparr>"
  obtain out where call: "Query (client r) ?q w = (Inr out, w')"
    and rs: "rs = map item_runner (Items out)" and nxt: "nxt = LastEvaluatedKey out"
    using page by (auto simp: queryIdlePage_def unmarshal_list split: prod.splits sum.splits)
  have "qry_KeyCondition ?q \<in> set state_conditions"
    using cond by (auto simp: state_conditions_def segFirstCond_def segSecondCond_def)
  with state_query [OF call] have pg: "page_of (index w) ?q out" and shrink: "index w' \<subseteq>\<^sub>m index w"
    by simp_all
  have same: "abs w' = abs w" using query_law [OF call] by simp
  have "c = x" if c: "c \<in> set rs" and x: "abs w (RunnerID c) = Some x" "IsIdle x" for c x
  proof -
    from c rs obtain it where it: "it \<in> set (Items out)" "c = item_runner it" by auto
    with page_entries [OF pg] have "index w (attr it ''runnerId'') = Some it"
      using entries_afterD(1) by blast
    moreover obtain it' where "index w (RunnerID c) = Some it'" "item_runner it' = x"
      using x by (rule idle_entry)
    ultimately show ?thesis using it by simp
  qed
  moreover have "rid \<in> RunnerID ` set rs \<or> (nxt \<noteq> [] \<and> after_key nxt rid)"
    if idle: "idle_at w rid" and seg: "in_segment cond start rid" and after: "after_key excl rid" for rid
  proof -
    obtain x where "abs w rid = Some x" "IsIdle x" using idle unfolding idle_at_def by blast
    then obtain it where it: "index w rid = Some it" "map_of it ''state'' = Some StateIdle"
      "attr it ''runnerId'' = rid" by (rule idle_entry)
    have "query_matches ?q it"
      using it(2,3) seg cond
      by (auto simp: query_matches_def name_of_def attr_def [of "[_, _]"] in_segment_def
          segFirstCond_def segSecondCond_def)
    then have "it \<in> entries_after (index w) ?q"
      using it after by (auto simp: entries_after_def ran_def)
    from page_covers [OF pg this] show ?thesis unfolding rs nxt using it(3) by force
  qed
  moreover have "ids_after (index w') nxt \<subset> ids_after (index w) excl" if "nxt \<noteq> []"
    using page_progress [OF pg _ shrink] that nxt by simp
  ultimately show ?thesis using same shrink by blast
qed

lemma assignSession_settled:
  assumes asg: "assignSession r rid sid w = (res, w')"
  shows "case res of
      None \<Rightarrow> \<exists>x. abs w rid = Some x \<and> IsIdle x \<and> abs w' = (abs w)(rid \<mapsto> assigned sid x)
    | Some e \<Rightarrow> \<not> errors_Is e ErrNoIdleRunner \<and>
        (errors_Is e ErrConditionFailed \<longrightarrow>
           abs w' = abs w \<and> index w' \<subseteq>\<^sub>m index w \<and> \<not> idle_at w rid)"
proof -
  let ?j = "\<lparr>upd_TableName = tableName r, upd_Key = [(''runnerId'', rid)],
       upd_UpdateExpression = ''SET #s = :busy, currentSessionId = :sid'',
       upd_ConditionExpression = ''#s = :idle'', upd_Names = [(''#s'', ''state'')],
       upd_Values = [('':sid'', sid), ('':idle'', StateIdle), ('':busy'', StateBusy)]\<rparr>"
  obtain res0 w0 where upd: "UpdateItem (client r) ?j w = (res0, w0)"
    by (cases "UpdateItem (client r) ?j w")
  then have eq: "w0 = w' \<and> res = (case res0 of None \<Rightarrow> None
      | Some e \<Rightarrow> Some (if isConditionalCheckFailed e then Sentinel ErrConditionFailed
                        else Wrap ''update item: '' e))"
    using asg by (auto simp: assignSession_def split: option.splits if_splits)
  show ?thesis
  proof (cases res0)
    case None
    with eq assign_result [OF asg] show ?thesis by auto
  next
    case (Some e)
    have "index w' \<subseteq>\<^sub>m index w" if "isConditionalCheckFailed e"
      using update_index [of ?j w e w'] upd eq Some that by simp
    moreover have "foreign e" using update_call [OF upd] Some by auto
    ultimately show ?thesis using eq Some assign_result [OF asg]
      by (auto simp: idle_at_def split: if_splits)
  qed
qed

lemma assignFirst_settled:
  assumes "assignFirst r sid cands tried w = (res, tried', w')"
    and "\<forall>c\<in>set cands. \<forall>x. abs w (RunnerID c) = Some x \<longrightarrow> IsIdle x \<longrightarrow> c = x"
    and "\<forall>rid\<in>tried. \<not> idle_at w rid"
  shows "case res of
      Inl e \<Rightarrow> \<not> errors_Is e ErrNoIdleRunner
    | Inr (Some x) \<Rightarrow> abs w' (RunnerID x) = Some x
    | Inr None \<Rightarrow> abs w' = abs w \<and> index w' \<subseteq>\<^sub>m index w \<and> (\<forall>rid\<in>tried'. \<not> idle_at w rid) \<and>
        (\<forall>c\<in>set cands. \<not> idle_at w (RunnerID c))"
  using assms
proof (induction cands arbitrary: tried w)
  case Nil
  then show ?case by auto
next
  case (Cons c cands)
  show ?case
  proof (cases "RunnerID c \<in> tried")
    case True
    then have "assignFirst r sid cands tried w = (res, tried', w')" using Cons.prems(1) by simp
    note ih = Cons.IH [OF this _ Cons.prems(3)]
    have "\<not> idle_at w (RunnerID c)" using True Cons.prems(3) by blast
    with ih Cons.prems(2) show ?thesis by (auto split: sum.splits option.splits)
  next
    case False
    obtain res1 w1 where asg: "assignSession r (RunnerID c) sid w = (res1, w1)"
      by (cases "assignSession r (RunnerID c) sid w")
    note law = assignSession_settled [OF asg]
    show ?thesis
    proof (cases res1)
      case None
      then obtain x where x: "abs w (RunnerID c) = Some x" "IsIdle x"
        "abs w1 = (abs w)(RunnerID c \<mapsto> assigned sid x)" using law by auto
      moreover have "c = x" using Cons.prems(2) x(1,2) by simp
      moreover have "res = Inr (Some (assigned sid c)) \<and> w' = w1"
        using Cons.prems(1) False asg None by (auto simp: assigned_def)
      ultimately show ?thesis by (simp add: assigned_def)
    next
      case (Some e)
      show ?thesis
      proof (cases "errors_Is e ErrConditionFailed")
        case True
        have w1: "abs w1 = abs w" "index w1 \<subseteq>\<^sub>m index w" "\<not> idle_at w (RunnerID c)"
          using law Some True by simp_all
        have "assignFirst r sid cands (insert (RunnerID c) tried) w1 = (res, tried', w')"
          using Cons.prems(1) False asg Some True by simp
        note ih = Cons.IH [OF this]
        have "\<forall>c'\<in>set cands. \<forall>x. abs w1 (RunnerID c') = Some x \<longrightarrow> IsIdle x \<longrightarrow> c' = x"
          using Cons.prems(2) unfolding w1(1) by simp
        moreover have "\<forall>rid\<in>insert (RunnerID c) tried. \<not> idle_at w1 rid"
          using Cons.prems(3) w1(3) idle_at_cong [OF w1(1)] by simp
        ultimately show ?thesis
          using ih w1 idle_at_cong [OF w1(1)]
          by (auto split: sum.splits option.splits intro: map_le_trans)
      next
        case cf: False
        with law Some False asg Cons.prems(1) show ?thesis by auto
      qed
    qed
  qed
qed

text \<open>
  The page loop ends, and if it finds nobody, its segment has no idle runner after the key it
  started from. The measure is the number of index entries that a query can still return.
\<close>

definition segment_post ::
  "string \<Rightarrow> string \<Rightarrow> item \<Rightarrow> 'w \<Rightarrow> go_error + Runner option \<Rightarrow> string set \<Rightarrow> 'w \<Rightarrow> bool" where
  "segment_post cond start excl w res tried' w' \<longleftrightarrow>
     (case res of
       Inl e \<Rightarrow> \<not> errors_Is e ErrNoIdleRunner
     | Inr (Some x) \<Rightarrow> abs w' (RunnerID x) = Some x
     | Inr None \<Rightarrow> abs w' = abs w \<and> (\<forall>rid\<in>tried'. \<not> idle_at w rid) \<and>
         (\<forall>rid. idle_at w rid \<longrightarrow> in_segment cond start rid \<longrightarrow> \<not> after_key excl rid))"

lemma acquire_pages_settled:
  assumes cond: "cond = segFirstCond \<or> cond = segSecondCond"
    and tried: "\<forall>rid\<in>tried. \<not> idle_at w rid"
  shows "\<exists>res tried' w'. acquire_pages r sid cond start tried excl w = Some (res, tried', w') \<and>
    segment_post cond start excl w res tried' w'"
  using tried
proof (induction "card (ids_after (index w) excl)" arbitrary: tried excl w rule: less_induct)
  case less
  obtain page w1 where pg: "queryIdlePage r cond start excl w = (page, w1)"
    by (cases "queryIdlePage r cond start excl w")
  show ?case
  proof (cases page)
    case (Inl e)
    have "acquire_pages r sid cond start tried excl w = Some (Inl e, tried, w1)"
      by (subst acquire_pages.simps) (simp add: pg Inl)
    moreover have "\<not> errors_Is e ErrNoIdleRunner" using queryIdlePage_env [OF pg] Inl by simp
    ultimately show ?thesis by (auto simp: segment_post_def)
  next
    case (Inr p)
    obtain rs nxt where p: "p = (rs, nxt)" by (cases p)
    note facts = queryIdlePage_page [OF pg [unfolded Inr p] cond]
    have w1: "abs w1 = abs w" and shrink: "index w1 \<subseteq>\<^sub>m index w" using facts by blast+
    have idle1: "idle_at w1 = idle_at w" using w1 by (rule idle_at_cong)
    obtain res1 tried1 w2 where af: "assignFirst r sid rs tried w1 = (res1, tried1, w2)"
      by (cases "assignFirst r sid rs tried w1")
    have pages: "acquire_pages r sid cond start tried excl w =
        (if res1 = Inr None \<and> nxt \<noteq> [] then acquire_pages r sid cond start tried1 nxt w2
         else Some (res1, tried1, w2))"
      by (subst acquire_pages.simps) (auto simp: pg Inr p af split: sum.splits option.splits)
    have law: "case res1 of
        Inl e \<Rightarrow> \<not> errors_Is e ErrNoIdleRunner
      | Inr (Some x) \<Rightarrow> abs w2 (RunnerID x) = Some x
      | Inr None \<Rightarrow> abs w2 = abs w1 \<and> index w2 \<subseteq>\<^sub>m index w1 \<and> (\<forall>rid\<in>tried1. \<not> idle_at w1 rid) \<and>
          (\<forall>c\<in>set rs. \<not> idle_at w1 (RunnerID c))"
      using af by (rule assignFirst_settled) (use facts less.prems w1 idle1 in simp_all)
    show ?thesis
    proof (cases "res1 = Inr None")
      case False
      then have "segment_post cond start excl w res1 tried1 w2"
        using law by (auto simp: segment_post_def split: sum.splits option.splits)
      with pages False show ?thesis by simp
    next
      case True
      with law w1 idle1 have w2: "abs w2 = abs w" "index w2 \<subseteq>\<^sub>m index w"
        "\<forall>rid\<in>tried1. \<not> idle_at w rid" "\<forall>c\<in>set rs. \<not> idle_at w (RunnerID c)"
        using map_le_trans [OF _ shrink] by simp_all
      have covered: "nxt \<noteq> [] \<and> after_key nxt rid"
        if "idle_at w rid" "in_segment cond start rid" "after_key excl rid" for rid
        using facts w2(4) that by blast
      show ?thesis
      proof (cases "nxt = []")
        case nil: True
        have "segment_post cond start excl w res1 tried1 w2"
          using True w2 covered nil by (auto simp: segment_post_def)
        with pages nil show ?thesis by simp
      next
        case nxt: False
        have "ids_after (index w2) nxt \<subseteq> ids_after (index w1) nxt"
          by (rule ids_after_mono) (use law True in simp)
        also have "\<dots> \<subset> ids_after (index w) excl" using facts nxt by blast
        finally have "card (ids_after (index w2) nxt) < card (ids_after (index w) excl)"
          using finite_ids_after by (rule psubset_card_mono [rotated])
        moreover have idle2: "idle_at w2 = idle_at w" using w2(1) by (rule idle_at_cong)
        ultimately obtain res tried' w'
          where rec: "acquire_pages r sid cond start tried1 nxt w2 = Some (res, tried', w')"
            and post: "segment_post cond start nxt w2 res tried' w'"
          using less.hyps [of w2 nxt tried1] w2(3) by auto
        have "acquire_pages r sid cond start tried excl w = Some (res, tried', w')"
          using pages True nxt rec by simp
        moreover have "segment_post cond start excl w res tried' w'"
          using post covered unfolding segment_post_def idle2 w2(1)
          by (cases res) (auto split: option.splits)
        ultimately show ?thesis by blast
      qed
    qed
  qed
qed

text \<open>The two segments together hold every ID, whatever the start.\<close>

lemma dynamo_AcquireIdle_settled:
  "\<exists>res w'. dynamo_AcquireIdle r sid w = Some (res, w') \<and>
    (case res of
       Inl e \<Rightarrow> errors_Is e ErrNoIdleRunner \<longrightarrow> (\<forall>rid. \<not> idle_at w rid)
     | Inr x \<Rightarrow> abs w' (RunnerID x) = Some x)"
proof -
  obtain start w0 where rnd: "randHexFn r w = (start, w0)" by (cases "randHexFn r w")
  have idle0: "idle_at w0 = idle_at w" by (rule idle_at_cong) (rule rand_env [OF rnd, symmetric])
  obtain res1 tried1 w1
    where p1: "acquire_pages r sid segFirstCond start {} [] w0 = Some (res1, tried1, w1)"
      and q1: "segment_post segFirstCond start [] w0 res1 tried1 w1"
    using acquire_pages_settled [of segFirstCond "{}" w0 sid start "[]"] by blast
  show ?thesis
  proof (cases "res1 = Inr None")
    case False
    with p1 q1 rnd show ?thesis
      by (auto simp: dynamo_AcquireIdle_def segment_post_def split: sum.splits option.splits)
  next
    case True
    with q1 have same1: "abs w1 = abs w0" and tried1: "\<forall>rid\<in>tried1. \<not> idle_at w1 rid"
      and none1: "\<And>rid. start < rid \<Longrightarrow> \<not> idle_at w0 rid"
      using idle_at_cong [of w1 w0] by (auto simp: segment_post_def in_segment_def after_key_def)
    obtain res2 tried2 w2
      where p2: "acquire_pages r sid segSecondCond start tried1 [] w1 = Some (res2, tried2, w2)"
        and q2: "segment_post segSecondCond start [] w1 res2 tried2 w2"
      using acquire_pages_settled [OF _ tried1, of segSecondCond sid start "[]"] by blast
    have "\<forall>rid. \<not> idle_at w rid" if "res2 = Inr None"
    proof
      fix rid
      have "\<not> idle_at w1 rid" if "rid \<le> start"
        using q2 \<open>res2 = Inr None\<close> that by (auto simp: segment_post_def in_segment_def after_key_def)
      then show "\<not> idle_at w rid"
        using none1 [of rid] idle_at_cong [OF same1] idle0 by (cases "rid \<le> start") auto
    qed
    with p1 p2 q2 True rnd show ?thesis
      by (auto simp: dynamo_AcquireIdle_def segment_post_def split: sum.splits option.splits)
  qed
qed

end

section \<open>Looking up sessions and listing, on synced indexes\<close>

context settled_dynamo
begin

lemma find_session_settled:
  assumes sync: "synced w" and find: "dynamo_FindBySessionID r sid w = (res, w')"
  shows "case res of
      Inr x \<Rightarrow> abs w (RunnerID x) = Some x \<and> CurrentSessionID x = sid
    | Inl e \<Rightarrow> errors_Is e ErrNotFound \<longrightarrow> sid \<noteq> [] \<longrightarrow>
        (\<forall>rid x. abs w rid = Some x \<longrightarrow> CurrentSessionID x \<noteq> sid)"
proof -
  let ?q = "\<lparr>qry_TableName = tableName r, qry_IndexName = ''session-index'',
             qry_KeyCondition = ''currentSessionId = :sid'', qry_Names = [],
             qry_Values = [('':sid'', sid)], qry_Limit = Some 1, qry_ExclusiveStartKey = []\<rparr>"
  have matches: "query_matches ?q it \<longleftrightarrow> map_of it ''currentSessionId'' = Some sid" for it
    by (simp add: query_matches_def attr_def)
  obtain ans w0 where call: "Query (client r) ?q w = (ans, w0)" by (cases "Query (client r) ?q w")
  show ?thesis
  proof (cases ans)
    case (Inl e)
    with call find query_law [OF call] show ?thesis by (auto simp: dynamo_FindBySessionID_def)
  next
    case (Inr out)
    have items: "set (Items out) \<subseteq> {it \<in> ran (table w). map_of it ''currentSessionId'' = Some sid}"
      "Items out = [] \<Longrightarrow> {it \<in> ran (table w). map_of it ''currentSessionId'' = Some sid} = {}"
      using session_query [OF call [unfolded Inr]] sync unfolding matches by simp_all
    show ?thesis
    proof (cases "Items out")
      case Nil
      have "CurrentSessionID x \<noteq> sid" if "abs w rid = Some x" "sid \<noteq> []" for rid x
        using items(2) [OF Nil] that by (auto simp: ran_def attr_def split: option.splits)
      then show ?thesis using find call Inr Nil by (auto simp: dynamo_FindBySessionID_def)
    next
      case (Cons it its)
      with items(1) obtain rid where "table w rid = Some it" "map_of it ''currentSessionId'' = Some sid"
        by (auto simp: ran_def)
      moreover have "res = Inr (item_runner it)"
        using find call Inr Cons by (auto simp: dynamo_FindBySessionID_def unmarshal)
      ultimately show ?thesis using table_key [of w rid it] by (simp add: attr_def)
    qed
  qed
qed

lemma list_busy_settled:
  "\<exists>res w'. list_busy_pages r acc excl w = Some (res, w') \<and>
    (synced w \<longrightarrow> (case res of Inl e \<Rightarrow> True
      | Inr rs \<Rightarrow> \<exists>page. rs = acc @ page \<and> distinct page \<and>
          set page = {x \<in> ran (abs w). IsBusy x \<and> after_key excl (RunnerID x)}))"
proof (induction "card (ids_after (index w) excl)" arbitrary: acc excl w rule: less_induct)
  case less
  let ?q = "\<lparr>qry_TableName = tableName r, qry_IndexName = ''state-index'',
              qry_KeyCondition = ''#s = :s'', qry_Names = [(''#s'', ''state'')],
              qry_Values = [('':s'', StateBusy)], qry_Limit = None, qry_ExclusiveStartKey = excl\<rparr>"
  have matches: "query_matches ?q it \<longleftrightarrow> IsBusy (item_runner it)" for it
    by (auto simp: query_matches_def name_of_def attr_def IsBusy_def StateBusy_def split: option.splits)
  obtain ans w1 where call: "Query (client r) ?q w = (ans, w1)" by (cases "Query (client r) ?q w")
  show ?case
  proof (cases ans)
    case (Inl e)
    have "list_busy_pages r acc excl w = Some (Inl (Wrap ''query state-index: '' e), w1)"
      by (subst list_busy_pages.simps) (simp add: call Inl)
    then show ?thesis by simp
  next
    case (Inr out)
    let ?page = "map item_runner (Items out)" and ?nxt = "LastEvaluatedKey out"
    have "qry_KeyCondition ?q \<in> set state_conditions" by (simp add: state_conditions_def)
    with state_query [OF call [unfolded Inr]] have pg: "page_of (index w) ?q out"
      and shrink: "index w1 \<subseteq>\<^sub>m index w" and sync: "synced w \<Longrightarrow> synced w1"
      by simp_all
    have same: "abs w1 = abs w" using query_law [OF call] by simp
    have pages: "list_busy_pages r acc excl w =
        (if ?nxt = [] then Some (Inr (acc @ ?page), w1) else list_busy_pages r (acc @ ?page) ?nxt w1)"
      by (subst list_busy_pages.simps) (simp add: call Inr unmarshal_list)
    have sub: "set (Items out) \<subseteq> entries_after (index w) ?q" using pg by (rule page_entries)
    have "inj_on item_runner (set (Items out))"
    proof (rule inj_onI)
      fix a b assume a: "a \<in> set (Items out)" and b: "b \<in> set (Items out)"
        and eq: "item_runner a = item_runner b"
      have "index w (attr a ''runnerId'') = Some a" using sub a by (rule entries_afterD(1) [OF subsetD])
      moreover have "index w (attr b ''runnerId'') = Some b" using sub b by (rule entries_afterD(1) [OF subsetD])
      moreover have "attr a ''runnerId'' = attr b ''runnerId''" using arg_cong [OF eq, of RunnerID] by simp
      ultimately show "a = b" by (metis option.inject)
    qed
    then have dist: "distinct ?page" using pg by (simp add: distinct_map page_of_def)
    have entries: "item_runner ` entries_after (index w) ?q =
        {x \<in> ran (abs w). IsBusy x \<and> after_key excl (RunnerID x)}" if "synced w"
    proof -
      have "item_runner ` entries_after (index w) ?q =
          {x \<in> ran (runners_of (index w)). IsBusy x \<and> after_key excl (RunnerID x)}"
        by (auto simp: entries_after_def matches ran_def image_iff)
      then show ?thesis using index_synced [OF that] by simp
    qed
    show ?thesis
    proof (cases "?nxt = []")
      case True
      then have "set (Items out) = entries_after (index w) ?q" using pg by (simp add: page_of_def)
      then show ?thesis using pages True dist entries by auto
    next
      case False
      have "card (ids_after (index w1) ?nxt) < card (ids_after (index w) excl)"
        using page_progress [OF pg False shrink] finite_ids_after by (simp add: psubset_card_mono)
      from less.hyps [OF this, of "acc @ ?page"] obtain res w'
        where rec: "list_busy_pages r (acc @ ?page) ?nxt w1 = Some (res, w')"
          and post: "synced w1 \<longrightarrow> (case res of Inl e \<Rightarrow> True
            | Inr rs \<Rightarrow> \<exists>page. rs = (acc @ ?page) @ page \<and> distinct page \<and>
                set page = {x \<in> ran (abs w1). IsBusy x \<and> after_key ?nxt (RunnerID x)})" by blast
      have "case res of Inl e \<Rightarrow> True
          | Inr rs \<Rightarrow> \<exists>page. rs = acc @ page \<and> distinct page \<and>
              set page = {x \<in> ran (abs w). IsBusy x \<and> after_key excl (RunnerID x)}"
        if "synced w"
      proof (cases res)
        case (Inr rs)
        with post sync that obtain page where rs: "rs = acc @ ?page @ page" and "distinct page"
          and page: "set page = {x \<in> ran (abs w). IsBusy x \<and> after_key ?nxt (RunnerID x)}"
          unfolding same by auto
        have this_page: "set ?page = {x \<in> ran (abs w). IsBusy x \<and> after_key excl (RunnerID x) \<and>
            \<not> after_key ?nxt (RunnerID x)}"
        proof -
          have "set (Items out) = {it \<in> entries_after (index w) ?q. \<not> after_key ?nxt (attr it ''runnerId'')}"
            using pg False by (auto simp: page_of_def after_key_def)
          then have "set ?page = {x \<in> item_runner ` entries_after (index w) ?q.
              \<not> after_key ?nxt (RunnerID x)}" by auto
          then show ?thesis unfolding entries [OF that] by auto
        qed
        have "after_key excl (RunnerID x)" if "after_key ?nxt (RunnerID x)" for x
        proof -
          have "last (Items out) \<in> entries_after (index w) ?q"
            using sub pg False last_in_set by (auto simp: page_of_def)
          moreover have "attr ?nxt ''runnerId'' = attr (last (Items out)) ''runnerId''"
            using pg False by (simp add: page_of_def)
          ultimately show ?thesis using that False
            by (auto simp: entries_after_def after_key_def)
        qed
        then have "set (?page @ page) = {x \<in> ran (abs w). IsBusy x \<and> after_key excl (RunnerID x)}"
          unfolding set_append this_page page by auto
        moreover have "distinct (?page @ page)"
          using dist \<open>distinct page\<close> this_page page by auto
        ultimately show ?thesis using Inr rs by auto
      qed simp
      then show ?thesis using pages False rec by auto
    qed
  qed
qed

end

text \<open>The second contract: \<open>Repository\<close> while nobody else writes.\<close>

sublocale settled_dynamo \<subseteq>
  repo: settled_repository "dynamo_Repository r" "\<lambda>w. runners_of (table w)" synced
proof (unfold_locales, goal_cases)
  case (1 w)
  have "dom (runners_of (table w)) = dom (table w)" by (auto simp: dom_def)
  then show ?case using finite_table by simp
next
  case (2 sid w)
  then show ?case using dynamo_AcquireIdle_settled [of sid w] by (auto simp: dynamo_Repository_def)
next
  case (3 sid w e w' rid x)
  then show ?case using dynamo_AcquireIdle_settled [of sid w]
    by (auto simp: dynamo_Repository_def idle_at_def)
next
  case (4 sid w x w')
  then show ?case using dynamo_AcquireIdle_settled [of sid w]
    by (auto simp: dynamo_Repository_def)
next
  case (5 w sid x w')
  then show ?case using find_session_settled [of w sid "Inr x" w'] by (simp add: dynamo_Repository_def)
next
  case (6 w sid e w' rid x)
  then show ?case using find_session_settled [of w sid "Inl e" w']
    by (auto simp: dynamo_Repository_def)
next
  case (7 w)
  show ?case using list_busy_settled [of "[]" "[]" w]
    by (auto simp: dynamo_Repository_def dynamo_ListBusyRunners_def)
next
  case (8 w rs w')
  then show ?case using list_busy_settled [of "[]" "[]" w]
    by (auto simp: dynamo_Repository_def dynamo_ListBusyRunners_def after_key_def)
qed

end
