(* ===== verification/Broker_Config.thy ===== *)
theory Broker_Config
  imports Dynamo_Store Stacklist
begin

text \<open>
  \<open>broker/config\<close>: what the broker reads from its environment at start, and the choice of the
  store. \<open>os.Getenv\<close> is a function from names to values, empty for an unset name. The
  constructors of the two clients are arguments.
\<close>

type_synonym environment = "string \<Rightarrow> string"

definition missing :: "string \<Rightarrow> go_error" where
  "missing name = ErrorString (''missing required environment variable: '' @ name)"

section \<open>Stacks\<close>

record StackConfig =
  Self :: string
  Fallbacks :: "string list"

definition NewStackFromEnv :: "environment \<Rightarrow> go_error + StackConfig" where
  "NewStackFromEnv getenv =
     (let self = TrimSpace (getenv ''STACK_NAME'') in
      if self = [] then Inl (missing ''STACK_NAME'')
      else let rawList = getenv ''BUNSHIN_STACKS'' in
      if TrimSpace rawList = [] then Inl (missing ''BUNSHIN_STACKS'')
      else case Parse rawList self of
        (fallbacks, containsSelf) \<Rightarrow>
          if \<not> containsSelf
          then Inl (ErrorString (''STACK_NAME '' @ Quote self @ '' is not listed in BUNSHIN_STACKS '' @
                                 Quote rawList))
          else Inr \<lparr>Self = self, Fallbacks = fallbacks\<rparr>)"

section \<open>The port of the runners' API\<close>

definition NewRunnerAPIPortFromEnv :: "environment \<Rightarrow> go_error + int" where
  "NewRunnerAPIPortFromEnv getenv =
     (let raw = TrimSpace (getenv ''RUNNER_API_PORT'') in
      if raw = [] then Inl (missing ''RUNNER_API_PORT'')
      else case Atoi raw of
        Inl err \<Rightarrow> Inl (Wrap (''RUNNER_API_PORT '' @ Quote raw @ '' must be an integer: '') err)
      | Inr port \<Rightarrow>
          if port \<le> 0 \<or> port > 65535
          then Inl (ErrorString (''RUNNER_API_PORT '' @ show_int port @ '' must be between 1 and 65535''))
          else Inr port)"

section \<open>The store\<close>

record DynamoConfig =
  Region :: string
  AccessKey :: string
  SecretKey :: string
  Endpoint :: string

text \<open>
  \<open>store/dynamo_adapter.go\<close>: the options given to the AWS library, and the repository on the
  client that it returns.
\<close>

record aws_options =
  aws_region :: string
  static_credentials :: "(string \<times> string \<times> string) option"

definition NewDynamoRepositoryFromEnv ::
  "(aws_options \<Rightarrow> go_error + 'cfg) \<Rightarrow> ('cfg \<Rightarrow> string option \<Rightarrow> 'w dynamoDBAPI) \<Rightarrow>
   ('w dynamoDBAPI \<Rightarrow> string \<Rightarrow> 'w DynamoRepository) \<Rightarrow> DynamoConfig \<Rightarrow> go_error + 'w DynamoRepository" where
  "NewDynamoRepositoryFromEnv loadAWSConfig newFromConfig newRepository cfg =
     (case loadAWSConfig
             \<lparr>aws_region = Region cfg,
              static_credentials =
                (if AccessKey cfg \<noteq> [] then Some (AccessKey cfg, SecretKey cfg, []) else None)\<rparr> of
        Inl err \<Rightarrow> Inl (Wrap ''load aws config: '' err)
      | Inr awsCfg \<Rightarrow>
          Inr (newRepository
                 (newFromConfig awsCfg (if Endpoint cfg \<noteq> [] then Some (Endpoint cfg) else None))
                 ''bunshin-runners''))"

definition newDynamoFromEnv ::
  "environment \<Rightarrow> (DynamoConfig \<Rightarrow> go_error + 'repo) \<Rightarrow> go_error + 'repo" where
  "newDynamoFromEnv getenv newDynamoRepositoryFn =
     (let region = getenv ''AWS_REGION'' in
      if region = [] then Inl (missing ''AWS_REGION'')
      else let accessKey = getenv ''AWS_ACCESS_KEY_ID''; secretKey = getenv ''AWS_SECRET_ACCESS_KEY'' in
      if (accessKey = []) \<noteq> (secretKey = [])
      then Inl (ErrorString
             ''AWS_ACCESS_KEY_ID and AWS_SECRET_ACCESS_KEY must both be set or both be empty'')
      else newDynamoRepositoryFn
             \<lparr>Region = region, AccessKey = accessKey, SecretKey = secretKey,
              Endpoint = getenv ''DYNAMODB_ENDPOINT''\<rparr>)"

definition newFirestoreFromEnv ::
  "environment \<Rightarrow> (string \<Rightarrow> string \<Rightarrow> go_error + 'repo) \<Rightarrow> go_error + 'repo" where
  "newFirestoreFromEnv getenv newFirestoreRepositoryFn =
     (let projectID = getenv ''GOOGLE_CLOUD_PROJECT'' in
      if projectID = [] then Inl (missing ''GOOGLE_CLOUD_PROJECT'')
      else let databaseID = getenv ''FIRESTORE_DATABASE'' in
      if databaseID = [] then Inl (missing ''FIRESTORE_DATABASE'')
      else newFirestoreRepositoryFn projectID databaseID)"

definition NewRepositoryFromEnv ::
  "environment \<Rightarrow> (DynamoConfig \<Rightarrow> go_error + 'repo) \<Rightarrow> (string \<Rightarrow> string \<Rightarrow> go_error + 'repo) \<Rightarrow>
   go_error + 'repo" where
  "NewRepositoryFromEnv getenv newDynamoRepositoryFn newFirestoreRepositoryFn =
     (let kind = TrimSpace (getenv ''BUNSHIN_STORE'') in
      if kind = ''dynamodb'' then newDynamoFromEnv getenv newDynamoRepositoryFn
      else if kind = ''firestore'' then newFirestoreFromEnv getenv newFirestoreRepositoryFn
      else if kind = [] then Inl (missing ''BUNSHIN_STORE'')
      else Inl (ErrorString (''unsupported BUNSHIN_STORE '' @ Quote kind @
                             '' (expected dynamodb or firestore)'')))"

section \<open>What a configuration that is accepted satisfies\<close>

lemma NewStackFromEnv_ok:
  assumes "NewStackFromEnv getenv = Inr cfg"
  shows "Self cfg = TrimSpace (getenv ''STACK_NAME'') \<and> Self cfg \<noteq> [] \<and>
    Self cfg \<in> set (Split (getenv ''BUNSHIN_STACKS'')) \<and>
    Fallbacks cfg = fst (Parse (getenv ''BUNSHIN_STACKS'') (Self cfg))"
proof -
  obtain fallbacks found where parse: "Parse (getenv ''BUNSHIN_STACKS'') (TrimSpace (getenv ''STACK_NAME'')) =
      (fallbacks, found)" by (cases "Parse (getenv ''BUNSHIN_STACKS'') (TrimSpace (getenv ''STACK_NAME''))")
  with assms have cfg: "found" "cfg = \<lparr>Self = TrimSpace (getenv ''STACK_NAME''), Fallbacks = fallbacks\<rparr>"
    "TrimSpace (getenv ''STACK_NAME'') \<noteq> []"
    by (auto simp: NewStackFromEnv_def Let_def split: if_splits)
  have "TrimSpace (getenv ''STACK_NAME'') \<in> set (Split (getenv ''BUNSHIN_STACKS''))"
    by (rule Parse_cases [of "TrimSpace (getenv ''STACK_NAME'')" "getenv ''BUNSHIN_STACKS''"])
      (use parse cfg in auto)
  then show ?thesis using cfg parse by simp
qed

lemma NewRunnerAPIPortFromEnv_range:
  "NewRunnerAPIPortFromEnv getenv = Inr port \<Longrightarrow> 1 \<le> port \<and> port \<le> 65535"
  by (auto simp: NewRunnerAPIPortFromEnv_def Let_def split: if_splits sum.splits)

lemma NewRunnerAPIPortFromEnv_roundtrip:
  assumes "1 \<le> port" and "port \<le> 65535" and "TrimSpace (getenv ''RUNNER_API_PORT'') = show_int port"
  shows "NewRunnerAPIPortFromEnv getenv = Inr port"
proof -
  have "Atoi (show_int port) = Inr port" using assms(1,2) by (simp add: Atoi_show_int)
  moreover have "show_int port \<noteq> []" using show_nat_digits assms(1) by (auto simp: show_int_def)
  ultimately show ?thesis using assms by (simp add: NewRunnerAPIPortFromEnv_def)
qed

lemma newDynamoFromEnv_keys:
  "newDynamoFromEnv getenv f = Inr r \<Longrightarrow>
   \<exists>cfg. f cfg = Inr r \<and> Region cfg \<noteq> [] \<and> ((AccessKey cfg = []) = (SecretKey cfg = []))"
  by (auto simp: newDynamoFromEnv_def Let_def split: if_splits)

end
