(* ===== verification/Health_Check.thy ===== *)
theory Health_Check
  imports Go_Strings
begin

text \<open>
  \<open>broker/healthcheck/checker.go\<close>: whether a runner answers \<open>GET /health\<close>. The HTTP client is
  an argument: building the request can fail (a host that is no valid URL), the exchange can
  fail, and otherwise it gives a status. A panic of a constructor is the left of a sum.
\<close>

type_synonym panic = string

type_synonym 'w Checker = "string \<Rightarrow> 'w \<Rightarrow> go_error option \<times> 'w"

record 'w http_client =
  NewRequest :: "string \<Rightarrow> go_error option"
  Do :: "string \<Rightarrow> 'w \<Rightarrow> (go_error + nat) \<times> 'w"

record 'w HTTPChecker =
  hc_client :: "'w http_client"
  hc_port :: int

definition NewHTTPChecker :: "'w http_client option \<Rightarrow> int \<Rightarrow> panic + 'w HTTPChecker" where
  "NewHTTPChecker client port =
     (case client of
        None \<Rightarrow> Inl ''healthcheck: client must not be nil''
      | Some cl \<Rightarrow>
          if port \<le> 0 \<or> port > 65535 then Inl ''healthcheck: port must be between 1 and 65535''
          else Inr \<lparr>hc_client = cl, hc_port = port\<rparr>)"

definition check_url :: "'w HTTPChecker \<Rightarrow> string \<Rightarrow> string" where
  "check_url c privateHost = ''http://'' @ privateHost @ '':'' @ show_int (hc_port c) @ ''/health''"

definition Check :: "'w HTTPChecker \<Rightarrow> 'w Checker" where
  "Check c privateHost w =
     (case NewRequest (hc_client c) (check_url c privateHost) of
        Some err \<Rightarrow> (Some (Wrap ''healthcheck: create request: '' err), w)
      | None \<Rightarrow>
          (case Do (hc_client c) (check_url c privateHost) w of
             (Inl err, w1) \<Rightarrow> (Some (Wrap ''healthcheck: request failed: '' err), w1)
           | (Inr status, w1) \<Rightarrow>
               if status \<noteq> 200
               then (Some (ErrorString (''healthcheck: unexpected status '' @ show_nat status)), w1)
               else (None, w1)))"

lemma Check_None_iff:
  "Check c host w = (None, w') \<longleftrightarrow>
     NewRequest (hc_client c) (check_url c host) = None \<and> Do (hc_client c) (check_url c host) w = (Inr 200, w')"
  by (auto simp: Check_def split: option.splits sum.splits prod.splits if_splits)

text \<open>
  What the service relies on: a check may take time, in which others write, but writes nothing
  to the store itself.
\<close>

locale health_check =
  fixes check :: "'w Checker"
    and abs :: "'w \<Rightarrow> 's"
    and env :: "'s \<Rightarrow> 's \<Rightarrow> bool"
  assumes check_env: "check host w = (res, w') \<Longrightarrow> env (abs w) (abs w')"

text \<open>An HTTP exchange that leaves the store alone makes such a checker.\<close>

locale http_exchange =
  fixes c :: "'w HTTPChecker"
    and abs :: "'w \<Rightarrow> 's"
    and env :: "'s \<Rightarrow> 's \<Rightarrow> bool"
  assumes env_refl: "env t t"
    and do_env: "Do (hc_client c) url w = (ans, w') \<Longrightarrow> env (abs w) (abs w')"

sublocale http_exchange \<subseteq> check: health_check "Check c" abs env
proof
  fix host w res w'
  assume check: "Check c host w = (res, w')"
  show "env (abs w) (abs w')"
  proof (cases "NewRequest (hc_client c) (check_url c host)")
    case None
    obtain ans w1 where "Do (hc_client c) (check_url c host) w = (ans, w1)"
      by (cases "Do (hc_client c) (check_url c host) w")
    moreover have "w' = w1" using check None calculation
      by (cases ans) (auto simp: Check_def split: if_splits)
    ultimately show ?thesis using do_env by simp
  next
    case (Some err)
    then show ?thesis using check by (simp add: Check_def env_refl)
  qed
qed

end
