(* ===== verification/Broker_Service.thy ===== *)
theory Broker_Service
  imports Repository Health_Check
begin

text \<open>
  \<open>broker/service/service.go\<close>: the broker's own logic, over any \<open>Repository\<close> and any
  \<open>Checker\<close>. A context is what \<open>ctx.Err()\<close> reads out of the world. The loop of
  \<open>createSession\<close> has no bound in the code; it is shown to end on a settled store.
\<close>

section \<open>Types\<close>

type_synonym 'w ctx = "'w \<Rightarrow> go_error option"

type_synonym 'w session_fn = "'w \<Rightarrow> (go_error + string) \<times> 'w"

record ResolveResult =
  SessionID :: string
  SessionHex :: string
  RunnerHost :: string
  Created :: bool
  Reassigned :: bool

record LookupResult =
  LookupHost :: string

record CreateSessionResult =
  CreatedID :: string
  CreatedHex :: string
  CreatedRunner :: Runner

record 'w BrokerService =
  repo :: "'w Repository"
  stackPrefix :: string
  checker :: "'w Checker"
  sessionFn :: "'w session_fn"

section \<open>Construction\<close>

text \<open>The two options, each with a \<open>nil\<close> for its argument.\<close>

datatype 'w Opt =
    WithSessionFn "'w session_fn option"
  | WithChecker "'w Checker option"

fun apply_opts ::
  "'w Opt list \<Rightarrow> 'w session_fn \<times> 'w Checker option \<Rightarrow> 'w session_fn \<times> 'w Checker option" where
  "apply_opts [] acc = acc"
| "apply_opts (WithSessionFn fn # opts) (f, c) =
     apply_opts opts (case fn of None \<Rightarrow> (f, c) | Some f' \<Rightarrow> (f', c))"
| "apply_opts (WithChecker c' # opts) (f, c) = apply_opts opts (f, c')"

text \<open>\<open>io.ReadFull\<close> of so many bytes from the random source: the error, or the bytes.\<close>

definition defaultSessionFn :: "(nat \<Rightarrow> 'w \<Rightarrow> (go_error + string) \<times> 'w) \<Rightarrow> 'w session_fn" where
  "defaultSessionFn randRead w =
     (case randRead 16 w of
        (Inl err, w1) \<Rightarrow> (Inl (Wrap ''generate session id: '' err), w1)
      | (Inr b, w1) \<Rightarrow> (Inr (EncodeToString b), w1))"

definition NewBrokerService ::
  "(nat \<Rightarrow> 'w \<Rightarrow> (go_error + string) \<times> 'w) \<Rightarrow> 'w Repository \<Rightarrow> string \<Rightarrow> 'w Opt list \<Rightarrow>
   panic + 'w BrokerService" where
  "NewBrokerService randRead rp stack opts =
     (if stack = [] then Inl ''service: stackPrefix must not be empty''
      else case apply_opts opts (defaultSessionFn randRead, None) of
        (fn, None) \<Rightarrow> Inl ''service: checker must not be nil''
      | (fn, Some c) \<Rightarrow>
          Inr \<lparr>repo = rp, stackPrefix = stack, checker = c, sessionFn = fn\<rparr>)"

section \<open>Session IDs\<close>

definition sessionIDSeparator :: char where "sessionIDSeparator = CHR ''_''"

definition namespacedSessionID :: "'w BrokerService \<Rightarrow> string \<Rightarrow> string" where
  "namespacedSessionID s sessionHex = stackPrefix s @ sessionIDSeparator # sessionHex"

definition splitNamespacedSessionID :: "string \<Rightarrow> string \<times> string \<times> bool" where
  "splitNamespacedSessionID sessionID = Cut sessionID sessionIDSeparator"

section \<open>The operations\<close>

text \<open>The loop of \<open>createSession\<close>.\<close>

partial_function (option) acquire_healthy ::
  "'w BrokerService \<Rightarrow> 'w ctx \<Rightarrow> string \<Rightarrow> string \<Rightarrow> 'w \<Rightarrow>
   ((go_error + CreateSessionResult) \<times> 'w) option" where
  [code]: "acquire_healthy s ctxErr sessionHex sessionID w =
     (case AcquireIdle (repo s) sessionID w of
        None \<Rightarrow> None
      | Some (Inl err, w1) \<Rightarrow> Some (Inl err, w1)
      | Some (Inr runner, w1) \<Rightarrow>
          (case checker s (PrivateHost runner) w1 of
             (None, w2) \<Rightarrow>
               Some (Inr \<lparr>CreatedID = sessionID, CreatedHex = sessionHex, CreatedRunner = runner\<rparr>, w2)
           | (Some checkErr, w2) \<Rightarrow>
               (case ctxErr w2 of
                  Some err \<Rightarrow> Some (Inl err, w2)
                | None \<Rightarrow>
                    (case Delete (repo s) (RunnerID runner) w2 of
                       (Some err, w3) \<Rightarrow>
                         Some (Inl (Wrap (''delete unhealthy runner '' @ RunnerID runner @ '': '') err), w3)
                     | (None, w3) \<Rightarrow> acquire_healthy s ctxErr sessionHex sessionID w3))))"

definition createSession ::
  "'w BrokerService \<Rightarrow> 'w ctx \<Rightarrow> 'w \<Rightarrow> ((go_error + CreateSessionResult) \<times> 'w) option" where
  "createSession s ctxErr w =
     (case sessionFn s w of
        (Inl err, w1) \<Rightarrow> Some (Inl err, w1)
      | (Inr sessionHex, w1) \<Rightarrow>
          acquire_healthy s ctxErr sessionHex (namespacedSessionID s sessionHex) w1)"

definition CloseSession :: "'w BrokerService \<Rightarrow> string \<Rightarrow> 'w \<Rightarrow> go_error option \<times> 'w" where
  "CloseSession s sessionID w =
     (case FindBySessionID (repo s) sessionID w of
        (Inl err, w1) \<Rightarrow> (Some err, w1)
      | (Inr runner, w1) \<Rightarrow> Delete (repo s) (RunnerID runner) w1)"

text \<open>The end of \<open>ResolveSession\<close>: a new session.\<close>

definition resolve_created ::
  "'w BrokerService \<Rightarrow> 'w ctx \<Rightarrow> bool \<Rightarrow> 'w \<Rightarrow> ((go_error + ResolveResult) \<times> 'w) option" where
  "resolve_created s ctxErr reassigned w =
     (case createSession s ctxErr w of
        None \<Rightarrow> None
      | Some (Inl err, w1) \<Rightarrow> Some (Inl err, w1)
      | Some (Inr res, w1) \<Rightarrow>
          Some (Inr \<lparr>SessionID = CreatedID res, SessionHex = CreatedHex res,
                     RunnerHost = PrivateHost (CreatedRunner res), Created = True,
                     Reassigned = reassigned\<rparr>, w1))"

definition ResolveSession ::
  "'w BrokerService \<Rightarrow> 'w ctx \<Rightarrow> string \<Rightarrow> 'w \<Rightarrow> ((go_error + ResolveResult) \<times> 'w) option" where
  "ResolveSession s ctxErr sessionID w =
     (if sessionID = [] then resolve_created s ctxErr False w
      else case FindBySessionID (repo s) sessionID w of
        (Inl err, w1) \<Rightarrow>
          if \<not> errors_Is err ErrNotFound then Some (Inl err, w1)
          else resolve_created s ctxErr False w1
      | (Inr runner, w1) \<Rightarrow>
          (case checker s (PrivateHost runner) w1 of
             (None, w2) \<Rightarrow>
               (case splitNamespacedSessionID sessionID of
                  (_, sessionHex, ok) \<Rightarrow>
                    if \<not> ok
                    then Some (Inl (ErrorString
                           (''resolve session: stored session id missing stack prefix: '' @
                            Quote sessionID)), w2)
                    else Some (Inr \<lparr>SessionID = sessionID, SessionHex = sessionHex,
                                    RunnerHost = PrivateHost runner, Created = False,
                                    Reassigned = False\<rparr>, w2))
           | (Some checkErr, w2) \<Rightarrow>
               (case ctxErr w2 of
                  Some err \<Rightarrow> Some (Inl err, w2)
                | None \<Rightarrow>
                    (case Delete (repo s) (RunnerID runner) w2 of
                       (Some err, w3) \<Rightarrow>
                         Some (Inl (Wrap (''delete unhealthy runner '' @ RunnerID runner @ '': '') err), w3)
                     | (None, w3) \<Rightarrow> resolve_created s ctxErr True w3))))"

definition LookupSession :: "'w BrokerService \<Rightarrow> string \<Rightarrow> 'w \<Rightarrow> (go_error + LookupResult) \<times> 'w" where
  "LookupSession s sessionHex w =
     (case FindBySessionID (repo s) (namespacedSessionID s sessionHex) w of
        (Inl err, w1) \<Rightarrow> (Inl err, w1)
      | (Inr runner, w1) \<Rightarrow> (Inr \<lparr>LookupHost = PrivateHost runner\<rparr>, w1))"

definition RegisterRunner :: "'w BrokerService \<Rightarrow> string \<Rightarrow> string \<Rightarrow> 'w \<Rightarrow> go_error option \<times> 'w" where
  "RegisterRunner s runnerID privateHost w = Register (repo s) runnerID privateHost w"

definition DeregisterRunner :: "'w BrokerService \<Rightarrow> string \<Rightarrow> 'w \<Rightarrow> go_error option \<times> 'w" where
  "DeregisterRunner s runnerID w = Delete (repo s) runnerID w"

definition ServiceListBusyRunners ::
  "'w BrokerService \<Rightarrow> 'w \<Rightarrow> ((go_error + Runner list) \<times> 'w) option" where
  "ServiceListBusyRunners s w = ListBusyRunners (repo s) w"

section \<open>Session IDs go both ways\<close>

lemma split_namespaced:
  "splitNamespacedSessionID (namespacedSessionID s hex) = (stackPrefix s, hex, True) \<longleftrightarrow>
   sessionIDSeparator \<notin> set (stackPrefix s)"
proof
  assume "splitNamespacedSessionID (namespacedSessionID s hex) = (stackPrefix s, hex, True)"
  then show "sessionIDSeparator \<notin> set (stackPrefix s)"
    unfolding splitNamespacedSessionID_def using Cut_True_D by blast
next
  assume "sessionIDSeparator \<notin> set (stackPrefix s)"
  then show "splitNamespacedSessionID (namespacedSessionID s hex) = (stackPrefix s, hex, True)"
    by (simp add: splitNamespacedSessionID_def namespacedSessionID_def Cut_append)
qed

lemma namespaced_neq_Nil [simp]: "namespacedSessionID s hex \<noteq> []"
  by (simp add: namespacedSessionID_def)

lemma split_namespaced_ok: "\<exists>p h. splitNamespacedSessionID (namespacedSessionID s hex) = (p, h, True)"
  by (simp add: splitNamespacedSessionID_def namespacedSessionID_def Cut_found_iff)

section \<open>The service while other brokers write\<close>

text \<open>
  \<open>shared_broker\<close> is a broker on a store that others use as well: every call of its parts is
  a run of the abstract store.
\<close>

locale shared_broker = repository "repo s" abs others + health_check "checker s" abs others
  for s :: "'w BrokerService" and abs :: "'w \<Rightarrow> runners" +
  assumes session_env: "sessionFn s w = (res, w') \<Longrightarrow> others (abs w) (abs w')"
begin

lemma acquire_others: "AcquireIdle (repo s) sid w = Some (res, w') \<Longrightarrow> sid \<noteq> [] \<Longrightarrow> others (abs w) (abs w')"
  using acquire_ok [of sid w _ w'] acquire_error [of sid w _ w']
  by (cases res) (blast intro: others_trans others_step)+

lemma delete_others: "Delete (repo s) rid w = (res, w') \<Longrightarrow> others (abs w) (abs w')"
  using delete_ok [of rid w w'] delete_error [of rid w _ w']
  by (cases res) (blast intro: others_trans others_step)+

lemma register_others: "Register (repo s) rid host w = (res, w') \<Longrightarrow> others (abs w) (abs w')"
  using register_ok [of rid host w w'] register_error [of rid host w _ w']
  by (cases res) (blast intro: others_trans others_step)+

definition gained :: "string \<Rightarrow> 'w \<Rightarrow> go_error + CreateSessionResult \<Rightarrow> 'w \<Rightarrow> bool" where
  "gained sid w res w' \<longleftrightarrow> others (abs w) (abs w') \<and>
     (case res of Inl e \<Rightarrow> True
      | Inr c \<Rightarrow> CreatedID c = sid \<and> State (CreatedRunner c) = StateBusy \<and>
          CurrentSessionID (CreatedRunner c) = sid \<and>
          (\<exists>t u. others (abs w) t \<and> store_step t (Assigned (RunnerID (CreatedRunner c)) sid) u \<and>
             others u (abs w')))"

lemma gained_after: "others (abs w) (abs w1) \<Longrightarrow> gained sid w1 res w2 \<Longrightarrow> gained sid w res w2"
  unfolding gained_def by (cases res) (simp_all, (blast intro: others_trans)+)

lemma acquire_healthy_gained:
  assumes ret: "acquire_healthy s ctxErr hex sid w = Some (res, w')" and ne: "sid \<noteq> []"
  shows "gained sid w res w'"
proof -
  have "s' = s \<and> sid \<noteq> [] \<longrightarrow> gained sid w (fst out) (snd out)"
    if "acquire_healthy s' ctxErr hex sid w = Some out" for s' out
  proof (rule acquire_healthy.raw_induct
      [where P = "\<lambda>s' ctxErr hex sid w out. s' = s \<and> sid \<noteq> [] \<longrightarrow> gained sid w (fst out) (snd out)", OF _ that],
      rule impI)
    fix f :: "'w BrokerService \<Rightarrow> 'w ctx \<Rightarrow> string \<Rightarrow> string \<Rightarrow> 'w \<Rightarrow>
        ((go_error + CreateSessionResult) \<times> 'w) option"
      and s' ctxErr hex sid w out
    assume IH: "\<And>s' ctxErr hex sid w out. f s' ctxErr hex sid w = Some out \<Longrightarrow> s' = s \<and> sid \<noteq> [] \<longrightarrow>
        gained sid w (fst out) (snd out)"
      and "s' = s \<and> sid \<noteq> []"
      and eq: "(case AcquireIdle (repo s') sid w of
        None \<Rightarrow> None
      | Some (Inl err, w1) \<Rightarrow> Some (Inl err, w1)
      | Some (Inr runner, w1) \<Rightarrow>
          (case checker s' (PrivateHost runner) w1 of
             (None, w2) \<Rightarrow>
               Some (Inr \<lparr>CreatedID = sid, CreatedHex = hex, CreatedRunner = runner\<rparr>, w2)
           | (Some checkErr, w2) \<Rightarrow>
               (case ctxErr w2 of
                  Some err \<Rightarrow> Some (Inl err, w2)
                | None \<Rightarrow>
                    (case Delete (repo s') (RunnerID runner) w2 of
                       (Some err, w3) \<Rightarrow>
                         Some (Inl (Wrap (''delete unhealthy runner '' @ RunnerID runner @ '': '') err), w3)
                     | (None, w3) \<Rightarrow> f s' ctxErr hex sid w3)))) = Some out"
    then have s: "s' = s" and sid: "sid \<noteq> []" by simp_all
    obtain acq w1 where acq: "AcquireIdle (repo s) sid w = Some (acq, w1)"
      using eq s by (cases "AcquireIdle (repo s) sid w") auto
    have e1: "others (abs w) (abs w1)" using acq sid by (rule acquire_others)
    show "gained sid w (fst out) (snd out)"
    proof (cases acq)
      case (Inl e)
      then have "out = (Inl e, w1)" using eq acq s by simp
      then show ?thesis using e1 by (simp add: gained_def)
    next
      case (Inr x)
      obtain chk w2 where chk: "checker s (PrivateHost x) w1 = (chk, w2)"
        by (cases "checker s (PrivateHost x) w1")
      have e2: "others (abs w1) (abs w2)" using chk by (rule check_env)
      show ?thesis
      proof (cases chk)
        case None
        then have "out = (Inr \<lparr>CreatedID = sid, CreatedHex = hex, CreatedRunner = x\<rparr>, w2)"
          using eq acq s Inr chk by simp
        then show ?thesis using acquire_ok [OF acq [unfolded Inr] sid] e1 e2
          by (simp add: gained_def del: store_step_Assigned) (blast intro: others_trans)
      next
        case (Some e)
        obtain del w3 where del: "Delete (repo s) (RunnerID x) w2 = (del, w3)"
          by (cases "Delete (repo s) (RunnerID x) w2")
        have e3: "others (abs w2) (abs w3)" using del by (rule delete_others)
        consider "out \<in> range (\<lambda>e. (Inl e, w2))" | "out \<in> range (\<lambda>e. (Inl e, w3))"
          | "f s ctxErr hex sid w3 = Some out"
          using eq acq s Inr chk Some del by (cases "ctxErr w2"; cases del) auto
        then show ?thesis
        proof cases
          case 3
          from IH [OF this] sid have "gained sid w3 (fst out) (snd out)" by simp
          moreover have "others (abs w) (abs w3)" using e1 e2 e3 by (blast intro: others_trans)
          ultimately show ?thesis by (rule gained_after [rotated])
        qed (use e1 e2 e3 in \<open>auto simp: gained_def intro: others_trans\<close>)
      qed
    qed
  qed
  from this [OF ret] ne show ?thesis by simp
qed

lemma createSession_gained:
  assumes "createSession s ctxErr w = Some (res, w')"
  shows "\<exists>sid. gained sid w res w'"
proof -
  obtain gen w1 where gen: "sessionFn s w = (gen, w1)" by (cases "sessionFn s w")
  then have e: "others (abs w) (abs w1)" by (rule session_env)
  show ?thesis
  proof (cases gen)
    case (Inl err)
    with assms gen e show ?thesis by (auto simp: createSession_def gained_def)
  next
    case (Inr hex)
    with assms gen have "acquire_healthy s ctxErr hex (namespacedSessionID s hex) w1 = Some (res, w')"
      by (simp add: createSession_def)
    from gained_after [OF e acquire_healthy_gained [OF this namespaced_neq_Nil]] show ?thesis by blast
  qed
qed

text \<open>Every operation of the service is a run of the abstract store.\<close>

lemma createSession_others: "createSession s ctxErr w = Some (res, w') \<Longrightarrow> others (abs w) (abs w')"
  using createSession_gained [of ctxErr w res w'] by (auto simp: gained_def)

lemma resolve_created_others:
  "resolve_created s ctxErr re w = Some (res, w') \<Longrightarrow> others (abs w) (abs w')"
  by (auto simp: resolve_created_def split: option.splits sum.splits dest: createSession_others)

lemma ResolveSession_others:
  assumes ret: "ResolveSession s ctxErr sid w = Some (res, w')"
  shows "others (abs w) (abs w')"
proof (cases "sid = []")
  case True
  then show ?thesis using ret by (simp add: ResolveSession_def resolve_created_others)
next
  case False
  obtain found w1 where find: "FindBySessionID (repo s) sid w = (found, w1)"
    by (cases "FindBySessionID (repo s) sid w")
  have e1: "others (abs w) (abs w1)" using find by (rule find_session_env)
  show ?thesis
  proof (cases found)
    case (Inl e)
    with ret False find have "w' = w1 \<or> resolve_created s ctxErr False w1 = Some (res, w')"
      by (auto simp: ResolveSession_def split: if_splits)
    with e1 show ?thesis by (auto dest: resolve_created_others others_trans)
  next
    case (Inr x)
    obtain chk w2 where chk: "checker s (PrivateHost x) w1 = (chk, w2)"
      by (cases "checker s (PrivateHost x) w1")
    obtain del w3 where del: "Delete (repo s) (RunnerID x) w2 = (del, w3)"
      by (cases "Delete (repo s) (RunnerID x) w2")
    have e2: "others (abs w) (abs w2)" using e1 check_env [OF chk] by (rule others_trans)
    then have e3: "others (abs w) (abs w3)" using delete_others [OF del] by (rule others_trans)
    consider "w' = w2" | "w' = w3" | "resolve_created s ctxErr True w3 = Some (res, w')"
      using ret False find Inr chk del
      by (cases chk; cases "ctxErr w2"; cases del)
        (auto simp: ResolveSession_def split: prod.splits if_splits)
    then show ?thesis by cases (use e2 e3 in \<open>auto dest: resolve_created_others others_trans\<close>)
  qed
qed

lemma CloseSession_others: "CloseSession s sid w = (res, w') \<Longrightarrow> others (abs w) (abs w')"
  by (auto simp: CloseSession_def split: prod.splits sum.splits
      dest: find_session_env delete_others intro: others_trans)

end

section \<open>The service on a settled store\<close>

text \<open>
  What \<open>createSession\<close> has done to the store when it returns the runner \<open>r\<close>: some idle runners
  are gone, and \<open>r\<close>, which was idle too, has the session.
\<close>

definition assigned_in :: "runners \<Rightarrow> string \<Rightarrow> Runner \<Rightarrow> runners \<Rightarrow> bool" where
  "assigned_in t sid r t' \<longleftrightarrow>
     (\<exists>r0 D. D \<subseteq> idle_ids t \<and> RunnerID r \<notin> D \<and> t (RunnerID r) = Some r0 \<and> IsIdle r0 \<and>
        r = assigned sid r0 \<and> t' = (without D t)(RunnerID r \<mapsto> r))"

lemma assigned_in_first:
  "t (RunnerID r) = Some r0 \<Longrightarrow> IsIdle r0 \<Longrightarrow> r = assigned sid r0 \<Longrightarrow>
   assigned_in t sid r (t(RunnerID r \<mapsto> r))"
  unfolding assigned_in_def by (intro exI [of _ r0] exI [of _ "{}"]) simp

lemma assigned_in_later:
  assumes "assigned_in (t(rid := None)) sid r t'" and "rid \<in> idle_ids t"
  shows "assigned_in t sid r t'"
proof -
  from assms(1) obtain r0 D where "D \<subseteq> idle_ids t - {rid}" "RunnerID r \<notin> D"
    "(t(rid := None)) (RunnerID r) = Some r0" "IsIdle r0" "r = assigned sid r0"
    "t' = (without D (t(rid := None)))(RunnerID r \<mapsto> r)"
    by (auto simp: assigned_in_def)
  then show ?thesis using assms(2) unfolding assigned_in_def
    by (intro exI [of _ r0] exI [of _ "insert rid D"]) (auto simp: without_insert split: if_splits)
qed

lemma assigned_in_busy:
  "assigned_in t sid r t' \<Longrightarrow> t rid = Some x \<Longrightarrow> \<not> IsIdle x \<Longrightarrow> t' rid = Some x"
  by (auto simp: assigned_in_def without_busy)

lemma assigned_in_self: "assigned_in t sid r t' \<Longrightarrow> t' (RunnerID r) = Some r"
  by (auto simp: assigned_in_def)

lemma assigned_in_D:
  "assigned_in t sid r t' \<Longrightarrow> (\<exists>r0. t (RunnerID r) = Some r0 \<and> IsIdle r0 \<and> r = assigned sid r0) \<and>
     t' (RunnerID r) = Some r \<and> CurrentSessionID r = sid"
  by (auto simp: assigned_in_def assigned_def)

text \<open>The runners with a session, which no other session may disturb.\<close>

definition keeps_busy :: "runners \<Rightarrow> runners \<Rightarrow> bool" where
  "keeps_busy t t' \<longleftrightarrow> (\<forall>rid x. t rid = Some x \<and> \<not> IsIdle x \<longrightarrow> t' rid = Some x)"

lemma keeps_busy_refl [simp]: "keeps_busy t t"
  by (simp add: keeps_busy_def)

lemma keeps_busy_trans: "keeps_busy t u \<Longrightarrow> keeps_busy u v \<Longrightarrow> keeps_busy t v"
  by (simp add: keeps_busy_def)

lemma keeps_busy_assign: "store_step t (Assigned rid sid) t' \<Longrightarrow> keeps_busy t t'"
  by (auto simp: keeps_busy_def)

lemma keeps_busy_delete: "rid \<in> idle_ids t \<Longrightarrow> keeps_busy t (t(rid := None))"
  by (auto simp: keeps_busy_def idle_ids_def)

lemma assigned_in_keeps_busy: "assigned_in t sid r t' \<Longrightarrow> keeps_busy t t'"
  by (auto simp: keeps_busy_def intro: assigned_in_busy)

text \<open>
  What a call that ends in an error leaves behind: some idle runners are gone, and at most one that
  was idle has the session.
\<close>

definition leftover :: "runners \<Rightarrow> string \<Rightarrow> runners \<Rightarrow> bool" where
  "leftover t sid t' \<longleftrightarrow>
     (\<exists>D \<subseteq> idle_ids t. t' = without D t \<or>
        (\<exists>rid r. rid \<notin> D \<and> t rid = Some r \<and> IsIdle r \<and> t' = (without D t)(rid \<mapsto> assigned sid r)))"

lemma leftover_none: "D \<subseteq> idle_ids t \<Longrightarrow> leftover t sid (without D t)"
  by (auto simp: leftover_def)

lemma leftover_same [simp]: "leftover t sid t"
  using leftover_none [of "{}" t sid] by simp

lemma leftover_assigned: "t rid = Some r \<Longrightarrow> IsIdle r \<Longrightarrow> leftover t sid (t(rid \<mapsto> assigned sid r))"
  unfolding leftover_def by (intro exI [of _ "{}"]) auto

lemma leftover_deleted: "rid \<in> idle_ids t \<Longrightarrow> leftover t sid (t(rid := None))"
  using leftover_none [of "{rid}" t sid] by (simp add: without_insert)

lemma leftover_later:
  assumes "leftover (t(rid := None)) sid t'" and "rid \<in> idle_ids t"
  shows "leftover t sid t'"
proof -
  from assms(1) obtain D where D: "D \<subseteq> idle_ids (t(rid := None))"
    "t' = without D (t(rid := None)) \<or> (\<exists>q r. q \<notin> D \<and> (t(rid := None)) q = Some r \<and> IsIdle r \<and>
       t' = (without D (t(rid := None)))(q \<mapsto> assigned sid r))"
    unfolding leftover_def by blast
  have "insert rid D \<subseteq> idle_ids t" using D(1) assms(2) by auto
  moreover have "t' = without (insert rid D) t \<or> (\<exists>q r. q \<notin> insert rid D \<and> t q = Some r \<and> IsIdle r \<and>
      t' = (without (insert rid D) t)(q \<mapsto> assigned sid r))"
    using D(2) unfolding without_insert by (metis fun_upd_apply insert_iff option.distinct(1))
  ultimately show ?thesis unfolding leftover_def by blast
qed

text \<open>The hex part of a session: 16 bytes, as \<open>defaultSessionFn\<close> writes them.\<close>

definition session_hex :: "string \<Rightarrow> bool" where
  "session_hex hex \<longleftrightarrow> length hex = 32 \<and> list_all is_hex_lower hex"

lemma session_hex_EncodeToString: "length b = 16 \<Longrightarrow> session_hex (EncodeToString b)"
  using runnerIDRe_EncodeToString [of b] by (simp add: session_hex_def runnerIDRe_def)

locale settled_broker =
  settled_repository "repo s" abs synced + health_check "checker s" abs "(=)"
  for s :: "'w BrokerService" and abs :: "'w \<Rightarrow> runners" and synced :: "'w \<Rightarrow> bool" +
  fixes ctxErr :: "'w ctx"
  assumes session_keeps: "sessionFn s w = (res, w') \<Longrightarrow> abs w' = abs w"
    and session_form: "sessionFn s w = (Inr hex, w') \<Longrightarrow> session_hex hex"
    and session_error: "sessionFn s w = (Inl e, w') \<Longrightarrow> \<not> errors_Is e ErrNoIdleRunner"
    and ctx_error: "ctxErr w = Some e \<Longrightarrow> \<not> errors_Is e ErrNoIdleRunner"
begin

definition created :: "string \<Rightarrow> string \<Rightarrow> runners \<Rightarrow> go_error + CreateSessionResult \<Rightarrow> 'w \<Rightarrow> bool" where
  "created hex sid t res w' \<longleftrightarrow>
     (case res of
        Inr c \<Rightarrow> CreatedHex c = hex \<and> CreatedID c = sid \<and> assigned_in t sid (CreatedRunner c) (abs w') \<and>
          (\<exists>w1. checker s (PrivateHost (CreatedRunner c)) w1 = (None, w'))
      | Inl e \<Rightarrow> keeps_busy t (abs w') \<and> leftover t sid (abs w') \<and>
          (errors_Is e ErrNoIdleRunner \<longrightarrow> abs w' = without (idle_ids t) t))"

lemma created_later:
  assumes "created hex sid (t(rid := None)) res w'" and "rid \<in> idle_ids t"
  shows "created hex sid t res w'"
proof (cases res)
  case (Inl e)
  have "without (idle_ids t - {rid}) (t(rid := None)) = without (idle_ids t) t"
    using assms(2) by (metis insert_Diff without_insert)
  with Inl assms show ?thesis
    by (auto simp: created_def intro: keeps_busy_trans keeps_busy_delete leftover_later)
next
  case (Inr c)
  with assms show ?thesis by (auto simp: created_def intro: assigned_in_later)
qed

lemma acquire_healthy_settled:
  assumes sid: "sid \<noteq> []"
  shows "\<exists>res w'. acquire_healthy s ctxErr hex sid w = Some (res, w') \<and> created hex sid (abs w) res w'"
proof (induction "card (dom (abs w))" arbitrary: w rule: less_induct)
  case less
  obtain acq w1 where acq: "AcquireIdle (repo s) sid w = Some (acq, w1)"
    using acquire_total [OF sid, of w] by (cases "AcquireIdle (repo s) sid w") auto
  show ?case
  proof (cases acq)
    case (Inl e)
    have "keeps_busy (abs w) (abs w1)"
      using acquire_error [OF acq [unfolded Inl] sid] keeps_busy_assign
      by (auto simp del: store_step_Assigned)
    moreover have "abs w1 = without (idle_ids (abs w)) (abs w)" if "errors_Is e ErrNoIdleRunner"
    proof -
      have "idle_ids (abs w) = {}"
        using acquire_none [OF acq [unfolded Inl] sid that] by (auto simp: idle_ids_def)
      then show ?thesis using acquire_noop [OF acq [unfolded Inl] sid that] by simp
    qed
    moreover have "acquire_healthy s ctxErr hex sid w = Some (Inl e, w1)"
      by (subst acquire_healthy.simps) (simp add: acq Inl)
    moreover have "leftover (abs w) sid (abs w1)"
      using acquire_error [OF acq [unfolded Inl] sid] by (auto intro: leftover_assigned)
    ultimately show ?thesis by (auto simp: created_def)
  next
    case (Inr x)
    from acquire_step [OF acq [unfolded Inr] sid] obtain r0
      where x: "abs w (RunnerID x) = Some r0" "IsIdle r0" "x = assigned sid r0"
        and a1: "abs w1 = (abs w)(RunnerID x \<mapsto> x)" by blast
    have idle: "RunnerID x \<in> idle_ids (abs w)" using x by (auto simp: idle_ids_def)
    obtain chk w2 where chk: "checker s (PrivateHost x) w1 = (chk, w2)"
      by (cases "checker s (PrivateHost x) w1")
    have a2: "abs w2 = (abs w)(RunnerID x \<mapsto> x)" using check_env [OF chk] a1 by simp
    have kb: "keeps_busy (abs w) (abs w2)"
      unfolding a2 using x by (auto simp: keeps_busy_def)
    have left: "leftover (abs w) sid (abs w2)" unfolding a2 using leftover_assigned [of "abs w" "RunnerID x" r0 sid] x by simp
    show ?thesis
    proof (cases chk)
      case None
      have "acquire_healthy s ctxErr hex sid w =
          Some (Inr \<lparr>CreatedID = sid, CreatedHex = hex, CreatedRunner = x\<rparr>, w2)"
        by (subst acquire_healthy.simps) (simp add: acq Inr chk None)
      moreover have "assigned_in (abs w) sid x (abs w2)"
        unfolding a2 using x by (rule assigned_in_first)
      ultimately show ?thesis using chk None by (auto simp: created_def)
    next
      case (Some ce)
      obtain del w3 where del: "Delete (repo s) (RunnerID x) w2 = (del, w3)"
        by (cases "Delete (repo s) (RunnerID x) w2")
      have step: "acquire_healthy s ctxErr hex sid w =
          (case ctxErr w2 of
             Some err \<Rightarrow> Some (Inl err, w2)
           | None \<Rightarrow> (case del of
               Some err \<Rightarrow> Some (Inl (Wrap (''delete unhealthy runner '' @ RunnerID x @ '': '') err), w3)
             | None \<Rightarrow> acquire_healthy s ctxErr hex sid w3))"
        by (subst acquire_healthy.simps) (simp add: acq Inr chk Some del split: option.split)
      have kd: "keeps_busy (abs w) ((abs w)(RunnerID x := None))" using idle by (rule keeps_busy_delete)
      show ?thesis
      proof (cases "ctxErr w2")
        case (Some err)
        then show ?thesis using step kb left ctx_error [OF Some] by (auto simp: created_def)
      next
        case ctx: None
        show ?thesis
        proof (cases del)
          case (Some err)
          have "keeps_busy (abs w) (abs w3)"
            using delete_error [OF del [unfolded Some]] kb kd a2 by auto
          moreover have "leftover (abs w) sid (abs w3)"
            using delete_error [OF del [unfolded Some]] left leftover_deleted [OF idle] a2 by auto
          ultimately show ?thesis using step ctx Some delete_error [OF del [unfolded Some]]
            by (auto simp: created_def)
        next
          case None
          have a3: "abs w3 = (abs w)(RunnerID x := None)"
            using delete_step [OF del [unfolded None]] a2 by simp
          have "card (dom (abs w3)) < card (dom (abs w))"
            unfolding a3 by (rule card_dom_restrict_less [OF finite_store]) (use x in auto)
          from less.hyps [OF this] obtain res w'
            where "acquire_healthy s ctxErr hex sid w3 = Some (res, w')"
              and "created hex sid (abs w3) res w'" by blast
          then show ?thesis using step ctx None idle a3 by (auto intro: created_later)
        qed
      qed
    qed
  qed
qed

text \<open>\<open>createSession\<close> returns, and this is what it has done.\<close>

lemma createSession_settled:
  "\<exists>res w'. createSession s ctxErr w = Some (res, w') \<and>
    (\<exists>hex. session_hex hex \<and> created hex (namespacedSessionID s hex) (abs w) res w' \<or>
       (\<exists>e. res = Inl e \<and> \<not> errors_Is e ErrNoIdleRunner \<and> abs w' = abs w))"
proof -
  obtain gen w1 where gen: "sessionFn s w = (gen, w1)" by (cases "sessionFn s w")
  have same: "abs w1 = abs w" using gen by (rule session_keeps)
  show ?thesis
  proof (cases gen)
    case (Inl e)
    then show ?thesis using gen same session_error [of w e w1] by (simp add: createSession_def)
  next
    case (Inr hex)
    with gen have "createSession s ctxErr w =
        acquire_healthy s ctxErr hex (namespacedSessionID s hex) w1"
      by (simp add: createSession_def)
    with acquire_healthy_settled [of "namespacedSessionID s hex" hex w1] same session_form [OF gen [unfolded Inr]]
    show ?thesis by auto
  qed
qed

lemma createSession_ok:
  assumes "createSession s ctxErr w = Some (Inr c, w')"
  shows "CreatedID c = namespacedSessionID s (CreatedHex c) \<and> session_hex (CreatedHex c) \<and>
    assigned_in (abs w) (CreatedID c) (CreatedRunner c) (abs w') \<and>
    (\<exists>w1. checker s (PrivateHost (CreatedRunner c)) w1 = (None, w'))"
  using createSession_settled [of w] assms by (auto simp: created_def)

lemma createSession_error:
  assumes "createSession s ctxErr w = Some (Inl e, w')"
  shows "keeps_busy (abs w) (abs w') \<and>
    (errors_Is e ErrNoIdleRunner \<longrightarrow> abs w' = without (idle_ids (abs w)) (abs w))"
  using createSession_settled [of w] assms by (auto simp: created_def)

lemma createSession_leftover:
  assumes "createSession s ctxErr w = Some (Inl e, w')"
  shows "\<exists>hex. leftover (abs w) (namespacedSessionID s hex) (abs w')"
  using createSession_settled [of w] assms by (auto simp: created_def)

lemma createSession_total: "createSession s ctxErr w \<noteq> None"
  using createSession_settled [of w] by auto

lemma resolve_created_total: "resolve_created s ctxErr re w \<noteq> None"
  using createSession_total [of w] by (auto simp: resolve_created_def split: option.splits sum.splits)

text \<open>What \<open>ResolveSession\<close> does on every branch.\<close>

definition resolved_new :: "runners \<Rightarrow> bool \<Rightarrow> go_error + ResolveResult \<Rightarrow> 'w \<Rightarrow> bool" where
  "resolved_new t re res w' \<longleftrightarrow>
     (case res of
        Inr v \<Rightarrow> Created v \<and> Reassigned v = re \<and> SessionID v = namespacedSessionID s (SessionHex v) \<and>
          session_hex (SessionHex v) \<and> (\<exists>x w1. assigned_in t (SessionID v) x (abs w') \<and> RunnerHost v = PrivateHost x \<and>
             checker s (RunnerHost v) w1 = (None, w'))
      | Inl e \<Rightarrow> keeps_busy t (abs w') \<and> (\<exists>hex. leftover t (namespacedSessionID s hex) (abs w')) \<and>
          (errors_Is e ErrNoIdleRunner \<longrightarrow> abs w' = without (idle_ids t) t))"

lemma resolve_created_new:
  assumes ret: "resolve_created s ctxErr re w = Some (res, w')"
  shows "resolved_new (abs w) re res w'"
proof (cases res)
  case (Inl e)
  with ret have "createSession s ctxErr w = Some (Inl e, w')"
    by (auto simp: resolve_created_def split: option.splits sum.splits)
  then show ?thesis using createSession_error createSession_leftover Inl by (simp add: resolved_new_def)
next
  case (Inr v)
  with ret obtain c where "createSession s ctxErr w = Some (Inr c, w')"
    and "v = \<lparr>SessionID = CreatedID c, SessionHex = CreatedHex c,
              RunnerHost = PrivateHost (CreatedRunner c), Created = True, Reassigned = re\<rparr>"
    by (auto simp: resolve_created_def split: option.splits sum.splits)
  then show ?thesis using createSession_ok [of w c w'] Inr by (auto simp: resolved_new_def)
qed

lemma resolve_found:
  assumes sync: "synced w" and ne: "sid \<noteq> []"
    and find: "FindBySessionID (repo s) sid w = (Inr x, w1)"
    and chk: "checker s (PrivateHost x) w1 = (None, w2)"
    and sep: "splitNamespacedSessionID sid = (p, hex, True)"
  shows "ResolveSession s ctxErr sid w =
      Some (Inr \<lparr>SessionID = sid, SessionHex = hex, RunnerHost = PrivateHost x,
                 Created = False, Reassigned = False\<rparr>, w2) \<and>
    abs w2 = abs w \<and> abs w (RunnerID x) = Some x \<and> CurrentSessionID x = sid"
  using assms find_session_ok [OF sync find] find_session_same [OF find] check_env [OF chk]
  by (simp add: ResolveSession_def)

lemma ResolveSession_cases:
  assumes ret: "ResolveSession s ctxErr sid w = Some (res, w')" and sync: "synced w"
  obtains
    (error) e where "res = Inl e" "\<not> errors_Is e ErrNoIdleRunner" "abs w' = abs w" "sid \<noteq> []"
  | (fresh) "resolved_new (abs w) False res w'"
      "sid = [] \<or> (\<forall>rid x. abs w rid = Some x \<longrightarrow> CurrentSessionID x \<noteq> sid)"
  | (kept) x p hex w1 where "abs w (RunnerID x) = Some x" "CurrentSessionID x = sid" "sid \<noteq> []"
      "splitNamespacedSessionID sid = (p, hex, True)" "abs w' = abs w"
      "checker s (PrivateHost x) w1 = (None, w')"
      "res = Inr \<lparr>SessionID = sid, SessionHex = hex, RunnerHost = PrivateHost x,
                  Created = False, Reassigned = False\<rparr>"
  | (removal_error) x e where "abs w (RunnerID x) = Some x" "CurrentSessionID x = sid" "sid \<noteq> []"
      "res = Inl e" "\<not> errors_Is e ErrNoIdleRunner"
      "abs w' = abs w \<or> abs w' = (abs w)(RunnerID x := None)"
  | (moved) x where "abs w (RunnerID x) = Some x" "CurrentSessionID x = sid" "sid \<noteq> []"
      "resolved_new ((abs w)(RunnerID x := None)) True res w'"
proof (cases "sid = []")
  case True
  with ret have "resolved_new (abs w) False res w'"
    by (simp add: ResolveSession_def resolve_created_new)
  with True show ?thesis by (intro fresh) auto
next
  case ne: False
  obtain found w1 where find: "FindBySessionID (repo s) sid w = (found, w1)"
    by (cases "FindBySessionID (repo s) sid w")
  have a1: "abs w1 = abs w" using find by (rule find_session_same)
  show ?thesis
  proof (cases found)
    case (Inl e)
    show ?thesis
    proof (cases "errors_Is e ErrNotFound")
      case True
      with ret ne find Inl have "resolve_created s ctxErr False w1 = Some (res, w')"
        by (simp add: ResolveSession_def)
      from resolve_created_new [OF this] have "resolved_new (abs w) False res w'" by (simp add: a1)
      then show ?thesis using find_session_none [OF sync find [unfolded Inl] True ne] by (intro fresh) auto
    next
      case False
      then show ?thesis using ret ne find Inl a1 find_session_error [OF find [unfolded Inl]]
        by (intro error) (auto simp: ResolveSession_def)
    qed
  next
    case (Inr x)
    have x: "abs w (RunnerID x) = Some x" "CurrentSessionID x = sid"
      using find_session_ok [OF sync find [unfolded Inr]] by simp_all
    obtain chk w2 where chk: "checker s (PrivateHost x) w1 = (chk, w2)"
      by (cases "checker s (PrivateHost x) w1")
    have a2: "abs w2 = abs w" using check_env [OF chk] a1 by simp
    obtain p hex ok where sp: "splitNamespacedSessionID sid = (p, hex, ok)"
      by (cases "splitNamespacedSessionID sid")
    show ?thesis
    proof (cases chk)
      case None
      then show ?thesis using ret ne find Inr chk sp a2 x
        by (cases ok) (auto simp: ResolveSession_def intro: kept error)
    next
      case (Some ce)
      obtain del w3 where del: "Delete (repo s) (RunnerID x) w2 = (del, w3)"
        by (cases "Delete (repo s) (RunnerID x) w2")
      have res: "Some (res, w') = (case ctxErr w2 of
             Some err \<Rightarrow> Some (Inl err, w2)
           | None \<Rightarrow> (case del of
               Some err \<Rightarrow> Some (Inl (Wrap (''delete unhealthy runner '' @ RunnerID x @ '': '') err), w3)
             | None \<Rightarrow> resolve_created s ctxErr True w3))"
        using ret ne find Inr chk Some del by (simp add: ResolveSession_def split: option.splits)
      show ?thesis
      proof (cases "ctxErr w2")
        case (Some err)
        then show ?thesis using res ne a2 ctx_error [OF Some] by (intro error) auto
      next
        case ctx: None
        show ?thesis
        proof (cases del)
          case (Some err)
          then show ?thesis using res ctx x ne a2 delete_error [OF del [unfolded Some]]
            by (intro removal_error) auto
        next
          case None
          have "resolve_created s ctxErr True w3 = Some (res, w')" using res ctx None by simp
          from resolve_created_new [OF this] show ?thesis
            using x ne delete_step [OF del [unfolded None]] a2 by (intro moved) simp_all
        qed
      qed
    qed
  qed
qed

lemma ResolveSession_total: "ResolveSession s ctxErr sid w \<noteq> None"
  by (auto simp: ResolveSession_def resolve_created_total simp del: not_None_eq
      split: prod.splits sum.splits option.splits)

lemma resolved_new_keeps_busy: "resolved_new t re res w' \<Longrightarrow> keeps_busy t (abs w')"
  by (auto simp: resolved_new_def dest: assigned_in_keeps_busy split: sum.splits)

text \<open>No other session loses its runner.\<close>

lemma ResolveSession_frame:
  assumes ret: "ResolveSession s ctxErr sid w = Some (res, w')" and sync: "synced w"
    and y: "abs w rid = Some y" "\<not> IsIdle y" "CurrentSessionID y \<noteq> sid"
  shows "abs w' rid = Some y"
  using ret sync
proof (cases rule: ResolveSession_cases)
  case (moved x)
  have "((abs w)(RunnerID x := None)) rid = Some y" using moved(1,2) y by auto
  then show ?thesis using resolved_new_keeps_busy [OF moved(4)] y(2) unfolding keeps_busy_def by blast
next
  case fresh
  then show ?thesis using resolved_new_keeps_busy [OF fresh(1)] y unfolding keeps_busy_def by blast
qed (use y in \<open>auto split: if_splits\<close>)

lemma CloseSession_ok:
  assumes "synced w" and "CloseSession s sid w = (None, w')"
  shows "\<exists>rid x. abs w rid = Some x \<and> CurrentSessionID x = sid \<and> abs w' = (abs w)(rid := None)"
proof -
  obtain x w1 where find: "FindBySessionID (repo s) sid w = (Inr x, w1)"
    and del: "Delete (repo s) (RunnerID x) w1 = (None, w')"
    using assms(2) by (auto simp: CloseSession_def split: prod.splits sum.splits)
  show ?thesis
    using find_session_ok [OF assms(1) find] find_session_same [OF find] delete_step [OF del] by auto
qed

end

end
