(* ===== verification/Broker_Handler.thy ===== *)
theory Broker_Handler
  imports Broker_Service Stacklist
begin

text \<open>
  \<open>broker/handler\<close>: the HTTP handlers of the broker and the middleware that gives every
  request an ID. A gin context is a record of what the handlers read of the request and of
  what they have written so far; gin's own encoding of cookies, headers and JSON stays outside.
\<close>

section \<open>The gin context\<close>

record registerRequest =
  RequestRunnerID :: string
  RequestPrivateHost :: string

record Cookie =
  CookieName :: string
  CookieValue :: string
  CookieMaxAge :: int
  CookiePath :: string
  CookieDomain :: string
  CookieSecure :: bool
  CookieHttpOnly :: bool
  CookieSameSiteStrict :: bool

record busyRunnerView =
  ViewRunnerID :: string

record busyRunnersResponse =
  ResponseRunners :: "busyRunnerView list"

datatype Body =
    NoBody
  | Text string
  | ErrorBody ErrorResponse
  | BusyRunners busyRunnersResponse

text \<open>
  The request: cookies, path parameters and headers by name, the host, and what decoding its
  JSON body gives. The response: status, headers by name, cookies and body. \<open>keys\<close> is the
  store of \<open>c.Set\<close> and \<open>c.Get\<close>, \<open>samesite\<close> what \<open>c.SetSameSite\<close> left, and \<open>logged\<close> the lines
  given to \<open>log.Printf\<close>.
\<close>

record gin =
  cookies :: "string \<rightharpoonup> string"
  params :: "string \<Rightarrow> string"
  req_headers :: "string \<Rightarrow> string"
  req_host :: string
  json :: "go_error + registerRequest"
  keys :: "string \<rightharpoonup> string"
  status :: nat
  headers :: "string \<rightharpoonup> string"
  set_cookies :: "Cookie list"
  body :: Body
  samesite_strict :: bool
  logged :: "string list"

definition gin_Status :: "nat \<Rightarrow> gin \<Rightarrow> gin" where
  "gin_Status code c = c\<lparr>status := code\<rparr>"

text \<open>\<open>c.Header(k, "")\<close> removes the header.\<close>

definition gin_Header :: "string \<Rightarrow> string \<Rightarrow> gin \<Rightarrow> gin" where
  "gin_Header k v c = c\<lparr>headers := (headers c)(k := if v = [] then None else Some v)\<rparr>"

definition gin_JSON :: "nat \<Rightarrow> Body \<Rightarrow> gin \<Rightarrow> gin" where
  "gin_JSON code b c = c\<lparr>status := code, body := b\<rparr>"

definition gin_SetCookie ::
  "string \<Rightarrow> string \<Rightarrow> int \<Rightarrow> string \<Rightarrow> string \<Rightarrow> bool \<Rightarrow> bool \<Rightarrow> gin \<Rightarrow> gin" where
  "gin_SetCookie name v maxAge path domain secure httpOnly c =
     c\<lparr>set_cookies := set_cookies c @
        [\<lparr>CookieName = name, CookieValue = v, CookieMaxAge = maxAge, CookiePath = path,
          CookieDomain = domain, CookieSecure = secure, CookieHttpOnly = httpOnly,
          CookieSameSiteStrict = samesite_strict c\<rparr>]\<rparr>"

text \<open>
  \<open>ShouldBindJSON\<close>: the error of decoding, or that of the validator for the \<open>binding:"required"\<close>
  fields that have their zero value, one line for each, and else the request.
\<close>

definition ShouldBindJSON :: "gin \<Rightarrow> go_error + registerRequest" where
  "ShouldBindJSON c =
     (case json c of
        Inl err \<Rightarrow> Inl err
      | Inr req \<Rightarrow>
          (let absent = (if RequestRunnerID req = [] then [field_required ''registerRequest'' ''RunnerID''] else []) @
                 (if RequestPrivateHost req = [] then [field_required ''registerRequest'' ''PrivateHost''] else [])
           in if absent \<noteq> [] then Inl (ErrorString (Join absent [nl])) else Inr req))"

section \<open>The service as the handlers see it\<close>

record 'w Service =
  svc_CloseSession :: "string \<Rightarrow> 'w \<Rightarrow> go_error option \<times> 'w"
  svc_ResolveSession :: "string \<Rightarrow> 'w \<Rightarrow> ((go_error + ResolveResult) \<times> 'w) option"
  svc_LookupSession :: "string \<Rightarrow> 'w \<Rightarrow> (go_error + LookupResult) \<times> 'w"
  svc_RegisterRunner :: "string \<Rightarrow> string \<Rightarrow> 'w \<Rightarrow> go_error option \<times> 'w"
  svc_DeregisterRunner :: "string \<Rightarrow> 'w \<Rightarrow> go_error option \<times> 'w"
  svc_ListBusyRunners :: "'w \<Rightarrow> ((go_error + Runner list) \<times> 'w) option"

definition broker_Service :: "'w BrokerService \<Rightarrow> 'w ctx \<Rightarrow> 'w Service" where
  "broker_Service s ctxErr =
     \<lparr>svc_CloseSession = CloseSession s, svc_ResolveSession = ResolveSession s ctxErr,
      svc_LookupSession = LookupSession s, svc_RegisterRunner = RegisterRunner s,
      svc_DeregisterRunner = DeregisterRunner s, svc_ListBusyRunners = ServiceListBusyRunners s\<rparr>"

record 'w Handler =
  svc :: "'w Service"
  fallbackStacks :: "string list"
  stackSelf :: string

definition NewHandler :: "'w Service option \<Rightarrow> string list \<Rightarrow> string \<Rightarrow> panic + 'w Handler" where
  "NewHandler service fallbacks self =
     (case service of
        None \<Rightarrow> Inl ''handler: nil service''
      | Some sv \<Rightarrow>
          if self = [] then Inl ''handler: empty stackSelf''
          else Inr \<lparr>svc = sv, fallbackStacks = fallbacks, stackSelf = self\<rparr>)"

section \<open>Constants and checks\<close>

text \<open>The regular expressions \<open>^[A-Za-z0-9.-]+$\<close> and \<open>^[0-9a-f]{32}$\<close>.\<close>

definition is_host_char :: "char \<Rightarrow> bool" where
  "is_host_char c \<longleftrightarrow> in_range (CHR ''A'') (CHR ''Z'') c \<or> in_range (CHR ''a'') (CHR ''z'') c \<or>
     is_digit c \<or> c = CHR ''.'' \<or> c = CHR ''-''"

definition runnerHostRe :: "string \<Rightarrow> bool" where
  "runnerHostRe s \<longleftrightarrow> s \<noteq> [] \<and> list_all is_host_char s"

definition sessionHexRe :: "string \<Rightarrow> bool" where
  "sessionHexRe s \<longleftrightarrow> length s = 32 \<and> list_all is_hex_lower s"

definition sessionIDCookie :: string where "sessionIDCookie = ''session_id''"
definition fallbackStackHeader :: string where "fallbackStackHeader = ''X-Fallback-Stack''"
definition fallbackRemainingHeader :: string where "fallbackRemainingHeader = ''X-Fallback-Remaining''"
definition runnerHostHeader :: string where "runnerHostHeader = ''X-Runner-Host''"
definition reassignedHeader :: string where "reassignedHeader = ''X-Session-Reassigned''"
definition sessionHexHeader :: string where "sessionHexHeader = ''X-Session-Hex''"
definition stackNameHeader :: string where "stackNameHeader = ''X-Stack-Name''"
definition requestIDKey :: string where "requestIDKey = ''requestId''"

lemmas header_defs = fallbackStackHeader_def fallbackRemainingHeader_def runnerHostHeader_def
  reassignedHeader_def sessionHexHeader_def stackNameHeader_def

definition extractSessionHex :: "string \<Rightarrow> string \<times> bool" where
  "extractSessionHex h =
     (case Cut h (CHR ''.'') of
        (label, _, ok) \<Rightarrow>
          if \<not> ok then ([], False)
          else if \<not> sessionHexRe label then ([], False)
          else (label, True))"

definition validateRunnerHost :: "string \<Rightarrow> go_error option" where
  "validateRunnerHost h =
     (if h = [] then Some (ErrorString ''host is required'')
      else if \<not> runnerHostRe h then Some (ErrorString ''host must be hostname-style'')
      else None)"

definition requestID :: "gin \<Rightarrow> string" where
  "requestID c = (case keys c requestIDKey of None \<Rightarrow> [] | Some rid \<Rightarrow> rid)"

definition sessionCookie :: "gin \<Rightarrow> string" where
  "sessionCookie c = (case cookies c sessionIDCookie of None \<Rightarrow> [] | Some v \<Rightarrow> v)"

definition writeError :: "gin \<Rightarrow> nat \<Rightarrow> string \<Rightarrow> string \<Rightarrow> gin" where
  "writeError c code ecode message =
     gin_JSON code (ErrorBody \<lparr>Code = ecode, Message = message, RequestID = requestID c\<rparr>) c"

section \<open>The handlers\<close>

definition DeleteSession :: "'w Handler \<Rightarrow> gin \<Rightarrow> 'w \<Rightarrow> gin \<times> 'w" where
  "DeleteSession h c w =
     (case svc_CloseSession (svc h) (params c ''sessionId'') w of
        (Some err, w1) \<Rightarrow>
          if errors_Is err ErrNotFound
          then (writeError c 404 CodeSessionNotFound ''session not found'', w1)
          else (writeError c 500 CodeInternalError ''failed to close session'', w1)
      | (None, w1) \<Rightarrow> (gin_Status 204 c, w1))"

definition signalFallback :: "'w Handler \<Rightarrow> gin \<Rightarrow> gin" where
  "signalFallback h c =
     (let pool = (if req_headers c fallbackStackHeader \<noteq> []
                  then Split (req_headers c fallbackRemainingHeader) else fallbackStacks h)
      in case pool of
        [] \<Rightarrow> c\<lparr>logged := logged c @ [''fallback_signal unavailable request_id='' @ requestID c @
                  '' session_id='' @ sessionCookie c]\<rparr>
      | next_stack # rest \<Rightarrow>
          (let c1 = gin_Header fallbackStackHeader next_stack c;
               c2 = (if rest \<noteq> [] then gin_Header fallbackRemainingHeader (Join rest '','') c1 else c1)
           in c2\<lparr>logged := logged c2 @ [''fallback_signal next_stack='' @ next_stack @ '' remaining='' @
                  Join rest '','' @ '' request_id='' @ requestID c2 @ '' session_id='' @
                  sessionCookie c2]\<rparr>))"

definition GetResolveSession :: "'w Handler \<Rightarrow> gin \<Rightarrow> 'w \<Rightarrow> (gin \<times> 'w) option" where
  "GetResolveSession h c w =
     (case svc_ResolveSession (svc h) (sessionCookie c) w of
        None \<Rightarrow> None
      | Some (Inl err, w1) \<Rightarrow>
          if errors_Is err ErrNoIdleRunner
          then Some (writeError (signalFallback h c) 503 CodeNoIdleRunner ''no idle runner available'', w1)
          else Some (writeError c 500 CodeInternalError ''failed to resolve session'', w1)
      | Some (Inr result, w1) \<Rightarrow>
          (let c1 = (if Created result
                     then gin_SetCookie sessionIDCookie (SessionID result) 0 ''/'' [] True True
                            (c\<lparr>samesite_strict := True\<rparr>)
                     else c);
               c2 = (if Reassigned result then gin_Header reassignedHeader ''true'' c1 else c1);
               c3 = gin_Header sessionHexHeader (SessionHex result) c2;
               c4 = gin_Header stackNameHeader (stackSelf h) c3;
               c5 = gin_Header runnerHostHeader (RunnerHost result) c4
           in Some (gin_Status 200 c5, w1)))"

definition GetResolveApp :: "'w Handler \<Rightarrow> gin \<Rightarrow> 'w \<Rightarrow> gin \<times> 'w" where
  "GetResolveApp h c w =
     (case extractSessionHex (req_host c) of
        (hex, ok) \<Rightarrow>
          if \<not> ok
          then (writeError c 400 CodeInvalidRequest
                  ''Host must start with 32 lowercase hex characters followed by a dot'', w)
          else case svc_LookupSession (svc h) hex w of
            (Inl err, w1) \<Rightarrow>
              if errors_Is err ErrNotFound
              then (writeError c 404 CodeSessionNotFound ''session not found'', w1)
              else (writeError c 500 CodeInternalError ''failed to look up session'', w1)
          | (Inr result, w1) \<Rightarrow>
              (gin_Status 200 (gin_Header runnerHostHeader (LookupHost result) c), w1))"

definition PostRegister :: "'w Handler \<Rightarrow> gin \<Rightarrow> 'w \<Rightarrow> gin \<times> 'w" where
  "PostRegister h c w =
     (case ShouldBindJSON c of
        Inl err \<Rightarrow> (writeError c 400 CodeInvalidRequest ''invalid request body'', w)
      | Inr req \<Rightarrow>
          (case validateRunnerHost (RequestPrivateHost req) of
             Some err \<Rightarrow>
               (writeError c 400 CodeInvalidRequest (''invalid privateHost: '' @ error_text err), w)
           | None \<Rightarrow>
               (case svc_RegisterRunner (svc h) (RequestRunnerID req) (RequestPrivateHost req) w of
                  (Some err, w1) \<Rightarrow>
                    if errors_Is err ErrConflict
                    then (writeError c 409 CodeRunnerConflict
                            ''runner already registered with different attributes'', w1)
                    else (writeError c 500 CodeInternalError ''failed to register runner'', w1)
                | (None, w1) \<Rightarrow> (gin_Status 201 c, w1))))"

definition DeleteRunner :: "'w Handler \<Rightarrow> gin \<Rightarrow> 'w \<Rightarrow> gin \<times> 'w" where
  "DeleteRunner h c w =
     (case svc_DeregisterRunner (svc h) (params c ''runnerId'') w of
        (Some err, w1) \<Rightarrow> (writeError c 500 CodeInternalError ''failed to deregister runner'', w1)
      | (None, w1) \<Rightarrow> (gin_Status 204 c, w1))"

fun busy_views :: "Runner list \<Rightarrow> busyRunnerView list \<Rightarrow> busyRunnerView list" where
  "busy_views [] views = views"
| "busy_views (r # rs) views = busy_views rs (views @ [\<lparr>ViewRunnerID = RunnerID r\<rparr>])"

definition GetListBusyRunners :: "'w Handler \<Rightarrow> gin \<Rightarrow> 'w \<Rightarrow> (gin \<times> 'w) option" where
  "GetListBusyRunners h c w =
     (case svc_ListBusyRunners (svc h) w of
        None \<Rightarrow> None
      | Some (Inl err, w1) \<Rightarrow> Some (writeError c 500 CodeInternalError ''failed to list busy runners'', w1)
      | Some (Inr runners, w1) \<Rightarrow> Some (gin_JSON 200 (BusyRunners \<lparr>ResponseRunners = busy_views runners []\<rparr>) c, w1))"

section \<open>The middleware\<close>

type_synonym 'w handler_fn = "gin \<Rightarrow> 'w \<Rightarrow> (gin \<times> 'w) option"

definition defaultIDFnWithReader :: "(nat \<Rightarrow> 'w \<Rightarrow> (go_error + string) \<times> 'w) \<Rightarrow> 'w \<Rightarrow> (go_error + string) \<times> 'w" where
  "defaultIDFnWithReader readFull w =
     (case readFull 16 w of
        (Inl err, w1) \<Rightarrow> (Inl (Wrap ''generate request id: '' err), w1)
      | (Inr b, w1) \<Rightarrow> (Inr (EncodeToString b), w1))"

text \<open>
  \<open>nxt\<close> is the rest of the chain, which \<open>c.Next()\<close> runs and \<open>c.AbortWithStatus\<close> skips;
  \<open>cryptoRead\<close> is \<open>rand.Reader\<close>, for the \<open>nil\<close> default.
\<close>

definition RequestIDMiddleware ::
  "(nat \<Rightarrow> 'w \<Rightarrow> (go_error + string) \<times> 'w) \<Rightarrow> ('w \<Rightarrow> (go_error + string) \<times> 'w) option \<Rightarrow>
   'w handler_fn \<Rightarrow> 'w handler_fn" where
  "RequestIDMiddleware cryptoRead idFn nxt c w =
     (case (case idFn of None \<Rightarrow> defaultIDFnWithReader cryptoRead | Some f \<Rightarrow> f) w of
        (Inl err, w1) \<Rightarrow> Some (gin_Status 500 c, w1)
      | (Inr rid, w1) \<Rightarrow>
          nxt (gin_Header ''X-Request-Id'' rid (c\<lparr>keys := (keys c)(requestIDKey \<mapsto> rid)\<rparr>)) w1)"

section \<open>What the handlers answer\<close>

lemma status_simps [simp]:
  "status (writeError c code e m) = code" "status (gin_Status code c) = code"
  "status (gin_JSON code b c) = code" "status (gin_Header k v c) = status c"
  "headers (gin_Status code c) = headers c" "headers (writeError c code e m) = headers c"
  "body (writeError c code e m) = ErrorBody \<lparr>Code = e, Message = m, RequestID = requestID c\<rparr>"
  "set_cookies (gin_Status code c) = set_cookies c" "set_cookies (gin_Header k v c) = set_cookies c"
  by (simp_all add: writeError_def gin_Status_def gin_JSON_def gin_Header_def)

lemma headers_gin_Header [simp]:
  "headers (gin_Header k v c) = (headers c)(k := if v = [] then None else Some v)"
  by (simp add: gin_Header_def)

lemma busy_views_eq: "busy_views rs acc = acc @ map (\<lambda>r. \<lparr>ViewRunnerID = RunnerID r\<rparr>) rs"
  by (induction rs arbitrary: acc) simp_all

lemma extractSessionHex_iff:
  "extractSessionHex h = (hex, True) \<longleftrightarrow> sessionHexRe hex \<and> (\<exists>rest. h = hex @ CHR ''.'' # rest)"
proof
  assume "extractSessionHex h = (hex, True)"
  then show "sessionHexRe hex \<and> (\<exists>rest. h = hex @ CHR ''.'' # rest)"
    by (auto simp: extractSessionHex_def dest: Cut_True_D split: prod.splits if_splits)
next
  assume hex: "sessionHexRe hex \<and> (\<exists>rest. h = hex @ CHR ''.'' # rest)"
  then have "CHR ''.'' \<notin> set hex"
    by (auto simp: sessionHexRe_def list_all_iff char_class_defs)
  with hex show "extractSessionHex h = (hex, True)"
    by (auto simp: extractSessionHex_def Cut_append)
qed

lemma validateRunnerHost_None: "validateRunnerHost h = None \<longleftrightarrow> runnerHostRe h"
  by (auto simp: validateRunnerHost_def runnerHostRe_def)

text \<open>
  \<open>store_service\<close> is what the handlers rely on: every call of the service is a run of the
  abstract store, and a registration that succeeds has taken place.
\<close>

locale store_service =
  fixes sv :: "'w Service" and abs :: "'w \<Rightarrow> runners"
  assumes close_run: "svc_CloseSession sv sid w = (res1, w') \<Longrightarrow> others (abs w) (abs w')"
    and resolve_run: "svc_ResolveSession sv sid w = Some (res2, w') \<Longrightarrow> others (abs w) (abs w')"
    and lookup_run: "svc_LookupSession sv hex w = (res3, w') \<Longrightarrow> others (abs w) (abs w')"
    and register_run: "svc_RegisterRunner sv rid host w = (res4, w') \<Longrightarrow> others (abs w) (abs w')"
    and register_done: "svc_RegisterRunner sv rid host w = (None, w') \<Longrightarrow>
      \<exists>t. others (abs w) t \<and> store_step t (Registered rid host) (abs w')"
    and deregister_run: "svc_DeregisterRunner sv rid w = (res4, w') \<Longrightarrow> others (abs w) (abs w')"
    and list_run: "svc_ListBusyRunners sv w = Some (res5, w') \<Longrightarrow> others (abs w) (abs w')"
begin

definition run_only :: "'w handler_fn \<Rightarrow> bool" where
  "run_only f \<longleftrightarrow> (\<forall>c w c' w'. f c w = Some (c', w') \<longrightarrow> others (abs w) (abs w'))"

lemma run_onlyI: "(\<And>c w c' w'. f c w = Some (c', w') \<Longrightarrow> others (abs w) (abs w')) \<Longrightarrow> run_only f"
  by (auto simp: run_only_def)

lemma handlers_run:
  assumes "svc h = sv"
  shows "run_only (\<lambda>c w. Some (DeleteSession h c w))" "run_only (GetResolveSession h)"
    "run_only (\<lambda>c w. Some (GetResolveApp h c w))" "run_only (\<lambda>c w. Some (PostRegister h c w))"
    "run_only (\<lambda>c w. Some (DeleteRunner h c w))" "run_only (GetListBusyRunners h)"
  unfolding DeleteSession_def GetResolveSession_def GetResolveApp_def PostRegister_def
    DeleteRunner_def GetListBusyRunners_def Let_def assms
  by (rule run_onlyI, (auto split: prod.splits sum.splits option.splits if_splits
        dest: close_run resolve_run lookup_run register_run deregister_run list_run
        intro: others_refl; fail))+

lemma middleware_run:
  assumes nxt: "run_only nxt"
    and ids: "\<And>f w res w'. f \<in> insert (defaultIDFnWithReader cryptoRead) (set_option idFn) \<Longrightarrow>
      f w = (res, w') \<Longrightarrow> abs w' = abs w"
  shows "run_only (RequestIDMiddleware cryptoRead idFn nxt)"
proof (rule run_onlyI)
  fix c w c' w'
  assume run: "RequestIDMiddleware cryptoRead idFn nxt c w = Some (c', w')"
  define f where "f = (case idFn of None \<Rightarrow> defaultIDFnWithReader cryptoRead | Some f \<Rightarrow> f)"
  obtain res w1 where f: "f w = (res, w1)" by (cases "f w")
  have "f \<in> insert (defaultIDFnWithReader cryptoRead) (set_option idFn)"
    by (cases idFn) (simp_all add: f_def)
  from ids [OF this f] have "abs w1 = abs w" .
  moreover have "w' = w1 \<or> (\<exists>c1. nxt c1 w1 = Some (c', w'))"
    using run f unfolding RequestIDMiddleware_def f_def [symmetric] by (auto split: sum.splits)
  ultimately show "others (abs w) (abs w')"
    using nxt by (auto simp: run_only_def others_refl dest: sym)
qed

end

sublocale shared_broker \<subseteq> service: store_service "broker_Service s ctxErr" abs for ctxErr
proof (unfold_locales, goal_cases)
  case (1 sid w res w')
  then show ?case by (simp add: broker_Service_def CloseSession_others)
next
  case (2 sid w res w')
  then show ?case by (simp add: broker_Service_def ResolveSession_others)
next
  case (3 hex w res w')
  then show ?case
    by (auto simp: broker_Service_def LookupSession_def split: prod.splits sum.splits
        dest: find_session_env)
next
  case (4 rid host w res w')
  then show ?case by (simp add: broker_Service_def RegisterRunner_def register_others)
next
  case (5 rid host w w')
  then show ?case
    using register_ok [of rid host w w'] by (simp add: broker_Service_def RegisterRunner_def)
next
  case (6 rid w res w')
  then show ?case by (simp add: broker_Service_def DeregisterRunner_def delete_others)
next
  case (7 w res w')
  then show ?case by (simp add: broker_Service_def ServiceListBusyRunners_def list_env)
qed

section \<open>The fallback chain\<close>

text \<open>
  When no runner is idle, nginx sends the request on to the stack named in the answer, with
  the two headers of the answer as headers of the new request. \<open>relayed\<close> is that request, and
  \<open>fallback_chain\<close> the names of the stacks that a request visits when none of them has a
  runner; \<open>n\<close> bounds the number of hops that are looked at.
\<close>

definition relayed :: "gin \<Rightarrow> gin \<Rightarrow> gin" where
  "relayed c answer =
     c\<lparr>req_headers := \<lambda>k. case headers answer k of None \<Rightarrow> [] | Some v \<Rightarrow> v, headers := Map.empty\<rparr>"

fun fallback_chain :: "nat \<Rightarrow> (string \<Rightarrow> 'w Handler) \<Rightarrow> string \<Rightarrow> gin \<Rightarrow> string list" where
  "fallback_chain 0 hs self c = []"
| "fallback_chain (Suc n) hs self c =
     (case headers (signalFallback (hs self) c) fallbackStackHeader of
        None \<Rightarrow> []
      | Some stack \<Rightarrow>
          stack # fallback_chain n hs stack (relayed c (signalFallback (hs self) c)))"

lemma clean_stack_neq_Nil: "clean_stack s \<Longrightarrow> s \<noteq> []"
  by (simp add: clean_stack_def)

definition pool_of :: "'w Handler \<Rightarrow> gin \<Rightarrow> string list" where
  "pool_of h c = (if req_headers c fallbackStackHeader \<noteq> []
                  then Split (req_headers c fallbackRemainingHeader) else fallbackStacks h)"

lemma signalFallback_headers:
  assumes "headers c = Map.empty" and "\<forall>s\<in>set (pool_of h c). clean_stack s"
  shows "headers (signalFallback h c) fallbackStackHeader =
      (case pool_of h c of [] \<Rightarrow> None | s # rest \<Rightarrow> Some s)"
    and "headers (signalFallback h c) fallbackRemainingHeader =
      (if tl (pool_of h c) = [] then None else Some (Join (tl (pool_of h c)) '',''))"
proof -
  have neq: "fallbackStackHeader \<noteq> fallbackRemainingHeader" by (simp add: header_defs)
  show "headers (signalFallback h c) fallbackStackHeader =
      (case pool_of h c of [] \<Rightarrow> None | s # rest \<Rightarrow> Some s)"
    using assms neq unfolding signalFallback_def pool_of_def [symmetric] Let_def
    by (auto split: list.split dest: clean_stack_neq_Nil)
  show "headers (signalFallback h c) fallbackRemainingHeader =
      (if tl (pool_of h c) = [] then None else Some (Join (tl (pool_of h c)) '',''))"
  proof (cases "pool_of h c")
    case Nil
    then show ?thesis using assms unfolding signalFallback_def pool_of_def [symmetric] Let_def by simp
  next
    case (Cons s rest)
    then have "\<forall>x\<in>set rest. x \<noteq> []" using assms(2) by (auto dest: clean_stack_neq_Nil)
    then have "Join rest '','' = [] \<longleftrightarrow> rest = []" by (rule Join_eq_Nil_iff)
    then show ?thesis using assms neq Cons
      unfolding signalFallback_def pool_of_def [symmetric] Let_def by auto
  qed
qed

lemma fallback_chain_pool:
  assumes "headers c = Map.empty" and "\<forall>s\<in>set (pool_of (hs self) c). clean_stack s"
    and "length (pool_of (hs self) c) \<le> n"
  shows "fallback_chain n hs self c = pool_of (hs self) c"
  using assms
proof (induction n arbitrary: self c)
  case (Suc n)
  note sig = signalFallback_headers [OF Suc.prems(1,2)]
  show ?case
  proof (cases "pool_of (hs self) c")
    case Nil
    then show ?thesis using sig(1) by simp
  next
    case (Cons s rest)
    let ?c' = "relayed c (signalFallback (hs self) c)"
    have clean: "\<forall>x\<in>set rest. clean_stack x" and s: "s \<noteq> []"
      using Suc.prems(2) Cons by (auto dest: clean_stack_neq_Nil)
    have "req_headers ?c' fallbackRemainingHeader = Join rest '',''"
      using sig(2) Cons by (simp add: relayed_def)
    moreover have "req_headers ?c' fallbackStackHeader = s"
      using sig(1) Cons by (simp add: relayed_def)
    ultimately have pool: "pool_of (hs s) ?c' = rest"
      using s clean by (simp add: pool_of_def Split_Join_clean)
    have "fallback_chain n hs s ?c' = rest"
      using Suc.IH [of ?c' s] clean pool Suc.prems(3) Cons by (simp add: relayed_def)
    then show ?thesis using sig(1) Cons by simp
  qed
qed simp

end
