(* ===== verification/Broker_Main.thy ===== *)
theory Broker_Main
  imports Broker_Config Broker_Handler
begin

text \<open>
  \<open>broker/main.go\<close>: the routes, how the parts are put together at start, and the life of the
  server process. gin's dispatch by method and path stays outside: the router is the table of
  routes that it is given.
\<close>

section \<open>The router\<close>

definition health_route :: "'w handler_fn" where
  "health_route c w = Some (c\<lparr>status := 200, body := Text (''ok'' @ [CHR 0x0A])\<rparr>, w)"

type_synonym 'w route = "string \<times> string \<times> 'w handler_fn"

text \<open>\<open>r.Use\<close> applies to the routes added after it, so not to \<open>/health\<close>.\<close>

definition newRouter ::
  "(nat \<Rightarrow> 'w \<Rightarrow> (go_error + string) \<times> 'w) \<Rightarrow> 'w Handler option \<Rightarrow> 'w route list" where
  "newRouter cryptoRead h =
     (''GET'', ''/health'', health_route) #
     (case h of None \<Rightarrow> []
      | Some hn \<Rightarrow>
          map (\<lambda>(method, path, f). (method, path, RequestIDMiddleware cryptoRead None f))
            [(''DELETE'', ''/sessions/:sessionId'', \<lambda>c w. Some (DeleteSession hn c w)),
             (''GET'', ''/resolve/session'', GetResolveSession hn),
             (''GET'', ''/resolve/app'', \<lambda>c w. Some (GetResolveApp hn c w)),
             (''POST'', ''/internal/runners/register'', \<lambda>c w. Some (PostRegister hn c w)),
             (''DELETE'', ''/internal/runners/:runnerId'', \<lambda>c w. Some (DeleteRunner hn c w)),
             (''GET'', ''/runners/busy'', GetListBusyRunners hn)])"

section \<open>Start\<close>

text \<open>
  A constructor that panics ends the process, so \<open>defaultInitHandler\<close> has three outcomes. The
  arguments are the environment, the choice of store, the HTTP client, and the random source;
  \<open>ctxErr\<close> is the context of the requests. The closer is that of the repository, if it has one.
\<close>

datatype 'a outcome = Panic panic | Failed go_error | Started 'a

definition repoCloser :: "('repo \<Rightarrow> ('w \<Rightarrow> go_error option \<times> 'w) option) \<Rightarrow> 'repo \<Rightarrow>
    'w \<Rightarrow> go_error option \<times> 'w" where
  "repoCloser asCloser r = (case asCloser r of Some close \<Rightarrow> close | None \<Rightarrow> (\<lambda>w. (None, w)))"

definition newBrokerService ::
  "(nat \<Rightarrow> 'w \<Rightarrow> (go_error + string) \<times> 'w) \<Rightarrow> 'w Repository \<Rightarrow> string \<Rightarrow> 'w Checker \<Rightarrow>
   panic + 'w BrokerService" where
  "newBrokerService cryptoRead rp stack check = NewBrokerService cryptoRead rp stack [WithChecker (Some check)]"

definition defaultInitHandler ::
  "environment \<Rightarrow> (environment \<Rightarrow> go_error + 'repo) \<Rightarrow> ('repo \<Rightarrow> 'w Repository) \<Rightarrow>
   ('repo \<Rightarrow> ('w \<Rightarrow> go_error option \<times> 'w) option) \<Rightarrow> 'w http_client \<Rightarrow>
   (nat \<Rightarrow> 'w \<Rightarrow> (go_error + string) \<times> 'w) \<Rightarrow> 'w ctx \<Rightarrow>
   ('w Handler \<times> ('w \<Rightarrow> go_error option \<times> 'w)) outcome" where
  "defaultInitHandler getenv newRepositoryFromEnv methods asCloser httpClient cryptoRead ctxErr =
     (case NewStackFromEnv getenv of
        Inl err \<Rightarrow> Failed err
      | Inr stack \<Rightarrow>
          (case NewRunnerAPIPortFromEnv getenv of
             Inl err \<Rightarrow> Failed err
           | Inr runnerAPIPort \<Rightarrow>
               (case newRepositoryFromEnv getenv of
                  Inl err \<Rightarrow> Failed err
                | Inr rp \<Rightarrow>
                    (case NewHTTPChecker (Some httpClient) runnerAPIPort of
                       Inl p \<Rightarrow> Panic p
                     | Inr hc \<Rightarrow>
                         (case newBrokerService cryptoRead (methods rp) (Self stack) (Check hc) of
                            Inl p \<Rightarrow> Panic p
                          | Inr sv \<Rightarrow>
                              (case NewHandler (Some (broker_Service sv ctxErr)) (Fallbacks stack)
                                      (Self stack) of
                                 Inl p \<Rightarrow> Panic p
                               | Inr h \<Rightarrow> Started (h, repoCloser asCloser rp)))))))"

section \<open>The life of the server\<close>

text \<open>
  \<open>run\<close>: \<open>select\<close> takes the error of the server or a signal, whichever comes; \<open>server\<close> says
  which, and the deferred \<open>Close\<close> comes last. \<open>shutdown\<close> is \<open>srv.Shutdown\<close>. \<open>ErrServerClosed\<close>
  is never sent to the channel, so with it the \<open>select\<close> waits for a signal; \<open>None\<close> stands for
  a process that waits for ever.
\<close>

definition broker_addr :: string where "broker_addr = '':8080''"

datatype server_event = ListenAndServe go_error | Signal string

fun next_event :: "server_event list \<Rightarrow> server_event option" where
  "next_event [] = None"
| "next_event (ListenAndServe err # evs) =
     (if err = Sentinel ErrServerClosed then next_event evs else Some (ListenAndServe err))"
| "next_event (Signal sig # evs) = Some (Signal sig)"

definition broker_run ::
  "('w Handler \<times> ('w \<Rightarrow> go_error option \<times> 'w)) outcome \<Rightarrow> server_event list \<Rightarrow>
   ('w \<Rightarrow> go_error option \<times> 'w) \<Rightarrow> 'w \<Rightarrow> (go_error option outcome \<times> string list \<times> 'w) option" where
  "broker_run initHandler events shutdown w =
     (case initHandler of
        Panic p \<Rightarrow> Some (Panic p, [], w)
      | Failed err \<Rightarrow> Some (Failed (Wrap ''init handler: '' err), [], w)
      | Started (h, close) \<Rightarrow>
          (let out = [''broker listening on '' @ broker_addr];
               closing = (\<lambda>res lines w1. case close w1 of
                   (Some err, w2) \<Rightarrow>
                     Some (Started res, lines @ [''close repository: '' @ error_text err], w2)
                 | (None, w2) \<Rightarrow> Some (Started res, lines, w2))
           in case next_event events of
                None \<Rightarrow> None
              | Some (ListenAndServe err) \<Rightarrow> closing (Some err) out w
              | Some (Signal sig) \<Rightarrow>
                  (case shutdown w of
                     (res, w1) \<Rightarrow>
                       closing res (out @ [''received signal '' @ sig @ '', shutting down...'']) w1)))"

text \<open>
  \<open>main\<close>: the line that \<open>log.Fatalf\<close> ends the process with, if the server did not end in order.
\<close>

definition broker_main ::
  "('w Handler \<times> ('w \<Rightarrow> go_error option \<times> 'w)) outcome \<Rightarrow> server_event list \<Rightarrow>
   ('w \<Rightarrow> go_error option \<times> 'w) \<Rightarrow> 'w \<Rightarrow> ((panic + string option) \<times> string list \<times> 'w) option" where
  "broker_main initHandler events shutdown w =
     (case broker_run initHandler events shutdown w of
        None \<Rightarrow> None
      | Some (Panic p, out, w1) \<Rightarrow> Some (Inl p, out, w1)
      | Some (Failed err, out, w1) \<Rightarrow> Some (Inr (Some (''server error: '' @ error_text err)), out, w1)
      | Some (Started (Some err), out, w1) \<Rightarrow> Some (Inr (Some (''server error: '' @ error_text err)), out, w1)
      | Some (Started None, out, w1) \<Rightarrow> Some (Inr None, out, w1))"

section \<open>Start never panics\<close>

text \<open>
  The panics of the constructors are out of reach at start: what the configuration accepts
  satisfies their conditions.
\<close>

lemma defaultInitHandler_no_panic:
  "defaultInitHandler getenv newRepo methods asCloser httpClient cryptoRead ctxErr \<noteq> Panic p"
proof (cases "NewStackFromEnv getenv")
  case (Inl e)
  then show ?thesis by (simp add: defaultInitHandler_def)
next
  case (Inr stack)
  note stack = this
  have self: "Self stack \<noteq> []" using NewStackFromEnv_ok [OF Inr] by blast
  show ?thesis
  proof (cases "NewRunnerAPIPortFromEnv getenv")
    case (Inl e)
    then show ?thesis using stack by (simp add: defaultInitHandler_def)
  next
    case (Inr port)
    from NewRunnerAPIPortFromEnv_range [OF Inr] have "\<not> port \<le> 0" "\<not> 65535 < port" by simp_all
    then show ?thesis using stack self Inr
      by (auto simp: defaultInitHandler_def NewHTTPChecker_def newBrokerService_def
          NewBrokerService_def NewHandler_def split: sum.splits)
  qed
qed

lemma defaultInitHandler_Started:
  assumes "defaultInitHandler getenv newRepo methods asCloser httpClient cryptoRead ctxErr = Started (h, cl)"
  shows "\<exists>rp stack port sv.
    newRepo getenv = Inr rp \<and> NewStackFromEnv getenv = Inr stack \<and>
    NewRunnerAPIPortFromEnv getenv = Inr port \<and>
    sv = \<lparr>repo = methods rp, stackPrefix = Self stack,
          checker = Check \<lparr>hc_client = httpClient, hc_port = port\<rparr>,
          sessionFn = defaultSessionFn cryptoRead\<rparr> \<and>
    h = \<lparr>svc = broker_Service sv ctxErr, fallbackStacks = Fallbacks stack, stackSelf = Self stack\<rparr> \<and>
    cl = repoCloser asCloser rp"
  using assms
  by (auto simp: defaultInitHandler_def NewHTTPChecker_def newBrokerService_def
      NewBrokerService_def NewHandler_def split: sum.splits if_splits)

section \<open>Every route\<close>

context store_service
begin

lemma routes_run:
  assumes "svc h = sv" and "(method, path, f) \<in> set (newRouter cryptoRead (Some h))"
    and ids: "\<And>n w res w'. cryptoRead n w = (res, w') \<Longrightarrow> abs w' = abs w"
  shows "run_only f"
proof -
  have "abs w' = abs w" if "defaultIDFnWithReader cryptoRead w = (res, w')" for w res w'
    using that ids [of 16 w] by (auto simp: defaultIDFnWithReader_def split: prod.splits sum.splits)
  then have mid: "run_only nxt \<Longrightarrow> run_only (RequestIDMiddleware cryptoRead None nxt)" for nxt
    by (intro middleware_run) auto
  have "run_only health_route"
    by (rule run_onlyI) (auto simp: health_route_def others_refl)
  then show ?thesis using assms(2) handlers_run [OF assms(1)]
    by (auto simp: newRouter_def intro: mid)
qed

end

end
