(* ===== verification/Mem_Dynamo.thy ===== *)
theory Mem_Dynamo
  imports Dynamo_Store
begin

text \<open>
  An instance of the DynamoDB client in memory, which shows that the documented behaviour that
  \<open>dynamo_service\<close> and \<open>settled_dynamo\<close> ask for can be met, and at which the store's code can
  be run. It comes twice: alone, with an index that may hold entries that are out of date; and
  with other brokers, whose actions come from a script and take place before each call.
\<close>

section \<open>The table and its indexes\<close>

record mem =
  mem_items :: "item list"
  mem_stale :: "item list"

fun mem_lookup :: "item list \<Rightarrow> string \<Rightarrow> item option" where
  "mem_lookup [] rid = None"
| "mem_lookup (it # its) rid = (if attr it ''runnerId'' = rid then Some it else mem_lookup its rid)"

definition mem_remove :: "item list \<Rightarrow> string \<Rightarrow> item list" where
  "mem_remove its rid = filter (\<lambda>it. attr it ''runnerId'' \<noteq> rid) its"

definition mem_table :: "mem \<Rightarrow> (string \<rightharpoonup> item)" where
  "mem_table m = mem_lookup (mem_items m)"

definition mem_index :: "mem \<Rightarrow> (string \<rightharpoonup> item)" where
  "mem_index m rid =
     (case mem_lookup (mem_items m) rid of
        None \<Rightarrow> mem_lookup (mem_stale m) rid
      | Some it \<Rightarrow>
          (case mem_lookup (mem_stale m) rid of
             None \<Rightarrow> Some it
           | Some it' \<Rightarrow> if attr it ''state'' = StateIdle then Some it else Some it'))"

definition mem_synced :: "mem \<Rightarrow> bool" where
  "mem_synced m \<longleftrightarrow> mem_stale m = []"

lemma mem_lookup_key: "mem_lookup its rid = Some it \<Longrightarrow> attr it ''runnerId'' = rid"
  by (induction its) (auto split: if_splits)

lemma mem_lookup_Cons: "mem_lookup (it # its) = (mem_lookup its)(attr it ''runnerId'' \<mapsto> it)"
  by auto

lemma mem_lookup_remove: "mem_lookup (mem_remove its rid) = (mem_lookup its)(rid := None)"
  by (induction its) (auto simp: mem_remove_def)

lemma dom_mem_lookup: "dom (mem_lookup its) = (\<lambda>it. attr it ''runnerId'') ` set its"
  by (induction its) (auto simp: dom_def)

lemma mem_index_key: "mem_index m rid = Some it \<Longrightarrow> attr it ''runnerId'' = rid"
  by (auto simp: mem_index_def dest: mem_lookup_key split: option.splits if_splits)

lemma dom_mem_index: "dom (mem_index m) = (\<lambda>it. attr it ''runnerId'') ` set (mem_items m @ mem_stale m)"
proof -
  have "dom (mem_index m) = dom (mem_lookup (mem_items m)) \<union> dom (mem_lookup (mem_stale m))"
    by (auto simp: mem_index_def split: option.splits if_splits)
  then show ?thesis by (simp add: dom_mem_lookup image_Un)
qed

section \<open>The calls\<close>

definition condition_failed :: go_error where
  "condition_failed = ApiError ''ConditionalCheckFailedException'' ''The conditional request failed''"

definition mem_PutItem :: "put_input \<Rightarrow> mem \<Rightarrow> go_error option \<times> mem" where
  "mem_PutItem i m =
     (let rid = attr (put_Item i) ''runnerId'' in
      if put_ConditionExpression i = ''attribute_not_exists(runnerId)'' \<and> mem_table m rid \<noteq> None
      then (Some condition_failed, m)
      else (None, m\<lparr>mem_items := put_Item i # mem_remove (mem_items m) rid\<rparr>))"

definition mem_GetItem :: "get_input \<Rightarrow> mem \<Rightarrow> (go_error + item option) \<times> mem" where
  "mem_GetItem g m = (Inr (mem_table m (attr (get_Key g) ''runnerId'')), m)"

definition mem_UpdateItem :: "update_input \<Rightarrow> mem \<Rightarrow> go_error option \<times> mem" where
  "mem_UpdateItem j m =
     (let rid = attr (upd_Key j) ''runnerId'' in
      case mem_table m rid of
        None \<Rightarrow> (Some condition_failed, m)
      | Some it \<Rightarrow>
          if update_condition j (Some it)
          then (None, m\<lparr>mem_items :=
             ((''currentSessionId'', attr (upd_Values j) '':sid'') #
              (name_of (upd_Names j) ''#s'', attr (upd_Values j) '':busy'') # it) #
             mem_remove (mem_items m) rid\<rparr>)
          else (Some condition_failed, m))"

definition mem_DeleteItem :: "delete_input \<Rightarrow> mem \<Rightarrow> go_error option \<times> mem" where
  "mem_DeleteItem k m =
     (None, m\<lparr>mem_items := mem_remove (mem_items m) (attr (del_Key k) ''runnerId'')\<rparr>)"

fun entries_at :: "(string \<rightharpoonup> item) \<Rightarrow> string list \<Rightarrow> item list" where
  "entries_at ix [] = []"
| "entries_at ix (rid # rids) =
     (case ix rid of None \<Rightarrow> entries_at ix rids | Some it \<Rightarrow> it # entries_at ix rids)"

lemma set_entries_at: "set (entries_at ix rids) = {it. \<exists>rid \<in> set rids. ix rid = Some it}"
  by (induction rids) (auto split: option.splits)

definition mem_matching :: "query_input \<Rightarrow> mem \<Rightarrow> item list" where
  "mem_matching q m =
     filter (\<lambda>it. query_matches q it \<and> after_key (qry_ExclusiveStartKey q) (attr it ''runnerId''))
       (entries_at (mem_index m)
          (sort (remdups (map (\<lambda>it. attr it ''runnerId'') (mem_items m @ mem_stale m)))))"

definition mem_Query :: "query_input \<Rightarrow> mem \<Rightarrow> (go_error + query_output) \<times> mem" where
  "mem_Query q m =
     (let all = mem_matching q m;
          n = (case qry_Limit q of None \<Rightarrow> length all | Some k \<Rightarrow> max 1 k);
          page = take n all
      in (Inr \<lparr>Items = page,
               LastEvaluatedKey =
                 (if n < length all then [(''runnerId'', attr (last page) ''runnerId'')] else [])\<rparr>, m))"

definition mem_client :: "mem dynamoDBAPI" where
  "mem_client =
     \<lparr>PutItem = mem_PutItem, GetItem = mem_GetItem, UpdateItem = mem_UpdateItem,
      DeleteItem = mem_DeleteItem, Query = mem_Query\<rparr>"

definition mem_repo :: "string \<Rightarrow> mem DynamoRepository" where
  "mem_repo start =
     \<lparr>client = mem_client, tableName = ''bunshin-runners'', randHexFn = \<lambda>m. (start, m),
      marshalFn = \<lambda>x. Inr (runner_item x), unmarshalFn = \<lambda>it. Inr (item_runner it)\<rparr>"

section \<open>They behave as documented\<close>

lemma isConditionalCheckFailed_mem [simp]:
  "isConditionalCheckFailed condition_failed" "foreign condition_failed"
  by (simp_all add: isConditionalCheckFailed_def condition_failed_def foreign_def)

lemma mem_put_law:
  assumes "mem_PutItem i m = (res, m')" and "put_ConditionExpression i = ''attribute_not_exists(runnerId)''"
  shows "case res of
      None \<Rightarrow> put_applies i (mem_table m) (mem_table m')
    | Some e \<Rightarrow> e = condition_failed \<and> mem_table m (attr (put_Item i) ''runnerId'') \<noteq> None \<and> m' = m"
proof (cases "mem_table m (attr (put_Item i) ''runnerId'')")
  case None
  let ?rid = "attr (put_Item i) ''runnerId''"
  from None assms have "res = None" and m': "m' = m\<lparr>mem_items := put_Item i # mem_remove (mem_items m) ?rid\<rparr>"
    by (auto simp: mem_PutItem_def Let_def)
  moreover have "mem_table m' = (mem_table m)(?rid \<mapsto> put_Item i)"
    unfolding m' mem_table_def by (simp add: mem_lookup_Cons mem_lookup_remove del: mem_lookup.simps)
  ultimately show ?thesis using None by (simp add: put_applies_def Let_def)
next
  case (Some it)
  with assms show ?thesis by (auto simp: mem_PutItem_def Let_def)
qed

lemma mem_update_law:
  assumes "mem_UpdateItem j m = (res, m')" and "upd_Names j = [(''#s'', ''state'')]"
  shows "case res of
      None \<Rightarrow> update_applies j (mem_table m) (mem_table m')
    | Some e \<Rightarrow> e = condition_failed \<and> m' = m \<and>
        \<not> update_condition j (mem_table m (attr (upd_Key j) ''runnerId''))"
proof (cases "\<exists>it. mem_table m (attr (upd_Key j) ''runnerId'') = Some it \<and> update_condition j (Some it)")
  case False
  with assms show ?thesis
    by (auto simp: mem_UpdateItem_def Let_def update_condition_def split: option.splits)
next
  case True
  let ?rid = "attr (upd_Key j) ''runnerId''"
  from True obtain it where it: "mem_table m ?rid = Some it" "update_condition j (Some it)" by blast
  let ?it' = "(''currentSessionId'', attr (upd_Values j) '':sid'') #
              (''state'', attr (upd_Values j) '':busy'') # it"
  have names: "name_of (upd_Names j) ''#s'' = ''state''" by (simp add: assms(2) name_of_def)
  have "res = None" and m': "m' = m\<lparr>mem_items := ?it' # mem_remove (mem_items m) ?rid\<rparr>"
    using assms(1) it by (auto simp: mem_UpdateItem_def Let_def names)
  moreover have "attr ?it' ''runnerId'' = ?rid"
    using it mem_lookup_key [of "mem_items m" ?rid it] by (simp add: mem_table_def attr_def)
  then have "mem_table m' = (mem_table m)(?rid \<mapsto> ?it')"
    unfolding m' mem_table_def by (simp add: mem_lookup_Cons mem_lookup_remove del: mem_lookup.simps)
  moreover have "map_of ?it' = (map_of it)(''state'' \<mapsto> attr (upd_Values j) '':busy'',
      ''currentSessionId'' \<mapsto> attr (upd_Values j) '':sid'')" by simp
  ultimately show ?thesis using it unfolding update_applies_def Let_def names by (auto simp del: map_of.simps)
qed

lemma mem_delete_law: "mem_DeleteItem k m = (res, m') \<Longrightarrow>
    res = None \<and> delete_applies k (mem_table m) (mem_table m')"
  by (auto simp: mem_DeleteItem_def delete_applies_def mem_table_def mem_lookup_remove)

lemma sorted_wrt_take:
  assumes "sorted_wrt (\<lambda>a b. f a < (f b :: 'a :: linorder)) xs" and "0 < n" and "n < length xs"
  shows "set (take n xs) = {x \<in> set xs. f x \<le> f (last (take n xs))}"
proof -
  let ?p = "take n xs" and ?s = "drop n xs"
  have xs: "xs = ?p @ ?s" by simp
  have srt: "sorted_wrt (\<lambda>a b. f a < f b) ?p" and cross: "\<forall>x\<in>set ?p. \<forall>y\<in>set ?s. f x < f y"
    using assms(1) by (metis sorted_wrt_append xs)+
  have ne: "?p \<noteq> []" using assms by auto
  then have "?p = butlast ?p @ [last ?p]" by simp
  then have "\<forall>x\<in>set (butlast ?p). f x < f (last ?p)"
    using srt by (metis list.set_intros(1) sorted_wrt_append)
  then have le: "x \<in> set ?p \<Longrightarrow> f x \<le> f (last ?p)" for x
    using \<open>?p = butlast ?p @ [last ?p]\<close>
    by (metis (no_types, lifting) Un_iff empty_iff empty_set less_imp_le order_refl set_ConsD set_append)
  have "last ?p \<in> set ?p" using ne by (rule last_in_set)
  then have "y \<in> set ?s \<Longrightarrow> \<not> f y \<le> f (last ?p)" for y using cross by (auto simp: not_le)
  moreover have "set xs = set ?p \<union> set ?s" by (metis set_append xs)
  ultimately show ?thesis using le by blast
qed

lemma mem_matching_props:
  "set (mem_matching q m) = entries_after (mem_index m) q"
  "sorted_wrt (\<lambda>a b. attr a ''runnerId'' < attr b ''runnerId'') (mem_matching q m)"
proof -
  let ?ids = "sort (remdups (map (\<lambda>it. attr it ''runnerId'') (mem_items m @ mem_stale m)))"
  have ids: "set ?ids = dom (mem_index m)" by (simp add: dom_mem_index image_Un)
  have "set (entries_at (mem_index m) ?ids) = ran (mem_index m)"
    unfolding set_entries_at ids by (auto simp: ran_def)
  then show "set (mem_matching q m) = entries_after (mem_index m) q"
    by (auto simp: mem_matching_def entries_after_def)
  have srt: "sorted_wrt (<) ?ids" by (simp add: strict_sorted_iff)
  have "sorted_wrt (\<lambda>a b. attr a ''runnerId'' < attr b ''runnerId'') (entries_at (mem_index m) ids)"
    if "sorted_wrt (<) ids" for ids
    using that
  proof (induction ids)
    case (Cons i ids)
    have "attr b ''runnerId'' \<in> set ids" if "b \<in> set (entries_at (mem_index m) ids)" for b
      using that by (auto simp: set_entries_at dest: mem_index_key)
    with Cons show ?case by (auto dest: mem_index_key split: option.splits)
  qed simp
  from sorted_wrt_filter [OF this [OF srt]]
  show "sorted_wrt (\<lambda>a b. attr a ''runnerId'' < attr b ''runnerId'') (mem_matching q m)"
    unfolding mem_matching_def .
qed

lemma mem_query_law:
  assumes "mem_Query q m = (Inr out, m')"
  shows "m' = m \<and> page_of (mem_index m) q out"
proof -
  let ?all = "mem_matching q m" and ?id = "\<lambda>it. attr it ''runnerId''"
  obtain n where n: "n = (case qry_Limit q of None \<Rightarrow> length ?all | Some k \<Rightarrow> max 1 k)" by simp
  then have out: "out = \<lparr>Items = take n ?all, LastEvaluatedKey =
      (if n < length ?all then [(''runnerId'', ?id (last (take n ?all)))] else [])\<rparr>" and m': "m' = m"
    using assms unfolding mem_Query_def Let_def n [symmetric] prod.inject sum.inject by blast+
  have srt: "sorted_wrt (\<lambda>a b. ?id a < ?id b) ?all" and all: "set ?all = entries_after (mem_index m) q"
    by (rule mem_matching_props)+
  have "sorted_wrt (<) (map ?id ?all)" using srt by (simp add: sorted_wrt_map)
  then have "distinct (map ?id ?all)" by (simp add: strict_sorted_iff)
  then have dist: "distinct (take n ?all)" by (simp add: distinct_map)
  show ?thesis
  proof (cases "n < length ?all")
    case False
    then show ?thesis using dist m' by (simp add: out page_of_def all)
  next
    case True
    then have pos: "0 < n" by (auto simp: n split: option.splits)
    have "set (take n ?all) = {it \<in> entries_after (mem_index m) q. ?id it \<le> ?id (last (take n ?all))}"
      using sorted_wrt_take [OF srt pos True] unfolding all .
    moreover have "take n ?all \<noteq> []" using pos True by auto
    moreover have "attr [(''runnerId'', x)] ''runnerId'' = x" for x by (simp add: attr_def)
    ultimately show ?thesis using dist True m' by (simp add: out page_of_def)
  qed
qed

section \<open>Alone, with a lagging index\<close>

interpretation mem_db: settled_dynamo "mem_repo start" mem_table mem_index mem_synced
  for start :: string
proof (unfold_locales, goal_cases)
  case (1 t)
  show ?case by simp
next
  case (2 t u v)
  then show ?case by simp
next
  case (3 x)
  show ?case by (simp add: mem_repo_def)
next
  case (4 it)
  show ?case by (simp add: mem_repo_def)
next
  case (5 m s m')
  then show ?case by (simp add: mem_repo_def)
next
  case (6 i m res m')
  then have "mem_PutItem i m = (res, m')" by (simp add: mem_repo_def mem_client_def)
  from mem_put_law [OF this 6(3)] show ?case
    by (intro exI [of _ "mem_table m"]) (auto split: option.splits)
next
  case (7 j m res m')
  then have "mem_UpdateItem j m = (res, m')" by (simp add: mem_repo_def mem_client_def)
  from mem_update_law [OF this 7(5)] show ?case
    by (intro exI [of _ "mem_table m"]) (auto split: option.splits)
next
  case (8 k m res m')
  then have "mem_DeleteItem k m = (res, m')" by (simp add: mem_repo_def mem_client_def)
  from mem_delete_law [OF this] show ?case
    by (intro exI [of _ "mem_table m"]) simp
next
  case (9 g m ans m')
  then show ?case by (auto simp: mem_repo_def mem_client_def mem_GetItem_def)
next
  case (10 q m page m')
  then show ?case by (auto simp: mem_repo_def mem_client_def mem_Query_def Let_def)
next
  case (11 m rid it)
  then show ?case by (simp add: mem_table_def mem_lookup_key)
next
  case (12 m rid it)
  then show ?case by (rule mem_index_key)
next
  case (13 m)
  show ?case by (simp add: mem_table_def dom_mem_lookup)
next
  case (14 m)
  show ?case by (simp add: dom_mem_index)
next
  case (15 m rid x)
  then obtain it where "mem_lookup (mem_items m) rid = Some it" "attr it ''state'' = StateIdle"
    "x = item_runner it" by (auto simp: mem_table_def IsIdle_def)
  then show ?case by (simp add: mem_index_def split: option.splits)
next
  case (16 m)
  then have "mem_index m = mem_table m"
    by (auto simp: mem_synced_def mem_index_def mem_table_def fun_eq_iff split: option.splits)
  then show ?case by simp
next
  case (17 q m out m')
  then have "mem_Query q m = (Inr out, m')" by (simp add: mem_repo_def mem_client_def)
  from mem_query_law [OF this] show ?case by simp
next
  case (18 q m out m')
  then have "mem_Query q m = (Inr out, m')" by (simp add: mem_repo_def mem_client_def)
  from mem_query_law [OF this] have pg: "page_of (mem_index m) q out" by simp
  have index: "mem_index m = mem_table m" using 18
    by (auto simp: mem_synced_def mem_index_def mem_table_def fun_eq_iff split: option.splits)
  have "entries_after (mem_index m) q = {it \<in> ran (mem_table m). query_matches q it}"
    using 18(5) by (simp add: entries_after_def after_key_def index)
  then show ?case using pg by (cases "LastEvaluatedKey out = []") (auto simp: page_of_def)
next
  case (19 j m e m')
  then have "mem_UpdateItem j m = (Some e, m')" by (simp add: mem_repo_def mem_client_def)
  then have "m' = m" by (auto simp: mem_UpdateItem_def Let_def split: option.splits if_splits)
  then show ?case by simp
qed

section \<open>With other brokers at work\<close>

text \<open>Each call first lets the next batch of actions of the others happen.\<close>

record noisy =
  db :: mem
  script :: "action list list"

definition put_runner :: "string \<Rightarrow> item \<Rightarrow> mem \<Rightarrow> mem" where
  "put_runner rid it m = m\<lparr>mem_items := it # mem_remove (mem_items m) rid\<rparr>"

fun do_action :: "action \<Rightarrow> mem \<Rightarrow> mem" where
  "do_action (Registered rid host) m =
     (if runnerIDRe rid \<and> host \<noteq> [] \<and> mem_table m rid = None
      then put_runner rid (runner_item (new_runner rid host)) m else m)"
| "do_action (Assigned rid sid) m =
     (case mem_table m rid of None \<Rightarrow> m
      | Some it \<Rightarrow> if IsIdle (item_runner it)
                   then put_runner rid (runner_item (assigned sid (item_runner it))) m else m)"
| "do_action (Deleted rid) m = m\<lparr>mem_items := mem_remove (mem_items m) rid\<rparr>"

definition interfere :: "noisy \<Rightarrow> noisy" where
  "interfere n =
     (case script n of [] \<Rightarrow> n | as # rest \<Rightarrow> \<lparr>db = fold do_action as (db n), script = rest\<rparr>)"

definition noisy_call :: "(mem \<Rightarrow> 'a \<times> mem) \<Rightarrow> noisy \<Rightarrow> 'a \<times> noisy" where
  "noisy_call f n = (let n1 = interfere n; (res, m) = f (db n1) in (res, n1\<lparr>db := m\<rparr>))"

definition noisy_client :: "noisy dynamoDBAPI" where
  "noisy_client =
     \<lparr>PutItem = \<lambda>i. noisy_call (mem_PutItem i), GetItem = \<lambda>g. noisy_call (mem_GetItem g),
      UpdateItem = \<lambda>j. noisy_call (mem_UpdateItem j), DeleteItem = \<lambda>k. noisy_call (mem_DeleteItem k),
      Query = \<lambda>q. noisy_call (mem_Query q)\<rparr>"

definition noisy_repo :: "string \<Rightarrow> noisy DynamoRepository" where
  "noisy_repo start =
     \<lparr>client = noisy_client, tableName = ''bunshin-runners'', randHexFn = \<lambda>n. (start, n),
      marshalFn = \<lambda>x. Inr (runner_item x), unmarshalFn = \<lambda>it. Inr (item_runner it)\<rparr>"

definition noisy_table :: "noisy \<Rightarrow> (string \<rightharpoonup> item)" where
  "noisy_table n = mem_table (db n)"

lemma mem_table_put_runner:
  "attr it ''runnerId'' = rid \<Longrightarrow> mem_table (put_runner rid it m) = (mem_table m)(rid \<mapsto> it)"
  by (simp add: put_runner_def mem_table_def mem_lookup_Cons mem_lookup_remove del: mem_lookup.simps)

lemma attr_runner_item: "attr (runner_item x) ''runnerId'' = RunnerID x"
  by (simp add: attr_def runner_item_def)

lemma do_action_others: "others (runners_of (mem_table m)) (runners_of (mem_table (do_action a m)))"
proof (cases a)
  case (Registered rid host)
  have "attr (runner_item (new_runner rid host)) ''runnerId'' = rid"
    by (simp add: attr_runner_item new_runner_def)
  then show ?thesis using Registered
    by (auto simp: mem_table_put_runner others_refl intro!: others_step [of _ "Registered rid host"])
next
  case (Assigned rid sid)
  show ?thesis
  proof (cases "mem_table m rid")
    case None
    then show ?thesis using Assigned by (simp add: others_refl)
  next
    case (Some it)
    then have "attr (runner_item (assigned sid (item_runner it))) ''runnerId'' = rid"
      using mem_lookup_key [of "mem_items m" rid it]
      by (simp add: attr_runner_item assigned_def mem_table_def)
    then show ?thesis using Assigned Some
      by (auto simp: mem_table_put_runner others_refl intro!: others_step [of _ "Assigned rid sid"])
  qed
next
  case (Deleted rid)
  then have "mem_table (do_action a m) = (mem_table m)(rid := None)"
    by (simp add: mem_table_def mem_lookup_remove)
  then show ?thesis by (auto intro: others_step [of _ "Deleted rid"])
qed

lemma interfere_others: "others (runners_of (noisy_table n)) (runners_of (noisy_table (interfere n)))"
proof -
  have "others (runners_of (mem_table m)) (runners_of (mem_table (fold do_action as m)))" for as m
    by (induction as arbitrary: m) (auto simp: others_refl intro: others_trans do_action_others)
  then show ?thesis by (simp add: interfere_def noisy_table_def others_refl split: list.split)
qed

lemma noisy_callE:
  assumes "noisy_call f n = (res, n')"
  obtains m where "f (db (interfere n)) = (res, m)" "n' = (interfere n)\<lparr>db := m\<rparr>"
    "noisy_table n' = mem_table m"
  using assms by (auto simp: noisy_call_def Let_def noisy_table_def split: prod.splits)

interpretation noisy_db: dynamo_service "noisy_repo start" noisy_table others for start :: string
proof (unfold_locales, goal_cases)
  case (1 t)
  show ?case by (rule others_refl)
next
  case (2 t u v)
  then show ?case by (rule others_trans)
next
  case (3 x)
  show ?case by (simp add: noisy_repo_def)
next
  case (4 it)
  show ?case by (simp add: noisy_repo_def)
next
  case (5 n s n')
  then show ?case by (simp add: noisy_repo_def others_refl)
next
  case (6 i n res n')
  then have "noisy_call (mem_PutItem i) n = (res, n')" by (simp add: noisy_repo_def noisy_client_def)
  then obtain m where "mem_PutItem i (db (interfere n)) = (res, m)" "noisy_table n' = mem_table m"
    by (elim noisy_callE)
  with mem_put_law [of i "db (interfere n)" res m] 6(3) interfere_others [of n] show ?case
    by (intro exI [of _ "noisy_table (interfere n)"]) (auto simp: noisy_table_def split: option.splits)
next
  case (7 j n res n')
  then have "noisy_call (mem_UpdateItem j) n = (res, n')" by (simp add: noisy_repo_def noisy_client_def)
  then obtain m where "mem_UpdateItem j (db (interfere n)) = (res, m)" "noisy_table n' = mem_table m"
    by (elim noisy_callE)
  with mem_update_law [of j "db (interfere n)" res m] 7(5) interfere_others [of n] show ?case
    by (intro exI [of _ "noisy_table (interfere n)"]) (auto simp: noisy_table_def split: option.splits)
next
  case (8 k n res n')
  then have "noisy_call (mem_DeleteItem k) n = (res, n')" by (simp add: noisy_repo_def noisy_client_def)
  then obtain m where "mem_DeleteItem k (db (interfere n)) = (res, m)" "noisy_table n' = mem_table m"
    by (elim noisy_callE)
  with mem_delete_law [of k "db (interfere n)" res m] interfere_others [of n] show ?case
    by (intro exI [of _ "noisy_table (interfere n)"]) (simp add: noisy_table_def)
next
  case (9 g n ans n')
  then have "noisy_call (mem_GetItem g) n = (ans, n')" by (simp add: noisy_repo_def noisy_client_def)
  then show ?case using interfere_others [of n]
    by (elim noisy_callE) (auto simp: mem_GetItem_def noisy_table_def)
next
  case (10 q n page n')
  then have "noisy_call (mem_Query q) n = (page, n')" by (simp add: noisy_repo_def noisy_client_def)
  then show ?case using interfere_others [of n]
    by (elim noisy_callE) (auto simp: mem_Query_def Let_def noisy_table_def)
qed

end
