(* ===== verification/Firestore_Store.thy ===== *)
theory Firestore_Store
  imports Repository
begin

text \<open>
  \<open>broker/store/firestore.go\<close>: the store on Firestore, over the interface
  \<open>FirestoreClientAPI\<close> that the package declares. \<open>firestore_service\<close> is what the store relies
  on in that interface with other brokers at work, \<open>settled_firestore\<close> what it relies on alone;
  both give the contracts of \<open>Repository\<close>, as the DynamoDB store does.
\<close>

section \<open>Documents\<close>

text \<open>A value of type \<open>any\<close> in a document: \<open>nil\<close>, a string, or something else.\<close>

datatype any = Null | Str string | Other

type_synonym doc = "string \<rightharpoonup> any"

definition FieldPrivateHost :: string where "FieldPrivateHost = ''privateHost''"
definition FieldCurrentSessionID :: string where "FieldCurrentSessionID = ''currentSessionId''"

lemma fields_neq [simp]: "FieldPrivateHost \<noteq> FieldCurrentSessionID" "FieldCurrentSessionID \<noteq> FieldPrivateHost"
  by (simp_all add: FieldPrivateHost_def FieldCurrentSessionID_def)

record runnerDoc =
  docRunnerID :: string
  docPrivateHost :: string
  docCurrentSessionID :: string

definition toModel :: "runnerDoc \<Rightarrow> Runner" where
  "toModel d =
     \<lparr>RunnerID = docRunnerID d,
      State = (if docCurrentSessionID d = [] then StateIdle else StateBusy),
      CurrentSessionID = docCurrentSessionID d, PrivateHost = docPrivateHost d\<rparr>"

definition malformed :: "string \<Rightarrow> string \<Rightarrow> go_error" where
  "malformed runnerID what = ErrorString (''firestore doc '' @ Quote runnerID @ '': '' @ what)"

definition snapshotToDoc :: "string \<Rightarrow> doc \<Rightarrow> go_error + runnerDoc" where
  "snapshotToDoc runnerID data =
     (case data FieldPrivateHost of
        Some (Str priv) \<Rightarrow>
          (case data FieldCurrentSessionID of
             None \<Rightarrow> Inl (malformed runnerID ''currentSessionId field missing'')
           | Some Null \<Rightarrow>
               Inr \<lparr>docRunnerID = runnerID, docPrivateHost = priv, docCurrentSessionID = []\<rparr>
           | Some (Str s) \<Rightarrow>
               Inr \<lparr>docRunnerID = runnerID, docPrivateHost = priv, docCurrentSessionID = s\<rparr>
           | Some Other \<Rightarrow> Inl (malformed runnerID ''currentSessionId not string or null''))
      | _ \<Rightarrow> Inl (malformed runnerID ''privateHost missing or not string''))"

section \<open>The interface to the client\<close>

type_synonym FirestoreDocSnapshot = "string \<times> doc"

text \<open>A transaction works on a state \<open>'x\<close> of its own, a view of the documents.\<close>

record 'x FirestoreTx =
  tx_Get :: "string \<Rightarrow> 'x \<Rightarrow> (go_error + doc option) \<times> 'x"
  tx_Update :: "string \<Rightarrow> string \<Rightarrow> any \<Rightarrow> 'x \<Rightarrow> go_error option \<times> 'x"

text \<open>
  An iterator is a handle into the world. \<open>Next\<close> gives an error, the end, or a document.
  Reading a page of a query takes as long as the iterator gives documents, so it may not return.
\<close>

record ('w, 'x) FirestoreClientAPI =
  api_Create :: "string \<Rightarrow> doc \<Rightarrow> 'w \<Rightarrow> go_error option \<times> 'w"
  api_Get :: "string \<Rightarrow> 'w \<Rightarrow> (go_error + doc option) \<times> 'w"
  api_Delete :: "string \<Rightarrow> 'w \<Rightarrow> go_error option \<times> 'w"
  api_QueryIdleRange :: "string \<Rightarrow> string \<Rightarrow> nat \<Rightarrow> 'w \<Rightarrow>
    ((go_error + FirestoreDocSnapshot list) \<times> 'w) option"
  api_IterBusy :: "'w \<Rightarrow> nat \<times> 'w"
  api_Next :: "nat \<Rightarrow> 'w \<Rightarrow> (go_error + (string \<times> doc) option) \<times> 'w"
  api_Stop :: "nat \<Rightarrow> 'w \<Rightarrow> 'w"
  api_QueryBySession :: "string \<Rightarrow> 'w \<Rightarrow> (go_error + (string \<times> doc) option) \<times> 'w"
  api_RunTx :: "('x FirestoreTx \<Rightarrow> 'x \<Rightarrow> go_error option \<times> 'x) \<Rightarrow> 'w \<Rightarrow> go_error option \<times> 'w"
  api_Close :: "'w \<Rightarrow> go_error option \<times> 'w"

record ('w, 'x) FirestoreRepository =
  api :: "('w, 'x) FirestoreClientAPI"
  fs_randHexFn :: "'w \<Rightarrow> string \<times> 'w"

definition NewFirestoreRepositoryWithAPI ::
  "('w, 'x) FirestoreClientAPI \<Rightarrow> ('w \<Rightarrow> 64 word \<times> 'w) \<Rightarrow> ('w, 'x) FirestoreRepository" where
  "NewFirestoreRepositoryWithAPI a randUint64 =
     \<lparr>api = a, fs_randHexFn = defaultRandHexFn randUint64\<rparr>"

section \<open>The operations\<close>

definition firestore_Close :: "('w, 'x) FirestoreRepository \<Rightarrow> 'w \<Rightarrow> go_error option \<times> 'w" where
  "firestore_Close r w = api_Close (api r) w"

definition new_doc :: "string \<Rightarrow> doc" where
  "new_doc privateHost = [FieldPrivateHost \<mapsto> Str privateHost, FieldCurrentSessionID \<mapsto> Null]"

definition firestore_Register ::
  "('w, 'x) FirestoreRepository \<Rightarrow> string \<Rightarrow> string \<Rightarrow> 'w \<Rightarrow> go_error option \<times> 'w" where
  "firestore_Register r runnerID privateHost w =
     (if \<not> runnerIDRe runnerID then (Some (Sentinel ErrInvalidRunnerID), w)
      else if privateHost = [] then (Some (Sentinel ErrInvalidPrivateHost), w)
      else api_Create (api r) runnerID (new_doc privateHost) w)"

text \<open>The body of the transaction of \<open>assignSession\<close>.\<close>

definition assign_tx ::
  "string \<Rightarrow> string \<Rightarrow> 'x FirestoreTx \<Rightarrow> 'x \<Rightarrow> go_error option \<times> 'x" where
  "assign_tx runnerID sessionID tx x =
     (case tx_Get tx runnerID x of
        (Inl err, x1) \<Rightarrow> (Some err, x1)
      | (Inr None, x1) \<Rightarrow> (Some (Sentinel ErrConditionFailed), x1)
      | (Inr (Some data), x1) \<Rightarrow>
          if data FieldCurrentSessionID \<noteq> Some Null then (Some (Sentinel ErrConditionFailed), x1)
          else tx_Update tx runnerID FieldCurrentSessionID (Str sessionID) x1)"

definition firestore_assignSession ::
  "('w, 'x) FirestoreRepository \<Rightarrow> string \<Rightarrow> string \<Rightarrow> 'w \<Rightarrow> go_error option \<times> 'w" where
  "firestore_assignSession r runnerID sessionID w =
     api_RunTx (api r) (assign_tx runnerID sessionID) w"

fun assignFirstIdle ::
  "('w, 'x) FirestoreRepository \<Rightarrow> string \<Rightarrow> FirestoreDocSnapshot list \<Rightarrow> string set \<Rightarrow> 'w \<Rightarrow>
   (go_error + Runner option) \<times> string set \<times> 'w" where
  "assignFirstIdle r sessionID [] tried w = (Inr None, tried, w)"
| "assignFirstIdle r sessionID ((ident, data) # candidates) tried w =
     (if ident \<in> tried then assignFirstIdle r sessionID candidates tried w
      else case snapshotToDoc ident data of
        Inl err \<Rightarrow> assignFirstIdle r sessionID candidates (insert ident tried) w
      | Inr d \<Rightarrow>
          (case firestore_assignSession r ident sessionID w of
             (None, w1) \<Rightarrow>
               (Inr (Some \<lparr>RunnerID = ident, State = StateBusy, CurrentSessionID = sessionID,
                           PrivateHost = docPrivateHost d\<rparr>), tried, w1)
           | (Some err, w1) \<Rightarrow>
               if \<not> errors_Is err ErrConditionFailed then (Inl err, tried, w1)
               else assignFirstIdle r sessionID candidates (insert ident tried) w1))"

text \<open>The inner loop of \<open>AcquireIdle\<close>: the pages of one segment.\<close>

partial_function (option) idle_pages ::
  "('w, 'x) FirestoreRepository \<Rightarrow> string \<Rightarrow> string \<Rightarrow> string \<Rightarrow> string set \<Rightarrow> 'w \<Rightarrow>
   ((go_error + Runner option) \<times> string set \<times> 'w) option" where
  [code]: "idle_pages r sessionID after upTo tried w =
     (case api_QueryIdleRange (api r) after upTo acquireQueryLimit w of
        None \<Rightarrow> None
      | Some (Inl err, w1) \<Rightarrow> Some (Inl err, tried, w1)
      | Some (Inr snaps, w1) \<Rightarrow>
          if snaps = [] then Some (Inr None, tried, w1)
          else (case assignFirstIdle r sessionID snaps tried w1 of
             (Inl err, tried1, w2) \<Rightarrow> Some (Inl err, tried1, w2)
           | (Inr (Some runner), tried1, w2) \<Rightarrow> Some (Inr (Some runner), tried1, w2)
           | (Inr None, tried1, w2) \<Rightarrow>
               if length snaps < acquireQueryLimit then Some (Inr None, tried1, w2)
               else idle_pages r sessionID (fst (last snaps)) upTo tried1 w2))"

fun idle_segments ::
  "('w, 'x) FirestoreRepository \<Rightarrow> string \<Rightarrow> (string \<times> string) list \<Rightarrow> string set \<Rightarrow> 'w \<Rightarrow>
   ((go_error + Runner) \<times> 'w) option" where
  "idle_segments r sessionID [] tried w = Some (Inl (Sentinel ErrNoIdleRunner), w)"
| "idle_segments r sessionID ((after, upTo) # segs) tried w =
     (case idle_pages r sessionID after upTo tried w of
        None \<Rightarrow> None
      | Some (Inl err, tried1, w1) \<Rightarrow> Some (Inl err, w1)
      | Some (Inr (Some runner), tried1, w1) \<Rightarrow> Some (Inr runner, w1)
      | Some (Inr None, tried1, w1) \<Rightarrow> idle_segments r sessionID segs tried1 w1)"

definition firestore_AcquireIdle ::
  "('w, 'x) FirestoreRepository \<Rightarrow> string \<Rightarrow> 'w \<Rightarrow> ((go_error + Runner) \<times> 'w) option" where
  "firestore_AcquireIdle r sessionID w =
     (let (start, w1) = fs_randHexFn r w
      in idle_segments r sessionID [(start, []), ([], start)] {} w1)"

text \<open>The loop of \<open>ListBusyRunners\<close>; the caller stops the iterator on every way out.\<close>

partial_function (option) list_busy_docs ::
  "('w, 'x) FirestoreRepository \<Rightarrow> nat \<Rightarrow> Runner list \<Rightarrow> 'w \<Rightarrow> ((go_error + Runner list) \<times> 'w) option" where
  [code]: "list_busy_docs r iter runners w =
     (case api_Next (api r) iter w of
        (Inl err, w1) \<Rightarrow> Some (Inl err, w1)
      | (Inr None, w1) \<Rightarrow> Some (Inr runners, w1)
      | (Inr (Some (ident, data)), w1) \<Rightarrow>
          (case snapshotToDoc ident data of
             Inl err \<Rightarrow> list_busy_docs r iter runners w1
           | Inr d \<Rightarrow> list_busy_docs r iter (runners @ [toModel d]) w1))"

definition firestore_ListBusyRunners ::
  "('w, 'x) FirestoreRepository \<Rightarrow> 'w \<Rightarrow> ((go_error + Runner list) \<times> 'w) option" where
  "firestore_ListBusyRunners r w =
     (let (iter, w1) = api_IterBusy (api r) w
      in case list_busy_docs r iter [] w1 of
           None \<Rightarrow> None
         | Some (res, w2) \<Rightarrow> Some (res, api_Stop (api r) iter w2))"

definition firestore_FindBySessionID ::
  "('w, 'x) FirestoreRepository \<Rightarrow> string \<Rightarrow> 'w \<Rightarrow> (go_error + Runner) \<times> 'w" where
  "firestore_FindBySessionID r sessionID w =
     (case api_QueryBySession (api r) sessionID w of
        (Inl err, w1) \<Rightarrow> (Inl err, w1)
      | (Inr None, w1) \<Rightarrow> (Inl (Sentinel ErrNotFound), w1)
      | (Inr (Some (ident, data)), w1) \<Rightarrow>
          (case snapshotToDoc ident data of
             Inl err \<Rightarrow> (Inl err, w1)
           | Inr d \<Rightarrow> (Inr (toModel d), w1)))"

definition firestore_FindByID ::
  "('w, 'x) FirestoreRepository \<Rightarrow> string \<Rightarrow> 'w \<Rightarrow> (go_error + Runner) \<times> 'w" where
  "firestore_FindByID r runnerID w =
     (case api_Get (api r) runnerID w of
        (Inl err, w1) \<Rightarrow> (Inl err, w1)
      | (Inr None, w1) \<Rightarrow> (Inl (Sentinel ErrNotFound), w1)
      | (Inr (Some data), w1) \<Rightarrow>
          (case snapshotToDoc runnerID data of
             Inl err \<Rightarrow> (Inl err, w1)
           | Inr d \<Rightarrow> (Inr (toModel d), w1)))"

definition firestore_Delete :: "('w, 'x) FirestoreRepository \<Rightarrow> string \<Rightarrow> 'w \<Rightarrow> go_error option \<times> 'w" where
  "firestore_Delete r runnerID w = api_Delete (api r) runnerID w"

definition firestore_Repository :: "('w, 'x) FirestoreRepository \<Rightarrow> 'w Repository" where
  "firestore_Repository r =
     \<lparr>Register = firestore_Register r, AcquireIdle = firestore_AcquireIdle r,
      ListBusyRunners = firestore_ListBusyRunners r, FindBySessionID = firestore_FindBySessionID r,
      FindByID = firestore_FindByID r, Delete = firestore_Delete r\<rparr>"

section \<open>Documents and runners\<close>

definition doc_runner :: "string \<Rightarrow> doc \<Rightarrow> Runner option" where
  "doc_runner rid d = (case snapshotToDoc rid d of Inl e \<Rightarrow> None | Inr x \<Rightarrow> Some (toModel x))"

definition docs_runners :: "(string \<rightharpoonup> doc) \<Rightarrow> runners" where
  "docs_runners t = (\<lambda>rid. case t rid of None \<Rightarrow> None | Some d \<Rightarrow> doc_runner rid d)"

text \<open>
  The documents that brokers write: well-formed, and with \<open>nil\<close>, never an empty text, for a
  runner without a session.
\<close>

definition docs_ok :: "(string \<rightharpoonup> doc) \<Rightarrow> bool" where
  "docs_ok t \<longleftrightarrow> (\<forall>rid d. t rid = Some d \<longrightarrow>
     doc_runner rid d \<noteq> None \<and> d FieldCurrentSessionID \<noteq> Some (Str []))"

lemma docs_runners_None: "docs_ok t \<Longrightarrow> docs_runners t rid = None \<longleftrightarrow> t rid = None"
  by (auto simp: docs_runners_def docs_ok_def split: option.splits)

lemma docs_runners_Some:
  "docs_runners t rid = Some x \<longleftrightarrow> (\<exists>d. t rid = Some d \<and> doc_runner rid d = Some x)"
  by (auto simp: docs_runners_def split: option.splits)

lemma docs_runners_upd: "docs_runners (t(rid \<mapsto> d)) = (docs_runners t)(rid := doc_runner rid d)"
  by (auto simp: docs_runners_def)

lemma docs_runners_del: "docs_runners (t(rid := None)) = (docs_runners t)(rid := None)"
  by (auto simp: docs_runners_def)

lemma doc_runner_new: "doc_runner rid (new_doc host) = Some (new_runner rid host)"
  by (simp add: doc_runner_def snapshotToDoc_def new_doc_def toModel_def new_runner_def)

lemma doc_runner_cases:
  assumes "doc_runner rid d = Some x"
  obtains (idle) priv where "d FieldPrivateHost = Some (Str priv)" "d FieldCurrentSessionID = Some Null"
      "x = new_runner rid priv"
  | (session) priv s where "d FieldPrivateHost = Some (Str priv)" "d FieldCurrentSessionID = Some (Str s)"
      "x = \<lparr>RunnerID = rid, State = (if s = [] then StateIdle else StateBusy), CurrentSessionID = s,
            PrivateHost = priv\<rparr>"
  using assms
  by (auto simp: doc_runner_def snapshotToDoc_def toModel_def new_runner_def
      split: option.splits any.splits)

lemma doc_runner_idle:
  assumes "doc_runner rid d = Some x" and "d FieldCurrentSessionID \<noteq> Some (Str [])"
  shows "IsIdle x \<longleftrightarrow> d FieldCurrentSessionID = Some Null"
  using assms(1) by (cases rule: doc_runner_cases) (use assms(2) in \<open>auto simp: IsIdle_def new_runner_def\<close>)

lemma doc_runner_assign:
  assumes "doc_runner rid d = Some x" and "d FieldCurrentSessionID = Some Null" and "sid \<noteq> []"
  shows "doc_runner rid (d(FieldCurrentSessionID \<mapsto> Str sid)) = Some (assigned sid x)"
  using assms(1)
  by (cases rule: doc_runner_cases)
    (use assms(2,3) in \<open>auto simp: doc_runner_def snapshotToDoc_def toModel_def new_runner_def assigned_def\<close>)

lemma doc_runner_session:
  assumes "doc_runner rid d = Some x" and "sid \<noteq> []"
  shows "CurrentSessionID x = sid \<longleftrightarrow> d FieldCurrentSessionID = Some (Str sid)"
  using assms(1) by (cases rule: doc_runner_cases) (use assms(2) in \<open>auto simp: new_runner_def\<close>)

lemma doc_runner_id: "doc_runner rid d = Some x \<Longrightarrow> RunnerID x = rid"
  by (elim doc_runner_cases) (simp_all add: new_runner_def)

section \<open>What the store relies on\<close>

text \<open>
  A transaction reads the view that it started on, with its own updates; an update needs the
  document to be there.
\<close>

definition tx_ok :: "('x \<Rightarrow> string \<rightharpoonup> doc) \<Rightarrow> 'x FirestoreTx \<Rightarrow> bool" where
  "tx_ok view tx \<longleftrightarrow>
     (\<forall>rid x ans x'. tx_Get tx rid x = (ans, x') \<longrightarrow> view x' = view x \<and>
        (case ans of Inl e \<Rightarrow> foreign e | Inr d \<Rightarrow> d = view x rid)) \<and>
     (\<forall>rid f v x res x'. tx_Update tx rid f v x = (res, x') \<longrightarrow>
        (case res of
           None \<Rightarrow> \<exists>d. view x rid = Some d \<and> view x' = (view x)(rid \<mapsto> d(f \<mapsto> v))
         | Some e \<Rightarrow> foreign e))"

locale firestore_service =
  fixes r :: "('w, 'x) FirestoreRepository"
    and docs :: "'w \<Rightarrow> (string \<rightharpoonup> doc)"
    and env :: "runners \<Rightarrow> runners \<Rightarrow> bool"
    and view :: "'x \<Rightarrow> (string \<rightharpoonup> doc)"
  assumes env_refl: "env t t"
    and env_trans: "env t u \<Longrightarrow> env u v \<Longrightarrow> env t v"
    and docs_fine: "docs_ok (docs w)"
    and rand_env: "fs_randHexFn r w = (s, w') \<Longrightarrow> env (docs_runners (docs w)) (docs_runners (docs w'))"
    and create_law: "api_Create (api r) rid d w = (res, w') \<Longrightarrow>
      \<exists>t. docs_ok t \<and> env (docs_runners (docs w)) (docs_runners t) \<and>
        (case res of
           None \<Rightarrow> t rid = None \<and> docs w' = t(rid \<mapsto> d)
         | Some e \<Rightarrow>
             if errors_Is e ErrConflict then t rid \<noteq> None \<and> docs w' = t
             else docs w' = t \<or> (t rid = None \<and> docs w' = t(rid \<mapsto> d)))"
    and get_law: "api_Get (api r) rid w = (ans, w') \<Longrightarrow>
      env (docs_runners (docs w)) (docs_runners (docs w')) \<and>
      (case ans of Inl e \<Rightarrow> foreign e | Inr d \<Rightarrow> d = docs w' rid)"
    and delete_law: "api_Delete (api r) rid w = (res, w') \<Longrightarrow>
      \<exists>t. env (docs_runners (docs w)) (docs_runners t) \<and>
        (case res of
           None \<Rightarrow> docs w' = t(rid := None)
         | Some e \<Rightarrow> foreign e \<and> (docs w' = t \<or> docs w' = t(rid := None)))"
    and idle_law: "api_QueryIdleRange (api r) after upTo n w = Some (page, w') \<Longrightarrow>
      env (docs_runners (docs w)) (docs_runners (docs w')) \<and>
      (case page of Inl e \<Rightarrow> foreign e | Inr snaps \<Rightarrow> True)"
    and session_law: "api_QueryBySession (api r) sid w = (hit, w') \<Longrightarrow>
      env (docs_runners (docs w)) (docs_runners (docs w')) \<and>
      (case hit of Inl e \<Rightarrow> foreign e | Inr x \<Rightarrow> True)"
    and iter_law: "api_IterBusy (api r) w = (i, w') \<Longrightarrow> env (docs_runners (docs w)) (docs_runners (docs w'))"
    and next_law: "api_Next (api r) i w = (nxt, w') \<Longrightarrow> env (docs_runners (docs w)) (docs_runners (docs w'))"
    and stop_law: "env (docs_runners (docs w)) (docs_runners (docs (api_Stop (api r) i w)))"
    and tx_law: "api_RunTx (api r) (assign_tx rid sid) w = (res, w') \<Longrightarrow>
      \<exists>tx x0 res0 x1. docs_ok (view x0) \<and> env (docs_runners (docs w)) (docs_runners (view x0)) \<and>
        tx_ok view tx \<and> assign_tx rid sid tx x0 = (res0, x1) \<and>
        (case res of
           None \<Rightarrow> res0 = None \<and> docs w' = view x1
         | Some e \<Rightarrow>
             if errors_Is e ErrConditionFailed
             then (\<exists>e0. res0 = Some e0 \<and> errors_Is e0 ErrConditionFailed) \<and> docs w' = view x0
             else \<not> errors_Is e ErrNoIdleRunner \<and>
               (docs w' = view x0 \<or> (res0 = None \<and> docs w' = view x1)))"
begin

abbreviation abs :: "'w \<Rightarrow> runners" where
  "abs w \<equiv> docs_runners (docs w)"

abbreviation acq :: "string \<Rightarrow> 'w \<Rightarrow> go_error + Runner option \<Rightarrow> 'w \<Rightarrow> bool" where
  "acq sid w res w' \<equiv> acquired env sid (abs w) res (abs w')"

lemma acquired_after:
  assumes "env (abs w) (abs w1)" and "acq sid w1 res w2"
  shows "acq sid w res w2"
  using env_trans assms by (rule acquired_trans)

lemma register_result:
  assumes reg: "firestore_Register r rid host w = (res, w')"
  shows "\<exists>t. env (abs w) t \<and>
    (case res of
       None \<Rightarrow> store_step t (Registered rid host) (abs w')
     | Some e \<Rightarrow> (abs w' = t \<or> store_step t (Registered rid host) (abs w')) \<and>
         (errors_Is e ErrConflict \<longrightarrow> abs w' = t \<and> t rid \<noteq> None))"
proof (cases "runnerIDRe rid \<and> host \<noteq> []")
  case False
  then have "res \<in> {Some (Sentinel ErrInvalidRunnerID), Some (Sentinel ErrInvalidPrivateHost)} \<and> w' = w"
    using reg by (auto simp: firestore_Register_def split: if_splits)
  then show ?thesis by (auto intro!: exI [of _ "abs w"] env_refl)
next
  case True
  with reg have create: "api_Create (api r) rid (new_doc host) w = (res, w')"
    by (simp add: firestore_Register_def)
  have step: "store_step (docs_runners t) (Registered rid host) (docs_runners (t(rid \<mapsto> new_doc host)))"
    if "docs_ok t" "t rid = None" for t
    using True that by (auto simp: docs_runners_upd doc_runner_new docs_runners_None)
  obtain t where t: "docs_ok t" "env (abs w) (docs_runners t)" and law: "case res of
      None \<Rightarrow> t rid = None \<and> docs w' = t(rid \<mapsto> new_doc host)
    | Some e \<Rightarrow>
        if errors_Is e ErrConflict then t rid \<noteq> None \<and> docs w' = t
        else docs w' = t \<or> (t rid = None \<and> docs w' = t(rid \<mapsto> new_doc host))"
    using create_law [OF create] by blast
  show ?thesis
    using t law step [OF t(1)] docs_runners_None [OF t(1), of rid]
    by (intro exI [of _ "docs_runners t"])
      (auto simp del: store_step_Registered not_None_eq split: option.splits if_splits)
qed

lemma assign_tx_result:
  assumes run: "assign_tx rid sid tx x = (res, x')" and tx: "tx_ok view tx" and ok: "docs_ok (view x)"
    and sid: "sid \<noteq> []"
  shows "case res of
      None \<Rightarrow> store_step (docs_runners (view x)) (Assigned rid sid) (docs_runners (view x'))
    | Some e \<Rightarrow> errors_Is e ErrConditionFailed \<longrightarrow>
        \<not> (\<exists>y. docs_runners (view x) rid = Some y \<and> IsIdle y)"
proof -
  obtain ans x1 where get: "tx_Get tx rid x = (ans, x1)" by (cases "tx_Get tx rid x")
  with tx have view1: "view x1 = view x" and ans: "case ans of Inl e \<Rightarrow> foreign e | Inr d \<Rightarrow> d = view x rid"
    unfolding tx_ok_def by blast+
  show ?thesis
  proof (cases ans)
    case (Inl e)
    with run get ans show ?thesis by (auto simp: assign_tx_def)
  next
    case (Inr od)
    with ans have od: "od = view x rid" by simp
    show ?thesis
    proof (cases od)
      case None
      with run get Inr od show ?thesis by (auto simp: assign_tx_def docs_runners_Some)
    next
      case (Some d)
      with od have d: "view x rid = Some d" by simp
      with ok obtain y where y: "doc_runner rid d = Some y" "d FieldCurrentSessionID \<noteq> Some (Str [])"
        by (auto simp: docs_ok_def)
      show ?thesis
      proof (cases "d FieldCurrentSessionID = Some Null")
        case False
        then have "\<not> IsIdle y" using doc_runner_idle [OF y] by simp
        then show ?thesis using run get Inr Some False d y
          by (auto simp: assign_tx_def docs_runners_Some)
      next
        case True
        then have upd: "tx_Update tx rid FieldCurrentSessionID (Str sid) x1 = (res, x')"
          using run get Inr Some by (simp add: assign_tx_def)
        show ?thesis
        proof (cases res)
          case None
          with tx upd view1 d have "view x' = (view x)(rid \<mapsto> d(FieldCurrentSessionID \<mapsto> Str sid))"
            unfolding tx_ok_def by fastforce
          then have "docs_runners (view x') = (docs_runners (view x))(rid \<mapsto> assigned sid y)"
            by (simp add: docs_runners_upd doc_runner_assign [OF y(1) True sid])
          then show ?thesis using None d y doc_runner_idle [OF y] True by (auto simp: docs_runners_Some)
        next
          case (Some e)
          with tx upd have "foreign e" unfolding tx_ok_def by fastforce
          then show ?thesis using Some by simp
        qed
      qed
    qed
  qed
qed

lemma assign_result:
  assumes asg: "firestore_assignSession r rid sid w = (res, w')" and sid: "sid \<noteq> []"
  shows "\<exists>t. env (abs w) t \<and>
    (case res of
       None \<Rightarrow> store_step t (Assigned rid sid) (abs w')
     | Some e \<Rightarrow> \<not> errors_Is e ErrNoIdleRunner \<and>
        (if errors_Is e ErrConditionFailed then abs w' = t \<and> \<not> (\<exists>x. t rid = Some x \<and> IsIdle x)
         else abs w' = t \<or> store_step t (Assigned rid sid) (abs w')))"
proof -
  from tx_law [OF asg [unfolded firestore_assignSession_def]] obtain tx x0 res0 x1
    where x0: "docs_ok (view x0)" "env (abs w) (docs_runners (view x0))" and tx: "tx_ok view tx"
      and run: "assign_tx rid sid tx x0 = (res0, x1)" and law: "case res of
           None \<Rightarrow> res0 = None \<and> docs w' = view x1
         | Some e \<Rightarrow>
             if errors_Is e ErrConditionFailed
             then (\<exists>e0. res0 = Some e0 \<and> errors_Is e0 ErrConditionFailed) \<and> docs w' = view x0
             else \<not> errors_Is e ErrNoIdleRunner \<and>
               (docs w' = view x0 \<or> (res0 = None \<and> docs w' = view x1))" by blast
  note step = assign_tx_result [OF run tx x0(1) sid]
  show ?thesis
  proof (cases res)
    case None
    with law step x0(2) show ?thesis
      by (intro exI [of _ "docs_runners (view x0)"]) (simp del: store_step_Assigned)
  next
    case (Some e)
    show ?thesis
    proof (cases "errors_Is e ErrConditionFailed")
      case True
      with law step x0(2) Some show ?thesis
        by (intro exI [of _ "docs_runners (view x0)"]) (auto dest: errors_Is_unique)
    next
      case False
      with law step x0(2) Some show ?thesis
        by (intro exI [of _ "docs_runners (view x0)"]) (auto simp del: store_step_Assigned)
    qed
  qed
qed

end

section \<open>The loops while others write\<close>

context firestore_service
begin

lemma assignFirstIdle_acquired:
  "assignFirstIdle r sid cands tried w = (res, tried', w') \<Longrightarrow> sid \<noteq> [] \<Longrightarrow> acq sid w res w'"
proof (induction cands arbitrary: tried w)
  case Nil
  then have "res = Inr None \<and> w' = w" by auto
  then show ?case by (simp add: acquired_def env_refl)
next
  case (Cons c cands)
  obtain ident data where c: "c = (ident, data)" by (cases c)
  show ?case
  proof (cases "ident \<in> tried \<or> (\<exists>e. snapshotToDoc ident data = Inl e)")
    case True
    with Cons show ?thesis by (auto simp: c split: if_splits)
  next
    case False
    then obtain d where d: "snapshotToDoc ident data = Inr d" by (cases "snapshotToDoc ident data") auto
    obtain res1 w1 where asg: "firestore_assignSession r ident sid w = (res1, w1)"
      by (cases "firestore_assignSession r ident sid w")
    from assign_result [OF asg Cons.prems(2)] obtain t where t: "env (abs w) t" and law: "case res1 of
        None \<Rightarrow> store_step t (Assigned ident sid) (abs w1)
      | Some e \<Rightarrow> \<not> errors_Is e ErrNoIdleRunner \<and>
         (if errors_Is e ErrConditionFailed then abs w1 = t \<and> \<not> (\<exists>x. t ident = Some x \<and> IsIdle x)
          else abs w1 = t \<or> store_step t (Assigned ident sid) (abs w1))" by blast
    show ?thesis
    proof (cases res1)
      case None
      with law t False d asg Cons.prems show ?thesis
        by (auto simp: acquired_def c simp del: store_step_Assigned)
    next
      case (Some e)
      show ?thesis
      proof (cases "errors_Is e ErrConditionFailed")
        case True
        with law t Some have "env (abs w) (abs w1)" by simp
        moreover have "assignFirstIdle r sid cands (insert ident tried) w1 = (res, tried', w')"
          using True False d Some asg Cons.prems by (simp add: c)
        then have "acq sid w1 res w'" using Cons.prems(2) by (rule Cons.IH)
        ultimately show ?thesis by (rule acquired_after)
      next
        case cf: False
        with law t Some False d asg Cons.prems show ?thesis
          by (auto simp: acquired_def c simp del: store_step_Assigned)
      qed
    qed
  qed
qed

lemma idle_pages_acquired:
  assumes ret: "idle_pages r sid after upTo tried w = Some (res, tried', w')" and ne: "sid \<noteq> []"
  shows "acq sid w res w'"
proof -
  have "r' = r \<and> sid \<noteq> [] \<longrightarrow> acq sid w (fst out) (snd (snd out))"
    if "idle_pages r' sid after upTo tried w = Some out" for r' out
  proof (rule idle_pages.raw_induct
      [where P = "\<lambda>r' sid after upTo tried w out. r' = r \<and> sid \<noteq> [] \<longrightarrow>
         acq sid w (fst out) (snd (snd out))", OF _ that], rule impI)
    fix f :: "('w, 'x) FirestoreRepository \<Rightarrow> string \<Rightarrow> string \<Rightarrow> string \<Rightarrow> string set \<Rightarrow> 'w \<Rightarrow>
        ((go_error + Runner option) \<times> string set \<times> 'w) option"
      and r' sid after upTo tried w out
    assume IH: "\<And>r' sid after upTo tried w out. f r' sid after upTo tried w = Some out \<Longrightarrow>
        r' = r \<and> sid \<noteq> [] \<longrightarrow> acq sid w (fst out) (snd (snd out))"
      and "r' = r \<and> sid \<noteq> []"
      and eq: "(case api_QueryIdleRange (api r') after upTo acquireQueryLimit w of
        None \<Rightarrow> None
      | Some (Inl err, w1) \<Rightarrow> Some (Inl err, tried, w1)
      | Some (Inr snaps, w1) \<Rightarrow>
          if snaps = [] then Some (Inr None, tried, w1)
          else (case assignFirstIdle r' sid snaps tried w1 of
             (Inl err, tried1, w2) \<Rightarrow> Some (Inl err, tried1, w2)
           | (Inr (Some runner), tried1, w2) \<Rightarrow> Some (Inr (Some runner), tried1, w2)
           | (Inr None, tried1, w2) \<Rightarrow>
               if length snaps < acquireQueryLimit then Some (Inr None, tried1, w2)
               else f r' sid (fst (last snaps)) upTo tried1 w2)) = Some out"
    then have r: "r' = r" and sid: "sid \<noteq> []" by simp_all
    obtain page w1 where pg: "api_QueryIdleRange (api r) after upTo acquireQueryLimit w = Some (page, w1)"
      using eq r by (cases "api_QueryIdleRange (api r) after upTo acquireQueryLimit w") auto
    have env1: "env (abs w) (abs w1)" "case page of Inl e \<Rightarrow> foreign e | Inr snaps \<Rightarrow> True"
      using idle_law [OF pg] by simp_all
    show "acq sid w (fst out) (snd (snd out))"
    proof (cases page)
      case (Inl e)
      with eq pg r env1 show ?thesis by (auto simp: acquired_def)
    next
      case (Inr snaps)
      obtain res1 tried1 w2 where af: "assignFirstIdle r sid snaps tried w1 = (res1, tried1, w2)"
        by (cases "assignFirstIdle r sid snaps tried w1")
      have acq2: "acq sid w res1 w2"
        using env1(1) assignFirstIdle_acquired [OF af sid] by (rule acquired_after)
      consider "snaps = []" "out = (Inr None, tried, w1)"
        | "out = (res1, tried1, w2)"
        | "res1 = Inr None" "f r sid (fst (last snaps)) upTo tried1 w2 = Some out"
      proof (cases "snaps = []")
        case True
        then show ?thesis using eq pg Inr r that(1) by simp
      next
        case False
        note eq' = eq [unfolded r pg Inr option.case prod.case sum.case af if_not_P [OF False]]
        show ?thesis
        proof (cases "res1 = Inr None")
          case True
          then have "out = (res1, tried1, w2) \<or> f r sid (fst (last snaps)) upTo tried1 w2 = Some out"
            using eq' by (cases "length snaps < acquireQueryLimit") simp_all
          then show ?thesis using that(2) that(3) [OF True] by blast
        next
          case False
          then have "out = (res1, tried1, w2)" using eq' by (cases res1) (auto split: option.splits)
          then show ?thesis by (rule that(2))
        qed
      qed
      then show ?thesis
      proof cases
        case 1
        then show ?thesis using env1(1) by (simp add: acquired_def)
      next
        case 2
        then show ?thesis using acq2 by simp
      next
        case 3
        from IH [OF 3(2)] sid have "acq sid w2 (fst out) (snd (snd out))" by simp
        moreover have "env (abs w) (abs w2)" using acq2 3(1) by (simp add: acquired_def)
        ultimately show ?thesis by (rule acquired_after [rotated])
      qed
    qed
  qed
  from this [OF ret] ne show ?thesis by simp
qed

lemma idle_segments_acquired:
  "idle_segments r sid segs tried w = Some (res, w') \<Longrightarrow> sid \<noteq> [] \<Longrightarrow>
   acq sid w (map_sum (\<lambda>e. e) Some res) w' \<or>
   (res = Inl (Sentinel ErrNoIdleRunner) \<and> env (abs w) (abs w'))"
proof (induction segs arbitrary: tried w)
  case Nil
  then show ?case by (auto simp: env_refl)
next
  case (Cons seg segs)
  obtain after upTo where seg: "seg = (after, upTo)" by (cases seg)
  from Cons.prems obtain res1 tried1 w1
    where pages: "idle_pages r sid after upTo tried w = Some (res1, tried1, w1)"
    by (auto simp: seg split: option.splits)
  note acq1 = idle_pages_acquired [OF pages Cons.prems(2)]
  show ?case
  proof (cases "res1 = Inr None")
    case True
    then have "idle_segments r sid segs tried1 w1 = Some (res, w')"
      using Cons.prems pages by (simp add: seg)
    note ih = Cons.IH [OF this Cons.prems(2)]
    have "env (abs w) (abs w1)" using acq1 True by (simp add: acquired_def)
    with ih show ?thesis by (blast intro: acquired_after env_trans)
  next
    case False
    then have "map_sum (\<lambda>e. e) Some res = res1 \<and> w' = w1"
      using Cons.prems pages by (auto simp: seg split: sum.splits option.splits)
    with acq1 show ?thesis by simp
  qed
qed

lemma acquire_result:
  assumes "firestore_AcquireIdle r sid w = Some (res, w')" and "sid \<noteq> []"
  shows "acq sid w (map_sum (\<lambda>e. e) Some res) w' \<or>
    (res = Inl (Sentinel ErrNoIdleRunner) \<and> env (abs w) (abs w'))"
proof -
  obtain start w1 where rnd: "fs_randHexFn r w = (start, w1)" by (cases "fs_randHexFn r w")
  then have "idle_segments r sid [(start, []), ([], start)] {} w1 = Some (res, w')"
    using assms(1) by (simp add: firestore_AcquireIdle_def)
  from idle_segments_acquired [OF this assms(2)] rand_env [OF rnd] show ?thesis
    by (blast intro: acquired_after env_trans)
qed

lemma list_docs_env:
  assumes ret: "list_busy_docs r iter acc w = Some (res, w')"
  shows "env (abs w) (abs w')"
proof -
  have "r' = r \<longrightarrow> env (abs w) (abs (snd out))"
    if "list_busy_docs r' iter acc w = Some out" for r' out
  proof (rule list_busy_docs.raw_induct
      [where P = "\<lambda>r' iter acc w out. r' = r \<longrightarrow> env (abs w) (abs (snd out))", OF _ that], rule impI)
    fix f :: "('w, 'x) FirestoreRepository \<Rightarrow> nat \<Rightarrow> Runner list \<Rightarrow> 'w \<Rightarrow>
        ((go_error + Runner list) \<times> 'w) option" and r' iter acc w out
    assume IH: "\<And>r' iter acc w out. f r' iter acc w = Some out \<Longrightarrow> r' = r \<longrightarrow> env (abs w) (abs (snd out))"
      and r: "r' = r"
      and eq: "(case api_Next (api r') iter w of
        (Inl err, w1) \<Rightarrow> Some (Inl err, w1)
      | (Inr None, w1) \<Rightarrow> Some (Inr acc, w1)
      | (Inr (Some (ident, data)), w1) \<Rightarrow>
          (case snapshotToDoc ident data of
             Inl err \<Rightarrow> f r' iter acc w1
           | Inr d \<Rightarrow> f r' iter (acc @ [toModel d]) w1)) = Some out"
    obtain nxt w1 where call: "api_Next (api r) iter w = (nxt, w1)" by (cases "api_Next (api r) iter w")
    have "w1 = snd out \<or> (\<exists>acc'. f r iter acc' w1 = Some out)"
      using eq call r by (cases nxt) (auto split: option.splits sum.splits)
    with next_law [OF call] IH show "env (abs w) (abs (snd out))" by (blast intro: env_trans)
  qed
  from this [OF ret] show ?thesis by simp
qed

lemma list_busy_env:
  assumes "firestore_ListBusyRunners r w = Some (res, w')"
  shows "env (abs w) (abs w')"
proof -
  obtain i w1 where it: "api_IterBusy (api r) w = (i, w1)" by (cases "api_IterBusy (api r) w")
  with assms obtain w2 where "list_busy_docs r i [] w1 = Some (res, w2)" "w' = api_Stop (api r) i w2"
    by (auto simp: firestore_ListBusyRunners_def split: option.splits)
  with iter_law [OF it] list_docs_env [of i "[]" w1 res w2] stop_law [of w2 i] show ?thesis
    by (blast intro: env_trans)
qed

lemma find_id_result:
  assumes "firestore_FindByID r rid w = (res, w')"
  shows "env (abs w) (abs w') \<and>
    (case res of
       Inr x \<Rightarrow> abs w' rid = Some x
     | Inl e \<Rightarrow> errors_Is e ErrNotFound \<longrightarrow> abs w' rid = None)"
proof -
  obtain ans w0 where call: "api_Get (api r) rid w = (ans, w0)" by (cases "api_Get (api r) rid w")
  note law = get_law [OF call]
  show ?thesis
  proof (cases ans)
    case (Inl e)
    then show ?thesis using assms call law by (auto simp: firestore_FindByID_def)
  next
    case (Inr od)
    then have od: "od = docs w0 rid" using law by simp
    show ?thesis
    proof (cases od)
      case None
      then show ?thesis using assms call law Inr od by (auto simp: firestore_FindByID_def docs_runners_def)
    next
      case (Some d)
      then have d: "docs w0 rid = Some d" using od by simp
      with docs_fine [of w0] have "doc_runner rid d \<noteq> None" by (simp add: docs_ok_def)
      then obtain x where "snapshotToDoc rid d = Inr x"
        by (cases "snapshotToDoc rid d") (simp_all add: doc_runner_def)
      then have "res = Inr (toModel x) \<and> w' = w0" and "doc_runner rid d = Some (toModel x)"
        using assms call Inr Some by (auto simp: firestore_FindByID_def doc_runner_def)
      then show ?thesis using law d by (simp add: docs_runners_Some)
    qed
  qed
qed

lemma find_session_result:
  assumes "firestore_FindBySessionID r sid w = (res, w')"
  shows "env (abs w) (abs w') \<and> (case res of Inl e \<Rightarrow> \<not> errors_Is e ErrNoIdleRunner | Inr x \<Rightarrow> True)"
proof -
  obtain hit w0 where call: "api_QueryBySession (api r) sid w = (hit, w0)"
    by (cases "api_QueryBySession (api r) sid w")
  have mal: "\<not> errors_Is e ErrNoIdleRunner" if "snapshotToDoc i d = Inl e" for i d e
    using that by (auto simp: snapshotToDoc_def malformed_def split: option.splits any.splits)
  show ?thesis
    using assms call session_law [OF call] mal
    by (cases hit) (auto simp: firestore_FindBySessionID_def split: option.splits sum.splits)
qed

lemma delete_result:
  assumes del: "firestore_Delete r rid w = (res, w')"
  shows "\<exists>t. env (abs w) t \<and>
    (case res of
       None \<Rightarrow> store_step t (Deleted rid) (abs w')
     | Some e \<Rightarrow> foreign e \<and> (abs w' = t \<or> store_step t (Deleted rid) (abs w')))"
proof -
  obtain t where "env (abs w) (docs_runners t)" "case res of
      None \<Rightarrow> docs w' = t(rid := None)
    | Some e \<Rightarrow> foreign e \<and> (docs w' = t \<or> docs w' = t(rid := None))"
    using delete_law [OF del [unfolded firestore_Delete_def]] by blast
  then show ?thesis
    by (intro exI [of _ "docs_runners t"]) (auto simp: docs_runners_del split: option.splits)
qed

end

text \<open>The first contract.\<close>

sublocale firestore_service \<subseteq> repo: repository "firestore_Repository r" "\<lambda>w. docs_runners (docs w)" env
proof (unfold_locales, goal_cases)
  case (1 t)
  show ?case by (rule env_refl)
next
  case (2 t u v)
  then show ?case by (rule env_trans)
next
  case (3 rid host w w')
  then show ?case using register_result [of rid host w None w'] by (simp add: firestore_Repository_def)
next
  case (4 rid host w e w')
  then show ?case using register_result [of rid host w "Some e" w']
    by (auto simp: firestore_Repository_def simp del: store_step_Registered)
next
  case (5 rid host w e w')
  then show ?case using register_result [of rid host w "Some e" w']
    by (auto simp: firestore_Repository_def simp del: store_step_Registered)
next
  case (6 sid w x w')
  then show ?case using acquire_result [of sid w "Inr x" w']
    by (simp add: firestore_Repository_def acquired_def)
next
  case (7 sid w e w')
  then show ?case using acquire_result [of sid w "Inl e" w']
    by (auto simp: firestore_Repository_def acquired_def)
next
  case (8 sid w res w')
  then show ?case using find_session_result [of sid w res w'] by (simp add: firestore_Repository_def)
next
  case (9 sid w e w')
  then show ?case using find_session_result [of sid w "Inl e" w'] by (simp add: firestore_Repository_def)
next
  case (10 rid w x w')
  then show ?case using find_id_result [of rid w "Inr x" w'] by (simp add: firestore_Repository_def)
next
  case (11 rid w e w')
  then show ?case using find_id_result [of rid w "Inl e" w'] by (simp add: firestore_Repository_def)
next
  case (12 rid w e w')
  then show ?case using find_id_result [of rid w "Inl e" w'] by (simp add: firestore_Repository_def)
next
  case (13 w res w')
  then show ?case by (simp add: firestore_Repository_def list_busy_env)
next
  case (14 rid w w')
  then show ?case using delete_result [of rid w None w'] by (simp add: firestore_Repository_def)
next
  case (15 rid w e w')
  then show ?case using delete_result [of rid w "Some e" w']
    by (auto simp: firestore_Repository_def simp del: store_step_Deleted)
qed

section \<open>Alone on the store\<close>

text \<open>
  Firestore answers queries from the documents as they are. \<open>in_range_of\<close> is the range of
  \<open>QueryIdleRange\<close>, where an empty bound stands for none; \<open>pending\<close> is what an iterator still
  has to give.
\<close>

definition in_range_of :: "string \<Rightarrow> string \<Rightarrow> string \<Rightarrow> bool" where
  "in_range_of after upTo rid \<longleftrightarrow> (after = [] \<or> after < rid) \<and> (upTo = [] \<or> rid \<le> upTo)"

definition idle_docs :: "(string \<rightharpoonup> doc) \<Rightarrow> string \<Rightarrow> string \<Rightarrow> FirestoreDocSnapshot set" where
  "idle_docs t after upTo =
     {(rid, d). t rid = Some d \<and> d FieldCurrentSessionID = Some Null \<and> in_range_of after upTo rid}"

definition busy_docs :: "(string \<rightharpoonup> doc) \<Rightarrow> FirestoreDocSnapshot set" where
  "busy_docs t =
     {(rid, d). t rid = Some d \<and> d FieldCurrentSessionID \<noteq> None \<and> d FieldCurrentSessionID \<noteq> Some Null}"

locale settled_firestore = firestore_service r docs "(=)" view
  for r :: "('w, 'x) FirestoreRepository" and docs :: "'w \<Rightarrow> (string \<rightharpoonup> doc)"
    and view :: "'x \<Rightarrow> (string \<rightharpoonup> doc)" +
  fixes pending :: "'w \<Rightarrow> nat \<Rightarrow> FirestoreDocSnapshot list"
  assumes finite_docs: "finite (dom (docs w))"
    and idle_total: "api_QueryIdleRange (api r) after upTo n w \<noteq> None"
    and idle_page: "api_QueryIdleRange (api r) after upTo n w = Some (Inr snaps, w') \<Longrightarrow> 0 < n \<Longrightarrow>
      docs w' = docs w \<and> set snaps \<subseteq> idle_docs (docs w) after upTo \<and>
      (snaps = [] \<longrightarrow> idle_docs (docs w) after upTo = {})"
    and rand_docs: "fs_randHexFn r w = (s, w') \<Longrightarrow> docs w' = docs w"
    and session_hit: "api_QueryBySession (api r) sid w = (Inr hit, w') \<Longrightarrow>
      case hit of
        Some (rid, d) \<Rightarrow> docs w rid = Some d \<and> d FieldCurrentSessionID = Some (Str sid)
      | None \<Rightarrow> \<not> (\<exists>rid d. docs w rid = Some d \<and> d FieldCurrentSessionID = Some (Str sid))"
    and iter_start: "api_IterBusy (api r) w = (i, w') \<Longrightarrow>
      distinct (map fst (pending w' i)) \<and> set (pending w' i) = busy_docs (docs w) \<and> docs w' = docs w"
    and iter_next: "api_Next (api r) i w = (Inr nxt, w') \<Longrightarrow>
      case nxt of None \<Rightarrow> pending w i = [] | Some p \<Rightarrow> pending w i = p # pending w' i"
begin

lemma doc_fine:
  assumes "docs w rid = Some d"
  shows "\<exists>x. snapshotToDoc rid d = Inr x \<and> abs w rid = Some (toModel x)"
proof -
  have "doc_runner rid d \<noteq> None" using docs_fine [of w] assms by (simp add: docs_ok_def)
  then show ?thesis using assms
    by (cases "snapshotToDoc rid d") (simp_all add: doc_runner_def docs_runners_def)
qed

lemma idle_doc:
  assumes "abs w rid = Some x" and "IsIdle x"
  shows "\<exists>d. docs w rid = Some d \<and> d FieldCurrentSessionID = Some Null"
proof -
  from assms(1) obtain d where d: "docs w rid = Some d" "doc_runner rid d = Some x"
    by (auto simp: docs_runners_Some)
  with docs_fine [of w] have "d FieldCurrentSessionID \<noteq> Some (Str [])" by (simp add: docs_ok_def)
  then show ?thesis using doc_runner_idle [OF d(2)] d assms(2) by blast
qed

text \<open>The first candidate of a page is idle, so the loops end at it.\<close>

lemma assign_first:
  assumes cand: "(ident, data) \<in> idle_docs (docs w) after upTo"
    and run: "assignFirstIdle r sid ((ident, data) # rest) {} w = (res, tried', w')" and sid: "sid \<noteq> []"
  shows "tried' = {} \<and> ((\<exists>x. res = Inr (Some x) \<and> abs w' (RunnerID x) = Some x) \<or>
    (\<exists>e. res = Inl e \<and> \<not> errors_Is e ErrNoIdleRunner))"
proof -
  have d: "docs w ident = Some data" "data FieldCurrentSessionID = Some Null"
    using cand by (simp_all add: idle_docs_def)
  obtain x where x: "snapshotToDoc ident data = Inr x" "abs w ident = Some (toModel x)"
    using doc_fine [OF d(1)] by blast
  obtain res1 w1 where asg: "firestore_assignSession r ident sid w = (res1, w1)"
    by (cases "firestore_assignSession r ident sid w")
  note law = assign_result [OF asg sid]
  show ?thesis
  proof (cases res1)
    case None
    with law have "abs w1 ident = Some (assigned sid (toModel x))" using x by auto
    moreover have "assigned sid (toModel x) = \<lparr>RunnerID = ident, State = StateBusy,
        CurrentSessionID = sid, PrivateHost = docPrivateHost x\<rparr>"
      using x(1) by (auto simp: snapshotToDoc_def toModel_def assigned_def split: option.splits any.splits)
    ultimately show ?thesis using run x(1) asg None by auto
  next
    case (Some e)
    moreover have "IsIdle (toModel x)"
      using doc_runner_idle [of ident data "toModel x"] d x(1) by (simp add: doc_runner_def)
    then have "\<not> errors_Is e ErrConditionFailed" using law Some x(2) by auto
    ultimately show ?thesis using run x(1) asg law by auto
  qed
qed

lemma idle_pages_settled:
  assumes sid: "sid \<noteq> []"
  shows "\<exists>res w'. idle_pages r sid after upTo {} w = Some (res, {}, w') \<and>
    (case res of
       Inl e \<Rightarrow> \<not> errors_Is e ErrNoIdleRunner
     | Inr (Some x) \<Rightarrow> abs w' (RunnerID x) = Some x
     | Inr None \<Rightarrow> docs w' = docs w \<and> idle_docs (docs w) after upTo = {})"
proof -
  obtain page w1 where pg: "api_QueryIdleRange (api r) after upTo acquireQueryLimit w = Some (page, w1)"
    using idle_total [of after upTo acquireQueryLimit w] by auto
  show ?thesis
  proof (cases page)
    case (Inl e)
    then show ?thesis using idle_law [OF pg]
      by (subst idle_pages.simps) (simp add: pg)
  next
    case (Inr snaps)
    have law: "docs w1 = docs w" "set snaps \<subseteq> idle_docs (docs w) after upTo"
      "snaps = [] \<longrightarrow> idle_docs (docs w) after upTo = {}"
      using idle_page [OF pg [unfolded Inr]] by (simp_all add: acquireQueryLimit_def)
    show ?thesis
    proof (cases snaps)
      case Nil
      then show ?thesis using law Inr by (subst idle_pages.simps) (simp add: pg)
    next
      case (Cons c rest)
      obtain ident data where c: "c = (ident, data)" by (cases c)
      obtain res tried1 w2 where af: "assignFirstIdle r sid snaps {} w1 = (res, tried1, w2)"
        by (cases "assignFirstIdle r sid snaps {} w1")
      have cand: "(ident, data) \<in> idle_docs (docs w1) after upTo" using law Cons c by auto
      from assign_first [OF cand af [unfolded Cons c] sid]
      have "tried1 = {}" and res: "(\<exists>x. res = Inr (Some x) \<and> abs w2 (RunnerID x) = Some x) \<or>
        (\<exists>e. res = Inl e \<and> \<not> errors_Is e ErrNoIdleRunner)" by simp_all
      have "idle_pages r sid after upTo {} w = Some (res, tried1, w2)"
        using res Cons by (subst idle_pages.simps) (auto simp: pg Inr af [unfolded Cons])
      then show ?thesis using res \<open>tried1 = {}\<close> by auto
    qed
  qed
qed

lemma acquire_settled:
  assumes sid: "sid \<noteq> []"
  shows "\<exists>res w'. firestore_AcquireIdle r sid w = Some (res, w') \<and>
    (case res of
       Inl e \<Rightarrow> errors_Is e ErrNoIdleRunner \<longrightarrow>
         \<not> (\<exists>rid d. docs w rid = Some d \<and> d FieldCurrentSessionID = Some Null)
     | Inr x \<Rightarrow> abs w' (RunnerID x) = Some x)"
proof -
  obtain start w0 where rnd: "fs_randHexFn r w = (start, w0)" by (cases "fs_randHexFn r w")
  have d0: "docs w0 = docs w" by (rule rand_docs [OF rnd])
  obtain res1 w1 where p1: "idle_pages r sid start [] {} w0 = Some (res1, {}, w1)"
    and q1: "case res1 of
       Inl e \<Rightarrow> \<not> errors_Is e ErrNoIdleRunner
     | Inr (Some x) \<Rightarrow> abs w1 (RunnerID x) = Some x
     | Inr None \<Rightarrow> docs w1 = docs w0 \<and> idle_docs (docs w0) start [] = {}"
    using idle_pages_settled [OF sid, of start "[]" w0] by blast
  obtain res2 w2 where p2: "idle_pages r sid [] start {} w1 = Some (res2, {}, w2)"
    and q2: "case res2 of
       Inl e \<Rightarrow> \<not> errors_Is e ErrNoIdleRunner
     | Inr (Some x) \<Rightarrow> abs w2 (RunnerID x) = Some x
     | Inr None \<Rightarrow> docs w2 = docs w1 \<and> idle_docs (docs w1) [] start = {}"
    using idle_pages_settled [OF sid, of "[]" start w1] by blast
  consider (first) "res1 \<noteq> Inr None" | (second) "res1 = Inr None" "res2 \<noteq> Inr None"
    | (none) "res1 = Inr None" "res2 = Inr None" by blast
  then show ?thesis
  proof cases
    case first
    then show ?thesis using rnd p1 q1
      by (cases res1) (auto simp: firestore_AcquireIdle_def split: option.splits)
  next
    case second
    then show ?thesis using rnd p1 p2 q2
      by (cases res2) (auto simp: firestore_AcquireIdle_def split: option.splits)
  next
    case none
    then have "firestore_AcquireIdle r sid w = Some (Inl (Sentinel ErrNoIdleRunner), w2)"
      using rnd p1 p2 by (simp add: firestore_AcquireIdle_def)
    moreover have "\<not> (docs w rid = Some d \<and> d FieldCurrentSessionID = Some Null)" for rid d
    proof
      assume "docs w rid = Some d \<and> d FieldCurrentSessionID = Some Null"
      then have "(rid, d) \<in> idle_docs (docs w0) start [] \<or> (rid, d) \<in> idle_docs (docs w1) [] start"
        using none q1 d0 by (auto simp: idle_docs_def in_range_of_def)
      then show False using none q1 q2 by simp
    qed
    ultimately show ?thesis by auto
  qed
qed

definition model_of :: "FirestoreDocSnapshot \<Rightarrow> Runner" where
  "model_of p = the (doc_runner (fst p) (snd p))"

lemma list_docs_settled:
  "\<exists>res w'. list_busy_docs r i acc w = Some (res, w') \<and>
    (case res of Inl e \<Rightarrow> True | Inr rs \<Rightarrow> rs = acc @ map model_of (pending w i))"
  if "\<forall>p\<in>set (pending w i). doc_runner (fst p) (snd p) \<noteq> None"
  using that
proof (induction "length (pending w i)" arbitrary: acc w rule: less_induct)
  case less
  obtain nxt w1 where call: "api_Next (api r) i w = (nxt, w1)" by (cases "api_Next (api r) i w")
  show ?case
  proof (cases nxt)
    case (Inl e)
    then show ?thesis by (subst list_busy_docs.simps) (simp add: call)
  next
    case (Inr op)
    note law = iter_next [OF call [unfolded Inr]]
    show ?thesis
    proof (cases op)
      case None
      then show ?thesis using law Inr by (subst list_busy_docs.simps) (simp add: call)
    next
      case (Some p)
      obtain ident data where p: "p = (ident, data)" by (cases p)
      have pend: "pending w i = p # pending w1 i" using law Some by simp
      then obtain d where d: "snapshotToDoc ident data = Inr d"
        using less.prems p by (cases "snapshotToDoc ident data") (auto simp: doc_runner_def)
      then have m: "model_of p = toModel d" by (simp add: model_of_def p doc_runner_def)
      from less.hyps [of w1 "acc @ [toModel d]"] less.prems pend obtain res w' where
        "list_busy_docs r i (acc @ [toModel d]) w1 = Some (res, w')"
        "case res of Inl e \<Rightarrow> True | Inr rs \<Rightarrow> rs = (acc @ [toModel d]) @ map model_of (pending w1 i)"
        by auto
      moreover have "list_busy_docs r i acc w = list_busy_docs r i (acc @ [toModel d]) w1"
        by (subst list_busy_docs.simps) (simp add: call Inr Some p d)
      ultimately show ?thesis using pend m by (auto split: sum.splits)
    qed
  qed
qed

lemma list_settled:
  "\<exists>res w'. firestore_ListBusyRunners r w = Some (res, w') \<and>
    (case res of Inl e \<Rightarrow> True
     | Inr rs \<Rightarrow> distinct rs \<and> set rs = {x \<in> ran (abs w). IsBusy x})"
proof -
  obtain i w1 where it: "api_IterBusy (api r) w = (i, w1)" by (cases "api_IterBusy (api r) w")
  have start: "distinct (map fst (pending w1 i))" "set (pending w1 i) = busy_docs (docs w)" "docs w1 = docs w"
    using iter_start [OF it] by simp_all
  have fine: "\<forall>p\<in>set (pending w1 i). doc_runner (fst p) (snd p) \<noteq> None"
    using docs_fine [of w] unfolding start(2) by (auto simp: busy_docs_def docs_ok_def)
  then obtain res w2 where ret: "list_busy_docs r i [] w1 = Some (res, w2)"
    and res: "case res of Inl e \<Rightarrow> True | Inr rs \<Rightarrow> rs = map model_of (pending w1 i)"
    using list_docs_settled [of w1 i "[]"] unfolding append_Nil by blast
  have id: "RunnerID (model_of p) = fst p" if "p \<in> set (pending w1 i)" for p
  proof -
    have "doc_runner (fst p) (snd p) \<noteq> None" using fine that by blast
    then obtain y where "doc_runner (fst p) (snd p) = Some y" by blast
    then show ?thesis by (simp add: model_of_def doc_runner_id)
  qed
  have "map RunnerID (map model_of (pending w1 i)) = map fst (pending w1 i)" using id by simp
  then have "distinct (map model_of (pending w1 i))" using start(1) by (metis distinct_map)
  moreover have "model_of ` busy_docs (docs w) = {x \<in> ran (abs w). IsBusy x}"
  proof (intro set_eqI iffI)
    fix x assume "x \<in> model_of ` busy_docs (docs w)"
    then obtain rid d where d: "docs w rid = Some d" "d FieldCurrentSessionID \<noteq> None"
      "d FieldCurrentSessionID \<noteq> Some Null" and x: "x = model_of (rid, d)" by (auto simp: busy_docs_def)
    with docs_fine [of w] have y: "doc_runner rid d = Some x" "d FieldCurrentSessionID \<noteq> Some (Str [])"
      by (auto simp: docs_ok_def model_of_def)
    then have "IsBusy x" using d
      by (elim doc_runner_cases) (auto simp: IsBusy_def split: if_splits)
    moreover have "abs w rid = Some x" using d y by (auto simp: docs_runners_Some)
    ultimately show "x \<in> {x \<in> ran (abs w). IsBusy x}" by (auto simp: ran_def)
  next
    fix x assume "x \<in> {x \<in> ran (abs w). IsBusy x}"
    then obtain rid d where d: "docs w rid = Some d" "doc_runner rid d = Some x" "IsBusy x"
      by (auto simp: ran_def docs_runners_Some)
    have "(rid, d) \<in> busy_docs (docs w)"
      using d(2) by (cases rule: doc_runner_cases)
        (use d in \<open>auto simp: busy_docs_def new_runner_def IsBusy_def\<close>)
    then show "x \<in> model_of ` busy_docs (docs w)"
      using d(2) by (auto simp: model_of_def intro!: image_eqI [of _ _ "(rid, d)"])
  qed
  ultimately show ?thesis using it ret res start(2)
    by (cases res) (auto simp: firestore_ListBusyRunners_def)
qed

lemma find_session_settled:
  assumes find: "firestore_FindBySessionID r sid w = (res, w')"
  shows "case res of
      Inr x \<Rightarrow> abs w (RunnerID x) = Some x \<and> CurrentSessionID x = sid
    | Inl e \<Rightarrow> errors_Is e ErrNotFound \<longrightarrow> sid \<noteq> [] \<longrightarrow>
        (\<forall>rid x. abs w rid = Some x \<longrightarrow> CurrentSessionID x \<noteq> sid)"
proof -
  obtain hit w0 where call: "api_QueryBySession (api r) sid w = (hit, w0)"
    by (cases "api_QueryBySession (api r) sid w")
  show ?thesis
  proof (cases hit)
    case (Inl e)
    then show ?thesis using find call session_law [OF call] by (auto simp: firestore_FindBySessionID_def)
  next
    case (Inr op)
    note law = session_hit [OF call [unfolded Inr]]
    show ?thesis
    proof (cases op)
      case None
      have "CurrentSessionID x \<noteq> sid" if "abs w rid = Some x" "sid \<noteq> []" for rid x
        using that law None doc_runner_session [of rid _ x sid] by (auto simp: docs_runners_Some)
      then show ?thesis using find call Inr None by (auto simp: firestore_FindBySessionID_def)
    next
      case (Some p)
      obtain rid d where p: "p = (rid, d)" by (cases p)
      have d: "docs w rid = Some d" "d FieldCurrentSessionID = Some (Str sid)" using law Some p by simp_all
      obtain x where x: "snapshotToDoc rid d = Inr x" "abs w rid = Some (toModel x)"
        using doc_fine [OF d(1)] by blast
      then have "docCurrentSessionID x = sid" "docRunnerID x = rid" using d(2)
        by (auto simp: snapshotToDoc_def split: option.splits any.splits)
      then show ?thesis using find call Inr Some p x
        by (auto simp: firestore_FindBySessionID_def toModel_def)
    qed
  qed
qed

end

text \<open>The second contract; there is no index that lags behind.\<close>

sublocale settled_firestore \<subseteq>
  repo: settled_repository "firestore_Repository r" "\<lambda>w. docs_runners (docs w)" "\<lambda>w. True"
proof (unfold_locales, goal_cases)
  case (1 w)
  have "dom (docs_runners (docs w)) \<subseteq> dom (docs w)" by (auto simp: docs_runners_Some)
  then show ?case using finite_docs by (rule finite_subset)
next
  case (2 sid w)
  then show ?case using acquire_settled [of sid w] by (auto simp: firestore_Repository_def)
next
  case (3 sid w e w' rid x)
  then show ?case using acquire_settled [of sid w] idle_doc [of w rid x]
    by (auto simp: firestore_Repository_def)
next
  case (4 sid w x w')
  then show ?case using acquire_settled [of sid w] by (auto simp: firestore_Repository_def)
next
  case (5 w sid x w')
  then show ?case using find_session_settled [of sid w "Inr x" w'] by (simp add: firestore_Repository_def)
next
  case (6 w sid e w' rid x)
  then show ?case using find_session_settled [of sid w "Inl e" w'] by (simp add: firestore_Repository_def)
next
  case (7 w)
  show ?case using list_settled [of w] by (auto simp: firestore_Repository_def)
next
  case (8 w rs w')
  then show ?case using list_settled [of w] by (auto simp: firestore_Repository_def)
qed

end
