(* ===== verification/Firestore_Adapter.thy ===== *)
theory Firestore_Adapter
  imports Firestore_Store
begin

text \<open>
  \<open>broker/store/firestoreadapter/adapter.go\<close>: the interface of the store on the Firestore
  library. The library is a record of the calls that the adapter makes; a query is the value
  that the chain of \<open>Where\<close>, \<open>OrderBy\<close>, \<open>StartAfter\<close>, \<open>EndAt\<close> and \<open>Limit\<close> builds.
\<close>

section \<open>The library\<close>

record sdk_query =
  q_collection :: string
  q_where :: "string \<times> string \<times> any"
  q_order_by_id :: bool
  q_start_after :: "string option"
  q_end_at :: "string option"
  q_limit :: "nat option"

record 'x sdk_tx =
  sdk_tx_Get :: "string \<Rightarrow> string \<Rightarrow> 'x \<Rightarrow> (go_error + doc) \<times> 'x"
  sdk_tx_Update :: "string \<Rightarrow> string \<Rightarrow> string \<Rightarrow> any \<Rightarrow> 'x \<Rightarrow> go_error option \<times> 'x"

text \<open>\<open>Next\<close> ends with the error \<open>iterator.Done\<close>; a missing document is an error with the status \<open>NotFound\<close>.\<close>

record ('w, 'x) firestore_sdk =
  sdk_Create :: "string \<Rightarrow> string \<Rightarrow> doc \<Rightarrow> 'w \<Rightarrow> go_error option \<times> 'w"
  sdk_Get :: "string \<Rightarrow> string \<Rightarrow> 'w \<Rightarrow> (go_error + doc) \<times> 'w"
  sdk_Delete :: "string \<Rightarrow> string \<Rightarrow> 'w \<Rightarrow> go_error option \<times> 'w"
  sdk_Documents :: "sdk_query \<Rightarrow> 'w \<Rightarrow> nat \<times> 'w"
  sdk_Next :: "nat \<Rightarrow> 'w \<Rightarrow> (go_error + (string \<times> doc)) \<times> 'w"
  sdk_Stop :: "nat \<Rightarrow> 'w \<Rightarrow> 'w"
  sdk_RunTransaction :: "('x sdk_tx \<Rightarrow> 'x \<Rightarrow> go_error option \<times> 'x) \<Rightarrow> 'w \<Rightarrow> go_error option \<times> 'w"
  sdk_Close :: "'w \<Rightarrow> go_error option \<times> 'w"

text \<open>\<open>status.Code(err) == codes.X\<close>, which looks through wrapped errors.\<close>

definition status_Code :: "go_error \<Rightarrow> string \<Rightarrow> bool" where
  "status_Code err code = errors_As err code"

section \<open>The adapter\<close>

definition FirestoreCollection :: string where "FirestoreCollection = ''runners''"

definition adapter_Create ::
  "('w, 'x) firestore_sdk \<Rightarrow> string \<Rightarrow> doc \<Rightarrow> 'w \<Rightarrow> go_error option \<times> 'w" where
  "adapter_Create a runnerID data w =
     (case sdk_Create a FirestoreCollection runnerID data w of
        (Some err, w1) \<Rightarrow>
          if status_Code err ''AlreadyExists'' then (Some (Sentinel ErrConflict), w1)
          else (Some (Wrap ''firestore create: '' err), w1)
      | (None, w1) \<Rightarrow> (None, w1))"

definition adapter_Get ::
  "('w, 'x) firestore_sdk \<Rightarrow> string \<Rightarrow> 'w \<Rightarrow> (go_error + doc option) \<times> 'w" where
  "adapter_Get a runnerID w =
     (case sdk_Get a FirestoreCollection runnerID w of
        (Inl err, w1) \<Rightarrow>
          if status_Code err ''NotFound'' then (Inr None, w1)
          else (Inl (Wrap ''firestore get: '' err), w1)
      | (Inr data, w1) \<Rightarrow> (Inr (Some data), w1))"

definition adapter_Delete :: "('w, 'x) firestore_sdk \<Rightarrow> string \<Rightarrow> 'w \<Rightarrow> go_error option \<times> 'w" where
  "adapter_Delete a runnerID w =
     (case sdk_Delete a FirestoreCollection runnerID w of
        (Some err, w1) \<Rightarrow> (Some (Wrap ''firestore delete: '' err), w1)
      | (None, w1) \<Rightarrow> (None, w1))"

definition idle_query :: "string \<Rightarrow> string \<Rightarrow> nat \<Rightarrow> sdk_query" where
  "idle_query after upTo n =
     \<lparr>q_collection = FirestoreCollection, q_where = (FieldCurrentSessionID, ''=='', Null),
      q_order_by_id = True,
      q_start_after = (if after \<noteq> [] then Some after else None),
      q_end_at = (if upTo \<noteq> [] then Some upTo else None), q_limit = Some n\<rparr>"

text \<open>The loop of \<open>QueryIdleRange\<close> over the documents of the page.\<close>

partial_function (option) collect_snaps ::
  "('w, 'x) firestore_sdk \<Rightarrow> nat \<Rightarrow> FirestoreDocSnapshot list \<Rightarrow> 'w \<Rightarrow>
   ((go_error + FirestoreDocSnapshot list) \<times> 'w) option" where
  [code]: "collect_snaps a iter snaps w =
     (case sdk_Next a iter w of
        (Inl err, w1) \<Rightarrow>
          if errors_Is err IteratorDone then Some (Inr snaps, w1)
          else Some (Inl (Wrap ''firestore query idle range: '' err), w1)
      | (Inr snap, w1) \<Rightarrow> collect_snaps a iter (snaps @ [snap]) w1)"

definition adapter_QueryIdleRange ::
  "('w, 'x) firestore_sdk \<Rightarrow> string \<Rightarrow> string \<Rightarrow> nat \<Rightarrow> 'w \<Rightarrow>
   ((go_error + FirestoreDocSnapshot list) \<times> 'w) option" where
  "adapter_QueryIdleRange a after upTo n w =
     (let (iter, w1) = sdk_Documents a (idle_query after upTo n) w
      in case collect_snaps a iter [] w1 of
           None \<Rightarrow> None
         | Some (res, w2) \<Rightarrow> Some (res, sdk_Stop a iter w2))"

definition busy_query :: sdk_query where
  "busy_query =
     \<lparr>q_collection = FirestoreCollection, q_where = (FieldCurrentSessionID, ''!='', Null),
      q_order_by_id = False, q_start_after = None, q_end_at = None, q_limit = None\<rparr>"

definition adapter_IterBusy :: "('w, 'x) firestore_sdk \<Rightarrow> 'w \<Rightarrow> nat \<times> 'w" where
  "adapter_IterBusy a w = sdk_Documents a busy_query w"

definition adapter_Next ::
  "('w, 'x) firestore_sdk \<Rightarrow> nat \<Rightarrow> 'w \<Rightarrow> (go_error + (string \<times> doc) option) \<times> 'w" where
  "adapter_Next a iter w =
     (case sdk_Next a iter w of
        (Inl err, w1) \<Rightarrow>
          if errors_Is err IteratorDone then (Inr None, w1)
          else (Inl (Wrap ''firestore iter next: '' err), w1)
      | (Inr snap, w1) \<Rightarrow> (Inr (Some snap), w1))"

definition adapter_Stop :: "('w, 'x) firestore_sdk \<Rightarrow> nat \<Rightarrow> 'w \<Rightarrow> 'w" where
  "adapter_Stop a iter w = sdk_Stop a iter w"

definition session_doc_query :: "string \<Rightarrow> sdk_query" where
  "session_doc_query sessionID =
     \<lparr>q_collection = FirestoreCollection, q_where = (FieldCurrentSessionID, ''=='', Str sessionID),
      q_order_by_id = False, q_start_after = None, q_end_at = None, q_limit = Some 1\<rparr>"

definition adapter_QueryBySession ::
  "('w, 'x) firestore_sdk \<Rightarrow> string \<Rightarrow> 'w \<Rightarrow> (go_error + (string \<times> doc) option) \<times> 'w" where
  "adapter_QueryBySession a sessionID w =
     (let (iter, w1) = sdk_Documents a (session_doc_query sessionID) w;
          (nxt, w2) = sdk_Next a iter w1;
          w3 = sdk_Stop a iter w2
      in case nxt of
           Inl err \<Rightarrow>
             if errors_Is err IteratorDone then (Inr None, w3)
             else (Inl (Wrap ''firestore find by session: '' err), w3)
         | Inr snap \<Rightarrow> (Inr (Some snap), w3))"

definition adapter_tx :: "'x sdk_tx \<Rightarrow> 'x FirestoreTx" where
  "adapter_tx t =
     \<lparr>tx_Get = \<lambda>runnerID x.
        (case sdk_tx_Get t FirestoreCollection runnerID x of
           (Inl err, x1) \<Rightarrow>
             if status_Code err ''NotFound'' then (Inr None, x1)
             else (Inl (Wrap ''firestore tx get: '' err), x1)
         | (Inr data, x1) \<Rightarrow> (Inr (Some data), x1)),
      tx_Update = \<lambda>runnerID field v x.
        (case sdk_tx_Update t FirestoreCollection runnerID field v x of
           (Some err, x1) \<Rightarrow> (Some (Wrap ''firestore tx update: '' err), x1)
         | (None, x1) \<Rightarrow> (None, x1))\<rparr>"

definition adapter_RunTx ::
  "('w, 'x) firestore_sdk \<Rightarrow> ('x FirestoreTx \<Rightarrow> 'x \<Rightarrow> go_error option \<times> 'x) \<Rightarrow> 'w \<Rightarrow>
   go_error option \<times> 'w" where
  "adapter_RunTx a fn w =
     (case sdk_RunTransaction a (\<lambda>t. fn (adapter_tx t)) w of
        (Some err, w1) \<Rightarrow>
          if errors_Is err ErrConditionFailed then (Some (Sentinel ErrConditionFailed), w1)
          else (Some (Wrap ''firestore run tx: '' err), w1)
      | (None, w1) \<Rightarrow> (None, w1))"

definition adapter_Close :: "('w, 'x) firestore_sdk \<Rightarrow> 'w \<Rightarrow> go_error option \<times> 'w" where
  "adapter_Close a w = sdk_Close a w"

definition Adapter :: "('w, 'x) firestore_sdk \<Rightarrow> ('w, 'x) FirestoreClientAPI" where
  "Adapter a =
     \<lparr>api_Create = adapter_Create a, api_Get = adapter_Get a, api_Delete = adapter_Delete a,
      api_QueryIdleRange = adapter_QueryIdleRange a, api_IterBusy = adapter_IterBusy a,
      api_Next = adapter_Next a, api_Stop = adapter_Stop a,
      api_QueryBySession = adapter_QueryBySession a, api_RunTx = adapter_RunTx a,
      api_Close = adapter_Close a\<rparr>"

text \<open>\<open>NewRepository\<close>: the client for a project and a database, or its error.\<close>

definition NewRepository ::
  "(string \<Rightarrow> string \<Rightarrow> go_error + ('w, 'x) firestore_sdk) \<Rightarrow> ('w \<Rightarrow> 64 word \<times> 'w) \<Rightarrow> string \<Rightarrow> string \<Rightarrow>
   go_error + ('w, 'x) FirestoreRepository" where
  "NewRepository newClientWithDatabase randUint64 projectID databaseID =
     (case newClientWithDatabase projectID databaseID of
        Inl err \<Rightarrow> Inl (Wrap ''firestore client: '' err)
      | Inr client \<Rightarrow> Inr (NewFirestoreRepositoryWithAPI (Adapter client) randUint64))"

section \<open>What the adapter relies on\<close>

definition sdk_tx_ok :: "('x \<Rightarrow> string \<rightharpoonup> doc) \<Rightarrow> 'x sdk_tx \<Rightarrow> bool" where
  "sdk_tx_ok view t \<longleftrightarrow>
     (\<forall>rid x ans x'. sdk_tx_Get t FirestoreCollection rid x = (ans, x') \<longrightarrow> view x' = view x \<and>
        (case ans of
           Inl e \<Rightarrow> foreign e \<and> (status_Code e ''NotFound'' \<longrightarrow> view x rid = None)
         | Inr d \<Rightarrow> view x rid = Some d)) \<and>
     (\<forall>rid f v x res x'. sdk_tx_Update t FirestoreCollection rid f v x = (res, x') \<longrightarrow>
        (case res of
           None \<Rightarrow> \<exists>d. view x rid = Some d \<and> view x' = (view x)(rid \<mapsto> d(f \<mapsto> v))
         | Some e \<Rightarrow> foreign e))"

lemma adapter_tx_ok:
  assumes ok: "sdk_tx_ok view t"
  shows "tx_ok view (adapter_tx t)"
  unfolding tx_ok_def
proof (intro conjI allI impI)
  fix rid x ans x'
  assume get: "tx_Get (adapter_tx t) rid x = (ans, x')"
  obtain ans0 x0 where call: "sdk_tx_Get t FirestoreCollection rid x = (ans0, x0)"
    by (cases "sdk_tx_Get t FirestoreCollection rid x")
  with ok have law: "view x0 = view x" "case ans0 of
      Inl e \<Rightarrow> foreign e \<and> (status_Code e ''NotFound'' \<longrightarrow> view x rid = None) | Inr d \<Rightarrow> view x rid = Some d"
    unfolding sdk_tx_ok_def by blast+
  show "view x' = view x" and "case ans of Inl e \<Rightarrow> foreign e | Inr d \<Rightarrow> d = view x rid"
    using get call law by (cases ans0; auto simp: adapter_tx_def split: if_splits)+
next
  fix rid f v x res x'
  assume upd: "tx_Update (adapter_tx t) rid f v x = (res, x')"
  obtain res0 x0 where call: "sdk_tx_Update t FirestoreCollection rid f v x = (res0, x0)"
    by (cases "sdk_tx_Update t FirestoreCollection rid f v x")
  with ok have "case res0 of
      None \<Rightarrow> \<exists>d. view x rid = Some d \<and> view x0 = (view x)(rid \<mapsto> d(f \<mapsto> v)) | Some e \<Rightarrow> foreign e"
    unfolding sdk_tx_ok_def by blast
  then show "case res of
      None \<Rightarrow> \<exists>d. view x rid = Some d \<and> view x' = (view x)(rid \<mapsto> d(f \<mapsto> v)) | Some e \<Rightarrow> foreign e"
    using upd call by (cases res0) (auto simp: adapter_tx_def)
qed

locale firestore_library =
  fixes sdk :: "('w, 'x) firestore_sdk"
    and rand :: "'w \<Rightarrow> string \<times> 'w"
    and docs :: "'w \<Rightarrow> (string \<rightharpoonup> doc)"
    and env :: "runners \<Rightarrow> runners \<Rightarrow> bool"
    and view :: "'x \<Rightarrow> (string \<rightharpoonup> doc)"
  assumes env_refl: "env t t"
    and env_trans: "env t u \<Longrightarrow> env u v \<Longrightarrow> env t v"
    and docs_fine: "docs_ok (docs w)"
    and rand_env: "rand w = (s, w') \<Longrightarrow> env (docs_runners (docs w)) (docs_runners (docs w'))"
    and sdk_create: "sdk_Create sdk FirestoreCollection rid d w = (res, w') \<Longrightarrow>
      \<exists>t. docs_ok t \<and> env (docs_runners (docs w)) (docs_runners t) \<and>
        (case res of
           None \<Rightarrow> t rid = None \<and> docs w' = t(rid \<mapsto> d)
         | Some e \<Rightarrow> foreign e \<and>
             (if status_Code e ''AlreadyExists'' then t rid \<noteq> None \<and> docs w' = t
              else docs w' = t \<or> (t rid = None \<and> docs w' = t(rid \<mapsto> d))))"
    and sdk_get: "sdk_Get sdk FirestoreCollection rid w = (ans, w') \<Longrightarrow>
      env (docs_runners (docs w)) (docs_runners (docs w')) \<and>
      (case ans of
         Inl e \<Rightarrow> foreign e \<and> (status_Code e ''NotFound'' \<longrightarrow> docs w' rid = None)
       | Inr d \<Rightarrow> docs w' rid = Some d)"
    and sdk_delete: "sdk_Delete sdk FirestoreCollection rid w = (res, w') \<Longrightarrow>
      \<exists>t. env (docs_runners (docs w)) (docs_runners t) \<and>
        (case res of
           None \<Rightarrow> docs w' = t(rid := None)
         | Some e \<Rightarrow> foreign e \<and> (docs w' = t \<or> docs w' = t(rid := None)))"
    and sdk_documents: "sdk_Documents sdk q w = (i, w') \<Longrightarrow>
      env (docs_runners (docs w)) (docs_runners (docs w'))"
    and sdk_next: "sdk_Next sdk i w = (nxt, w') \<Longrightarrow>
      env (docs_runners (docs w)) (docs_runners (docs w')) \<and>
      (case nxt of Inl e \<Rightarrow> foreign e | Inr snap \<Rightarrow> True)"
    and sdk_stop: "env (docs_runners (docs w)) (docs_runners (docs (sdk_Stop sdk i w)))"
    and sdk_transaction: "sdk_RunTransaction sdk (\<lambda>t. assign_tx rid sid (adapter_tx t)) w = (res, w') \<Longrightarrow>
      \<exists>t x0 res0 x1. docs_ok (view x0) \<and> env (docs_runners (docs w)) (docs_runners (view x0)) \<and>
        sdk_tx_ok view t \<and> assign_tx rid sid (adapter_tx t) x0 = (res0, x1) \<and>
        (case res of
           None \<Rightarrow> res0 = None \<and> docs w' = view x1
         | Some e \<Rightarrow>
             if errors_Is e ErrConditionFailed
             then (\<exists>e0. res0 = Some e0 \<and> errors_Is e0 ErrConditionFailed) \<and> docs w' = view x0
             else \<not> errors_Is e ErrNoIdleRunner \<and>
               (docs w' = view x0 \<or> (res0 = None \<and> docs w' = view x1)))"
begin

abbreviation store :: "('w, 'x) FirestoreRepository" where
  "store \<equiv> \<lparr>api = Adapter sdk, fs_randHexFn = rand\<rparr>"

lemma collect_env:
  assumes ret: "collect_snaps sdk i acc w = Some (page, w')"
  shows "env (docs_runners (docs w)) (docs_runners (docs w')) \<and>
    (case page of Inl e \<Rightarrow> foreign e | Inr snaps \<Rightarrow> True)"
proof -
  let ?P = "\<lambda>a i acc w out. a = sdk \<longrightarrow> env (docs_runners (docs w)) (docs_runners (docs (snd out))) \<and>
    (case fst out of Inl e \<Rightarrow> foreign e | Inr snaps \<Rightarrow> True)"
  have "?P a i acc w out" if "collect_snaps a i acc w = Some out" for a out
  proof (rule collect_snaps.raw_induct [where P = ?P, OF _ that], rule impI)
    fix f :: "('w, 'x) firestore_sdk \<Rightarrow> nat \<Rightarrow> FirestoreDocSnapshot list \<Rightarrow> 'w \<Rightarrow>
        ((go_error + FirestoreDocSnapshot list) \<times> 'w) option" and a i acc w out
    assume IH: "\<And>a i acc w out. f a i acc w = Some out \<Longrightarrow> ?P a i acc w out"
      and a: "a = sdk"
      and eq: "(case sdk_Next a i w of
        (Inl err, w1) \<Rightarrow>
          if errors_Is err IteratorDone then Some (Inr acc, w1)
          else Some (Inl (Wrap ''firestore query idle range: '' err), w1)
      | (Inr snap, w1) \<Rightarrow> f a i (acc @ [snap]) w1) = Some out"
    obtain nxt w1 where call: "sdk_Next sdk i w = (nxt, w1)" by (cases "sdk_Next sdk i w")
    note law = sdk_next [OF call]
    show "env (docs_runners (docs w)) (docs_runners (docs (snd out))) \<and>
        (case fst out of Inl e \<Rightarrow> foreign e | Inr snaps \<Rightarrow> True)"
    proof (cases nxt)
      case (Inl e)
      then show ?thesis using eq law call a by (auto split: if_splits)
    next
      case (Inr snap)
      then have "f sdk i (acc @ [snap]) w1 = Some out" using eq call a by simp
      from IH [OF this] law show ?thesis by (blast intro: env_trans)
    qed
  qed
  from this [OF ret] show ?thesis by simp
qed

end

sublocale firestore_library \<subseteq> fs: firestore_service store docs env view
proof (unfold_locales, goal_cases)
  case (1 t)
  show ?case by (rule env_refl)
next
  case (2 t u v)
  then show ?case by (rule env_trans)
next
  case (3 w)
  show ?case by (rule docs_fine)
next
  case (4 w s w')
  then show ?case by (simp add: rand_env)
next
  case (5 rid d w res w')
  obtain res0 w0 where call: "sdk_Create sdk FirestoreCollection rid d w = (res0, w0)"
    by (cases "sdk_Create sdk FirestoreCollection rid d w")
  have "w' = w0 \<and> res = (case res0 of None \<Rightarrow> None
    | Some e \<Rightarrow> Some (if status_Code e ''AlreadyExists'' then Sentinel ErrConflict
                      else Wrap ''firestore create: '' e))"
    using 5 call by (auto simp: Adapter_def adapter_Create_def split: option.splits if_splits)
  then show ?case using sdk_create [OF call] by (cases res0) auto
next
  case (6 rid w ans w')
  obtain ans0 w0 where call: "sdk_Get sdk FirestoreCollection rid w = (ans0, w0)"
    by (cases "sdk_Get sdk FirestoreCollection rid w")
  then show ?case using sdk_get [OF call] 6
    by (cases ans0) (auto simp: Adapter_def adapter_Get_def split: if_splits)
next
  case (7 rid w res w')
  obtain res0 w0 where call: "sdk_Delete sdk FirestoreCollection rid w = (res0, w0)"
    by (cases "sdk_Delete sdk FirestoreCollection rid w")
  then have "w' = w0 \<and> res = map_option (Wrap ''firestore delete: '') res0"
    using 7 by (auto simp: Adapter_def adapter_Delete_def split: option.splits)
  then show ?case using sdk_delete [OF call] by (cases res0) auto
next
  case (8 after upTo n w page w')
  obtain i w0 where docs0: "sdk_Documents sdk (idle_query after upTo n) w = (i, w0)"
    by (cases "sdk_Documents sdk (idle_query after upTo n) w")
  then obtain w1 where col: "collect_snaps sdk i [] w0 = Some (page, w1)" and w': "w' = sdk_Stop sdk i w1"
    using 8 by (auto simp: Adapter_def adapter_QueryIdleRange_def split: option.splits)
  from sdk_documents [OF docs0] collect_env [OF col] sdk_stop [of w1 i] show ?case
    unfolding w' by (blast intro: env_trans)
next
  case (9 sid w hit w')
  obtain i w0 where docs0: "sdk_Documents sdk (session_doc_query sid) w = (i, w0)"
    by (cases "sdk_Documents sdk (session_doc_query sid) w")
  obtain nxt w1 where nxt: "sdk_Next sdk i w0 = (nxt, w1)" by (cases "sdk_Next sdk i w0")
  have eq: "adapter_QueryBySession sdk sid w = (hit, w')" using 9 by (simp add: Adapter_def)
  have "w' = sdk_Stop sdk i w1 \<and> (case hit of Inl e \<Rightarrow> foreign e | Inr x \<Rightarrow> True)"
  proof (cases nxt)
    case (Inl e)
    then show ?thesis using eq docs0 nxt sdk_next [OF nxt]
      by (cases "errors_Is e IteratorDone") (auto simp: adapter_QueryBySession_def)
  next
    case (Inr snap)
    then show ?thesis using eq docs0 nxt by (auto simp: adapter_QueryBySession_def)
  qed
  with sdk_documents [OF docs0] sdk_next [OF nxt] sdk_stop [of w1 i] show ?case
    by (metis env_trans)
next
  case (10 w i w')
  then show ?case by (simp add: Adapter_def adapter_IterBusy_def sdk_documents)
next
  case (11 i w nxt w')
  obtain nxt0 w0 where call: "sdk_Next sdk i w = (nxt0, w0)" by (cases "sdk_Next sdk i w")
  then have "w' = w0" using 11
    by (cases nxt0) (auto simp: Adapter_def adapter_Next_def split: if_splits)
  then show ?case using sdk_next [OF call] by simp
next
  case (12 w i)
  show ?case by (simp add: Adapter_def adapter_Stop_def sdk_stop)
next
  case (13 rid sid w res w')
  obtain res1 w0 where call: "sdk_RunTransaction sdk (\<lambda>t. assign_tx rid sid (adapter_tx t)) w = (res1, w0)"
    by (cases "sdk_RunTransaction sdk (\<lambda>t. assign_tx rid sid (adapter_tx t)) w")
  have res: "w' = w0 \<and> res = (case res1 of None \<Rightarrow> None
    | Some e \<Rightarrow> Some (if errors_Is e ErrConditionFailed then Sentinel ErrConditionFailed
                      else Wrap ''firestore run tx: '' e))"
    using 13 call by (auto simp: Adapter_def adapter_RunTx_def split: option.splits if_splits)
  from sdk_transaction [OF call] obtain t x0 res0 x1
    where start: "docs_ok (view x0)" "env (docs_runners (docs w)) (docs_runners (view x0))"
      "tx_ok view (adapter_tx t)" "assign_tx rid sid (adapter_tx t) x0 = (res0, x1)"
      and fin: "case res1 of
           None \<Rightarrow> res0 = None \<and> docs w0 = view x1
         | Some e \<Rightarrow>
             if errors_Is e ErrConditionFailed
             then (\<exists>e0. res0 = Some e0 \<and> errors_Is e0 ErrConditionFailed) \<and> docs w0 = view x0
             else \<not> errors_Is e ErrNoIdleRunner \<and>
               (docs w0 = view x0 \<or> (res0 = None \<and> docs w0 = view x1))"
    using adapter_tx_ok by blast
  have "case res of
      None \<Rightarrow> res0 = None \<and> docs w' = view x1
    | Some e \<Rightarrow>
        if errors_Is e ErrConditionFailed
        then (\<exists>e0. res0 = Some e0 \<and> errors_Is e0 ErrConditionFailed) \<and> docs w' = view x0
        else \<not> errors_Is e ErrNoIdleRunner \<and>
          (docs w' = view x0 \<or> (res0 = None \<and> docs w' = view x1))"
  proof (cases res1)
    case None
    then show ?thesis using res fin by simp
  next
    case (Some e)
    then show ?thesis using res fin by (cases "errors_Is e ErrConditionFailed") simp_all
  qed
  with start show ?case by blast
qed

section \<open>Alone on the documents\<close>

text \<open>The two comparisons that the queries use; a document without the field never matches.\<close>

fun where_holds :: "string \<times> string \<times> any \<Rightarrow> doc \<Rightarrow> bool" where
  "where_holds (f, comparison, v) d =
     (if comparison = ''=='' then d f = Some v else d f \<noteq> None \<and> d f \<noteq> Some v)"

definition query_docs :: "sdk_query \<Rightarrow> (string \<rightharpoonup> doc) \<Rightarrow> FirestoreDocSnapshot set" where
  "query_docs q t =
     {(rid, d). t rid = Some d \<and> where_holds (q_where q) d \<and>
        (case q_start_after q of None \<Rightarrow> True | Some a \<Rightarrow> a < rid) \<and>
        (case q_end_at q of None \<Rightarrow> True | Some b \<Rightarrow> rid \<le> b)}"

lemma query_docs_idle: "query_docs (idle_query after upTo n) t = idle_docs t after upTo"
  by (auto simp: query_docs_def idle_query_def idle_docs_def in_range_of_def split: if_splits)

lemma query_docs_busy: "query_docs busy_query t = busy_docs t"
  by (auto simp: query_docs_def busy_query_def busy_docs_def)

lemma query_docs_session:
  "query_docs (session_doc_query sid) t = {(rid, d). t rid = Some d \<and> d FieldCurrentSessionID = Some (Str sid)}"
  by (auto simp: query_docs_def session_doc_query_def)

locale settled_library = firestore_library sdk rand docs "(=)" view
  for sdk :: "('w, 'x) firestore_sdk" and rand :: "'w \<Rightarrow> string \<times> 'w"
    and docs :: "'w \<Rightarrow> (string \<rightharpoonup> doc)" and view :: "'x \<Rightarrow> (string \<rightharpoonup> doc)" +
  fixes pending :: "'w \<Rightarrow> nat \<Rightarrow> FirestoreDocSnapshot list"
  assumes finite_docs: "finite (dom (docs w))"
    and rand_docs: "rand w = (s, w') \<Longrightarrow> docs w' = docs w"
    and documents_result: "sdk_Documents sdk q w = (i, w') \<Longrightarrow> q_collection q = FirestoreCollection \<Longrightarrow>
      docs w' = docs w \<and> distinct (map fst (pending w' i)) \<and>
      set (pending w' i) \<subseteq> query_docs q (docs w) \<and>
      (case q_limit q of
         None \<Rightarrow> set (pending w' i) = query_docs q (docs w)
       | Some n \<Rightarrow> 0 < n \<longrightarrow> pending w' i = [] \<longrightarrow> query_docs q (docs w) = {})"
    and next_result: "sdk_Next sdk i w = (nxt, w') \<Longrightarrow> docs w' = docs w \<and>
      (case nxt of
         Inr p \<Rightarrow> pending w i = p # pending w' i
       | Inl e \<Rightarrow> errors_Is e IteratorDone \<longrightarrow> pending w i = [])"
    and stop_docs: "docs (sdk_Stop sdk i w) = docs w"
begin

lemma collect_settled:
  "\<exists>page w'. collect_snaps sdk i acc w = Some (page, w') \<and> docs w' = docs w \<and>
    (case page of Inl e \<Rightarrow> True | Inr snaps \<Rightarrow> snaps = acc @ pending w i)"
proof (induction "length (pending w i)" arbitrary: acc w rule: less_induct)
  case less
  obtain nxt w1 where call: "sdk_Next sdk i w = (nxt, w1)" by (cases "sdk_Next sdk i w")
  note law = next_result [OF call]
  show ?case
  proof (cases nxt)
    case (Inl e)
    then show ?thesis using law by (subst collect_snaps.simps) (simp add: call)
  next
    case (Inr p)
    then have pend: "pending w i = p # pending w1 i" and d: "docs w1 = docs w" using law by simp_all
    have "length (pending w1 i) < length (pending w i)" using pend by simp
    from less.hyps [OF this, of "acc @ [p]"] obtain page w' where
      rec: "collect_snaps sdk i (acc @ [p]) w1 = Some (page, w')" "docs w' = docs w1"
      "case page of Inl e \<Rightarrow> True | Inr snaps \<Rightarrow> snaps = (acc @ [p]) @ pending w1 i" by blast
    have "collect_snaps sdk i acc w = Some (page, w')"
      by (subst collect_snaps.simps) (simp add: call Inr rec(1))
    then show ?thesis using rec d pend by (auto split: sum.splits)
  qed
qed

end

sublocale settled_library \<subseteq> fs: settled_firestore store docs view pending
proof (unfold_locales, goal_cases)
  case (1 w)
  show ?case by (rule finite_docs)
next
  case (2 after upTo n w)
  obtain i w0 where "sdk_Documents sdk (idle_query after upTo n) w = (i, w0)"
    by (cases "sdk_Documents sdk (idle_query after upTo n) w")
  then show ?case using collect_settled [of i "[]" w0]
    by (auto simp: Adapter_def adapter_QueryIdleRange_def)
next
  case (3 after upTo n w snaps w')
  obtain i w0 where q: "sdk_Documents sdk (idle_query after upTo n) w = (i, w0)"
    by (cases "sdk_Documents sdk (idle_query after upTo n) w")
  obtain page w1 where col: "collect_snaps sdk i [] w0 = Some (page, w1)" "docs w1 = docs w0"
    "case page of Inl e \<Rightarrow> True | Inr snaps \<Rightarrow> snaps = [] @ pending w0 i"
    using collect_settled by blast
  have "page = Inr snaps" "w' = sdk_Stop sdk i w1"
    using 3(1) q col(1) by (auto simp: Adapter_def adapter_QueryIdleRange_def)
  moreover have "q_collection (idle_query after upTo n) = FirestoreCollection"
    "q_limit (idle_query after upTo n) = Some n" by (simp_all add: idle_query_def)
  ultimately show ?case using documents_result [OF q] col 3(2) by (simp add: stop_docs query_docs_idle)
next
  case (4 w s w')
  then show ?case by (simp add: rand_docs)
next
  case (5 sid w hit w')
  obtain i w0 where q: "sdk_Documents sdk (session_doc_query sid) w = (i, w0)"
    by (cases "sdk_Documents sdk (session_doc_query sid) w")
  obtain nxt w1 where nxt: "sdk_Next sdk i w0 = (nxt, w1)" by (cases "sdk_Next sdk i w0")
  have ask: "adapter_QueryBySession sdk sid w = (Inr hit, w')" using 5 by (simp add: Adapter_def)
  have "q_collection (session_doc_query sid) = FirestoreCollection"
    "q_limit (session_doc_query sid) = Some 1" by (simp_all add: session_doc_query_def)
  with documents_result [OF q] have res: "set (pending w0 i) \<subseteq> query_docs (session_doc_query sid) (docs w)"
    "pending w0 i = [] \<Longrightarrow> query_docs (session_doc_query sid) (docs w) = {}" by simp_all
  show ?case
  proof (cases nxt)
    case (Inl e)
    then have "hit = None \<and> errors_Is e IteratorDone" using ask q nxt
      by (auto simp: adapter_QueryBySession_def Let_def split: if_splits)
    then show ?thesis using next_result [OF nxt] Inl res(2) by (auto simp: query_docs_session)
  next
    case (Inr p)
    then have "hit = Some p" using ask q nxt by (auto simp: adapter_QueryBySession_def Let_def)
    moreover have "p \<in> set (pending w0 i)" using next_result [OF nxt] Inr by simp
    ultimately show ?thesis using res(1) by (auto simp: query_docs_session)
  qed
next
  case (6 w i w')
  then have q: "sdk_Documents sdk busy_query w = (i, w')" by (simp add: Adapter_def adapter_IterBusy_def)
  have "q_collection busy_query = FirestoreCollection" "q_limit busy_query = None"
    by (simp_all add: busy_query_def)
  with documents_result [OF q] show ?case by (simp add: query_docs_busy)
next
  case (7 i w nxt w')
  obtain nxt0 w0 where call: "sdk_Next sdk i w = (nxt0, w0)" by (cases "sdk_Next sdk i w")
  show ?case using 7 call next_result [OF call]
    by (cases nxt0) (auto simp: Adapter_def adapter_Next_def split: if_splits)
qed

end
