(* ===== verification/Mem_Firestore.thy ===== *)
theory Mem_Firestore
  imports Firestore_Adapter
begin

text \<open>
  An instance of the Firestore library in memory, which shows that what \<open>settled_library\<close> asks
  for can be met, and at which the Firestore store can be run. A row is a runner ID with a
  document and the host and session in it; one iterator is open at a time.
\<close>

type_synonym row = "doc \<times> string \<times> string"

type_synonym rows = "(string \<times> row) list"

record fsmem =
  fs_rows :: rows
  fs_open :: "FirestoreDocSnapshot list"

fun row_doc :: "row \<Rightarrow> doc" where
  "row_doc (d, h, s) = d(FieldPrivateHost \<mapsto> Str h,
                         FieldCurrentSessionID \<mapsto> (if s = [] then Null else Str s))"

definition rows_docs :: "rows \<Rightarrow> (string \<rightharpoonup> doc)" where
  "rows_docs rs = (\<lambda>rid. map_option row_doc (map_of rs rid))"

definition fs_docs :: "fsmem \<Rightarrow> (string \<rightharpoonup> doc)" where
  "fs_docs m = rows_docs (fs_rows m)"

lemma rows_docs_apply: "rows_docs rs rid = map_option row_doc (map_of rs rid)"
  by (simp add: rows_docs_def)

lemma docs_ok_rows: "docs_ok (rows_docs rs)"
  by (auto simp: docs_ok_def rows_docs_apply doc_runner_def snapshotToDoc_def
      split: if_splits)

lemma rows_docs_Cons: "rows_docs ((rid, hs) # rs) = (rows_docs rs)(rid \<mapsto> row_doc hs)"
  by (auto simp: rows_docs_def)

lemma map_of_remove: "map_of (filter (\<lambda>p. fst p \<noteq> rid) rs) = (map_of rs)(rid := None)"
  by (induction rs) auto

lemma rows_docs_remove: "rows_docs (filter (\<lambda>p. fst p \<noteq> rid) rs) = (rows_docs rs)(rid := None)"
  by (auto simp: rows_docs_def map_of_remove)

section \<open>The calls\<close>

definition mem_error :: "string \<Rightarrow> go_error" where
  "mem_error code = ApiError code (''rpc error: '' @ code)"

definition memfs_Create :: "string \<Rightarrow> string \<Rightarrow> doc \<Rightarrow> fsmem \<Rightarrow> go_error option \<times> fsmem" where
  "memfs_Create coll rid d m =
     (if fs_docs m rid \<noteq> None then (Some (mem_error ''AlreadyExists''), m)
      else case d FieldPrivateHost of
        Some (Str h) \<Rightarrow>
          if d FieldCurrentSessionID = Some Null
          then (None, m\<lparr>fs_rows := (rid, d, h, []) # fs_rows m\<rparr>)
          else (Some (mem_error ''InvalidArgument''), m)
      | _ \<Rightarrow> (Some (mem_error ''InvalidArgument''), m))"

definition memfs_Get :: "string \<Rightarrow> string \<Rightarrow> fsmem \<Rightarrow> (go_error + doc) \<times> fsmem" where
  "memfs_Get coll rid m =
     (case fs_docs m rid of None \<Rightarrow> (Inl (mem_error ''NotFound''), m) | Some d \<Rightarrow> (Inr d, m))"

definition memfs_Delete :: "string \<Rightarrow> string \<Rightarrow> fsmem \<Rightarrow> go_error option \<times> fsmem" where
  "memfs_Delete coll rid m = (None, m\<lparr>fs_rows := filter (\<lambda>p. fst p \<noteq> rid) (fs_rows m)\<rparr>)"

fun docs_at :: "(string \<rightharpoonup> doc) \<Rightarrow> string list \<Rightarrow> FirestoreDocSnapshot list" where
  "docs_at t [] = []"
| "docs_at t (rid # rids) = (case t rid of None \<Rightarrow> docs_at t rids | Some d \<Rightarrow> (rid, d) # docs_at t rids)"

definition matching :: "sdk_query \<Rightarrow> fsmem \<Rightarrow> FirestoreDocSnapshot list" where
  "matching q m =
     filter (\<lambda>(rid, d). where_holds (q_where q) d \<and>
        (case q_start_after q of None \<Rightarrow> True | Some a \<Rightarrow> a < rid) \<and>
        (case q_end_at q of None \<Rightarrow> True | Some b \<Rightarrow> rid \<le> b))
       (docs_at (fs_docs m) (sort (remdups (map fst (fs_rows m)))))"

definition memfs_Documents :: "sdk_query \<Rightarrow> fsmem \<Rightarrow> nat \<times> fsmem" where
  "memfs_Documents q m =
     (0, m\<lparr>fs_open := (case q_limit q of None \<Rightarrow> matching q m | Some n \<Rightarrow> take n (matching q m))\<rparr>)"

definition memfs_Next :: "nat \<Rightarrow> fsmem \<Rightarrow> (go_error + (string \<times> doc)) \<times> fsmem" where
  "memfs_Next i m =
     (case fs_open m of [] \<Rightarrow> (Inl (Sentinel IteratorDone), m) | p # ps \<Rightarrow> (Inr p, m\<lparr>fs_open := ps\<rparr>))"

text \<open>A transaction works on a copy of the rows, which replaces them when it succeeds.\<close>

definition memfs_tx :: "rows sdk_tx" where
  "memfs_tx =
     \<lparr>sdk_tx_Get = \<lambda>coll rid x.
        (case rows_docs x rid of None \<Rightarrow> (Inl (mem_error ''NotFound''), x) | Some d \<Rightarrow> (Inr d, x)),
      sdk_tx_Update = \<lambda>coll rid f v x.
        (case (map_of x rid, v) of
           (Some (d, h, s), Str s') \<Rightarrow>
             if f = FieldCurrentSessionID \<and> s' \<noteq> [] then (None, (rid, d, h, s') # x)
             else (Some (mem_error ''InvalidArgument''), x)
         | _ \<Rightarrow> (Some (mem_error ''NotFound''), x))\<rparr>"

definition memfs_RunTransaction ::
  "(rows sdk_tx \<Rightarrow> rows \<Rightarrow> go_error option \<times> rows) \<Rightarrow> fsmem \<Rightarrow> go_error option \<times> fsmem" where
  "memfs_RunTransaction fn m =
     (case fn memfs_tx (fs_rows m) of
        (None, x1) \<Rightarrow> (None, m\<lparr>fs_rows := x1\<rparr>)
      | (Some e, x1) \<Rightarrow> (Some e, m))"

definition memfs_sdk :: "(fsmem, rows) firestore_sdk" where
  "memfs_sdk =
     \<lparr>sdk_Create = memfs_Create, sdk_Get = memfs_Get, sdk_Delete = memfs_Delete,
      sdk_Documents = memfs_Documents, sdk_Next = memfs_Next,
      sdk_Stop = \<lambda>i m. m\<lparr>fs_open := []\<rparr>, sdk_RunTransaction = memfs_RunTransaction,
      sdk_Close = \<lambda>m. (None, m)\<rparr>"

definition fs_pending :: "fsmem \<Rightarrow> nat \<Rightarrow> FirestoreDocSnapshot list" where
  "fs_pending m i = fs_open m"

section \<open>They behave as documented\<close>

lemma foreign_mem_error [simp]: "foreign (mem_error c)"
  by (simp add: foreign_def mem_error_def)

lemma set_docs_at: "set (docs_at t rids) = {(rid, d). rid \<in> set rids \<and> t rid = Some d}"
  by (induction rids) (auto split: option.splits)

lemma distinct_docs_at: "distinct rids \<Longrightarrow> distinct (map fst (docs_at t rids))"
  by (induction rids) (auto simp: set_docs_at image_iff split: option.splits)

lemma fs_docs_key: "fs_docs m rid = Some d \<Longrightarrow> rid \<in> fst ` set (fs_rows m)"
  by (cases "map_of (fs_rows m) rid") (auto simp: fs_docs_def rows_docs_apply dest: map_of_SomeD intro: rev_image_eqI)

lemma set_matching: "set (matching q m) = query_docs q (fs_docs m)"
  by (auto simp: matching_def query_docs_def set_docs_at fs_docs_key)

lemma distinct_matching: "distinct (map fst (matching q m))"
  unfolding matching_def by (rule distinct_map_filter) (simp add: distinct_docs_at)

lemma memfs_tx_ok: "sdk_tx_ok rows_docs memfs_tx"
proof -
  have "row_doc (d, h, s') = (row_doc (d, h, s))(FieldCurrentSessionID \<mapsto> Str s')" if "s' \<noteq> []" for d h s s'
    using that by (auto simp: fun_eq_iff)
  then have row: "rows_docs ((rid, d, h, s') # x) =
      (rows_docs x)(rid \<mapsto> (row_doc (d, h, s))(FieldCurrentSessionID \<mapsto> Str s'))"
    if "s' \<noteq> []" for x rid d h s s'
    using that by (simp add: rows_docs_Cons del: row_doc.simps)
  show ?thesis
    unfolding sdk_tx_ok_def memfs_tx_def
    by (auto simp: rows_docs_apply row simp del: row_doc.simps split: option.splits any.splits if_splits)
qed

section \<open>The library in memory\<close>

lemma memfs_create_law:
  assumes "memfs_Create coll rid d m = (res, m')"
  shows "case res of
      None \<Rightarrow> fs_docs m rid = None \<and> fs_docs m' = (fs_docs m)(rid \<mapsto> d)
    | Some e \<Rightarrow> foreign e \<and> fs_docs m' = fs_docs m \<and>
        (status_Code e ''AlreadyExists'' \<longrightarrow> fs_docs m rid \<noteq> None)"
proof (cases "fs_docs m rid = None \<and> (\<exists>h. d FieldPrivateHost = Some (Str h)) \<and>
    d FieldCurrentSessionID = Some Null")
  case True
  then obtain h where h: "fs_docs m rid = None" "d FieldPrivateHost = Some (Str h)"
    "d FieldCurrentSessionID = Some Null" by blast
  then have "res = None \<and> m' = m\<lparr>fs_rows := (rid, d, h, []) # fs_rows m\<rparr>"
    using assms by (simp add: memfs_Create_def)
  moreover have "row_doc (d, h, []) = d" using h by (auto simp: fun_eq_iff)
  ultimately show ?thesis using h(1) by (simp add: fs_docs_def rows_docs_Cons del: row_doc.simps)
next
  case False
  have "m' = m \<and> (\<exists>c. res = Some (mem_error c) \<and> (c = ''AlreadyExists'' \<longrightarrow> fs_docs m rid \<noteq> None))"
  proof (cases "fs_docs m rid")
    case None
    with False assms show ?thesis
      unfolding memfs_Create_def
      by (cases "d FieldPrivateHost"; cases "the (d FieldPrivateHost)") (auto simp del: not_None_eq)
  next
    case (Some d0)
    then show ?thesis using assms by (auto simp: memfs_Create_def)
  qed
  then show ?thesis by (auto simp: status_Code_def mem_error_def foreign_def)
qed

interpretation mem_fs: settled_library memfs_sdk "\<lambda>m. (start, m)" fs_docs rows_docs fs_pending
  for start :: string
proof (unfold_locales, goal_cases)
  case (1 t)
  show ?case by simp
next
  case (2 t u v)
  then show ?case by simp
next
  case (3 m)
  show ?case by (simp add: fs_docs_def docs_ok_rows)
next
  case (4 m s m')
  then show ?case by simp
next
  case (5 rid d m res m')
  then have "memfs_Create FirestoreCollection rid d m = (res, m')" by (simp add: memfs_sdk_def)
  from memfs_create_law [OF this] show ?case
    by (intro exI [of _ "fs_docs m"]) (auto simp: fs_docs_def docs_ok_rows split: option.splits)
next
  case (6 rid m ans m')
  then have "memfs_Get FirestoreCollection rid m = (ans, m')" by (simp add: memfs_sdk_def)
  then show ?case by (auto simp: memfs_Get_def split: option.splits)
next
  case (7 rid m res m')
  then have "memfs_Delete FirestoreCollection rid m = (res, m')" by (simp add: memfs_sdk_def)
  then show ?case
    by (intro exI [of _ "fs_docs m"]) (auto simp: memfs_Delete_def fs_docs_def rows_docs_remove)
next
  case (8 q m i m')
  then show ?case by (auto simp: memfs_sdk_def memfs_Documents_def fs_docs_def)
next
  case (9 i m nxt m')
  then show ?case
    by (auto simp: memfs_sdk_def memfs_Next_def fs_docs_def foreign_def split: list.splits)
next
  case (10 m i)
  show ?case by (simp add: memfs_sdk_def fs_docs_def)
next
  case (11 rid sid m res m')
  obtain res0 x1 where run: "assign_tx rid sid (adapter_tx memfs_tx) (fs_rows m) = (res0, x1)"
    by (cases "assign_tx rid sid (adapter_tx memfs_tx) (fs_rows m)")
  have m': "res = res0" "m' = (case res0 of None \<Rightarrow> m\<lparr>fs_rows := x1\<rparr> | Some e \<Rightarrow> m)"
    using 11 run by (auto simp: memfs_sdk_def memfs_RunTransaction_def split: option.splits)
  have "\<not> errors_Is e ErrNoIdleRunner" if "res0 = Some e" for e
    using run that
    by (auto simp: assign_tx_def adapter_tx_def memfs_tx_def mem_error_def status_Code_def
        split: option.splits any.splits if_splits)
  then show ?case using run m'
    by (intro exI [of _ memfs_tx] exI [of _ "fs_rows m"] exI [of _ res0] exI [of _ x1])
      (auto simp: memfs_tx_ok fs_docs_def docs_ok_rows split: option.splits)
next
  case (12 m)
  have "dom (fs_docs m) \<subseteq> fst ` set (fs_rows m)" by (auto dest: fs_docs_key)
  then show ?case by (rule finite_subset) simp
next
  case (13 m s m')
  then show ?case by simp
next
  case (14 q m i m')
  then have m': "m' = m\<lparr>fs_open := (case q_limit q of None \<Rightarrow> matching q m | Some n \<Rightarrow> take n (matching q m))\<rparr>"
    by (auto simp: memfs_sdk_def memfs_Documents_def)
  have "set (take n (matching q m)) \<subseteq> query_docs q (fs_docs m)" for n
    using set_take_subset [of n "matching q m"] by (simp add: set_matching)
  moreover have "distinct (map fst (take n (matching q m)))" for n
    using distinct_take [OF distinct_matching [of q m], of n] by (simp add: take_map)
  moreover have "matching q m = [] \<longleftrightarrow> query_docs q (fs_docs m) = {}" by (simp flip: set_matching)
  ultimately show ?case unfolding m' fs_pending_def
    by (auto simp: fs_docs_def distinct_matching set_matching split: option.splits)
next
  case (15 i m nxt m')
  then show ?case
    by (auto simp: memfs_sdk_def memfs_Next_def fs_docs_def fs_pending_def split: list.splits)
next
  case (16 i m)
  show ?case by (simp add: memfs_sdk_def fs_docs_def)
qed

end
