(* ===== verification/Broker_System.thy ===== *)
theory Broker_System
  imports Broker_Main Mem_Dynamo Mem_Firestore
begin

text \<open>
  The broker as \<open>main.go\<close> puts it together: the service on a store, the checker over HTTP and the
  session IDs from the random source. On any store that keeps the contract it meets what the
  lemmas of \<open>Broker_Service\<close> ask for, given the documented behaviour of the HTTP client and of
  the random source. It is interpreted on both stores that \<open>BUNSHIN_STORE\<close> can name, DynamoDB
  and Firestore, each with its client in memory.
\<close>

section \<open>Putting the parts together\<close>

definition broker_service ::
  "'w Repository \<Rightarrow> 'w HTTPChecker \<Rightarrow> string \<Rightarrow> (nat \<Rightarrow> 'w \<Rightarrow> (go_error + string) \<times> 'w) \<Rightarrow>
   'w BrokerService" where
  "broker_service rp hc stack cryptoRead =
     \<lparr>repo = rp, stackPrefix = stack, checker = Check hc, sessionFn = defaultSessionFn cryptoRead\<rparr>"

lemma broker_service_sel [simp]:
  "repo (broker_service rp hc stack cryptoRead) = rp"
  "stackPrefix (broker_service rp hc stack cryptoRead) = stack"
  "checker (broker_service rp hc stack cryptoRead) = Check hc"
  "sessionFn (broker_service rp hc stack cryptoRead) = defaultSessionFn cryptoRead"
  by (simp_all add: broker_service_def)

text \<open>With other brokers on the same store.\<close>

locale shared_system = repository rp abs others + http: http_exchange hc abs others
  for rp :: "'w Repository" and abs :: "'w \<Rightarrow> runners" and hc :: "'w HTTPChecker" +
  fixes cryptoRead :: "nat \<Rightarrow> 'w \<Rightarrow> (go_error + string) \<times> 'w"
  assumes read_env: "cryptoRead n w = (res, w') \<Longrightarrow> others (abs w) (abs w')"

sublocale shared_system \<subseteq> broker: shared_broker "broker_service rp hc stack cryptoRead" abs for stack
proof (intro shared_broker.intro shared_broker_axioms.intro)
  show "repository (repo (broker_service rp hc stack cryptoRead)) abs others"
    using repository_axioms by simp
  show "health_check (checker (broker_service rp hc stack cryptoRead)) abs others"
    using http.check.health_check_axioms by simp
  show "others (abs w) (abs w')"
    if "sessionFn (broker_service rp hc stack cryptoRead) w = (res, w')" for w res w'
    using that by (auto simp: defaultSessionFn_def split: prod.splits sum.splits dest: read_env)
qed

text \<open>Alone on the store. \<open>io.ReadFull\<close> fills the buffer or gives an error.\<close>

locale settled_system = settled_repository rp abs synced + http: http_exchange hc abs "(=)"
  for rp :: "'w Repository" and abs :: "'w \<Rightarrow> runners" and synced :: "'w \<Rightarrow> bool" and hc :: "'w HTTPChecker" +
  fixes cryptoRead :: "nat \<Rightarrow> 'w \<Rightarrow> (go_error + string) \<times> 'w"
    and ctxErr :: "'w ctx"
  assumes read_keeps: "cryptoRead n w = (res, w') \<Longrightarrow> abs w' = abs w"
    and read_full: "cryptoRead n w = (Inr b, w') \<Longrightarrow> length b = n"
    and read_error: "cryptoRead n w = (Inl e, w') \<Longrightarrow> \<not> errors_Is e ErrNoIdleRunner"
    and ctx_error: "ctxErr w = Some e \<Longrightarrow> \<not> errors_Is e ErrNoIdleRunner"

sublocale settled_system \<subseteq>
  broker: settled_broker "broker_service rp hc stack cryptoRead" abs synced ctxErr for stack
proof (intro settled_broker.intro settled_broker_axioms.intro)
  show "settled_repository (repo (broker_service rp hc stack cryptoRead)) abs synced"
    using settled_repository_axioms by simp
  show "health_check (checker (broker_service rp hc stack cryptoRead)) abs (=)"
    using http.check.health_check_axioms by simp
  show "abs w' = abs w" if "sessionFn (broker_service rp hc stack cryptoRead) w = (res, w')" for w res w'
    using that by (auto simp: defaultSessionFn_def split: prod.splits sum.splits dest: read_keeps)
  show "session_hex hex"
    if "sessionFn (broker_service rp hc stack cryptoRead) w = (Inr hex, w')" for w hex w'
    using that by (auto simp: defaultSessionFn_def split: prod.splits sum.splits
        intro!: session_hex_EncodeToString dest: read_full)
  show "\<not> errors_Is e ErrNoIdleRunner"
    if "sessionFn (broker_service rp hc stack cryptoRead) w = (Inl e, w')" for w e w'
    using that by (auto simp: defaultSessionFn_def split: prod.splits sum.splits dest: read_error)
  show "\<not> errors_Is e ErrNoIdleRunner" if "ctxErr w = Some e" for w e
    using that by (rule ctx_error)
qed

section \<open>In memory\<close>

text \<open>The runners behind \<open>down\<close> answer with 500; the random source gives the same bytes.\<close>

definition mem_http :: "string list \<Rightarrow> 'w http_client" where
  "mem_http down =
     \<lparr>NewRequest = \<lambda>url. None,
      Do = \<lambda>url w. (Inr (if url \<in> set (map (\<lambda>h. ''http://'' @ h @ '':1/health'') down) then 500 else 200), w)\<rparr>"

definition mem_checker :: "string list \<Rightarrow> 'w HTTPChecker" where
  "mem_checker down = \<lparr>hc_client = mem_http down, hc_port = 1\<rparr>"

definition mem_read :: "char \<Rightarrow> nat \<Rightarrow> 'w \<Rightarrow> (go_error + string) \<times> 'w" where
  "mem_read c n w = (Inr (replicate n c), w)"

interpretation mem_system:
  settled_system "dynamo_Repository (mem_repo start)" "\<lambda>m. runners_of (mem_table m)" mem_synced
    "mem_checker down" "mem_read c" "\<lambda>w. None"
  for start :: string and c :: char and down :: "string list"
  by unfold_locales (auto simp: mem_checker_def mem_http_def mem_read_def)

interpretation noisy_system:
  shared_system "dynamo_Repository (noisy_repo start)" "\<lambda>n. runners_of (noisy_table n)"
    "mem_checker down" "mem_read c"
  for start :: string and c :: char and down :: "string list"
  by unfold_locales (auto simp: mem_checker_def mem_http_def mem_read_def others_refl)

text \<open>The same broker on Firestore.\<close>

interpretation firestore_system:
  settled_system "firestore_Repository (mem_fs.store start)" "\<lambda>m. docs_runners (fs_docs m)" "\<lambda>m. True"
    "mem_checker down" "mem_read c" "\<lambda>w. None"
  for start :: string and c :: char and down :: "string list"
  by unfold_locales (auto simp: mem_checker_def mem_http_def mem_read_def)

definition mem_service :: "string \<Rightarrow> string list \<Rightarrow> mem BrokerService" where
  "mem_service stack down =
     broker_service (dynamo_Repository (mem_repo ''8'')) (mem_checker down) stack (mem_read (CHR ''a''))"

definition mem_store :: "mem \<Rightarrow> runners" where
  "mem_store = (\<lambda>m. runners_of (mem_table m))"

lemma mem_service_settled: "settled_broker (mem_service stack down) mem_store mem_synced (\<lambda>w. None)"
  unfolding mem_service_def mem_store_def by (rule mem_system.broker.settled_broker_axioms)

definition noisy_service :: "string \<Rightarrow> string list \<Rightarrow> noisy BrokerService" where
  "noisy_service stack down =
     broker_service (dynamo_Repository (noisy_repo ''8'')) (mem_checker down) stack (mem_read (CHR ''a''))"

definition noisy_store :: "noisy \<Rightarrow> runners" where
  "noisy_store = (\<lambda>n. runners_of (noisy_table n))"

lemma noisy_service_shared: "shared_broker (noisy_service stack down) noisy_store"
  unfolding noisy_service_def noisy_store_def by (rule noisy_system.broker.shared_broker_axioms)

definition firestore_mem :: "string \<Rightarrow> string list \<Rightarrow> fsmem BrokerService" where
  "firestore_mem stack down =
     broker_service (firestore_Repository (mem_fs.store ''8'')) (mem_checker down) stack (mem_read (CHR ''a''))"

definition firestore_store :: "fsmem \<Rightarrow> runners" where
  "firestore_store = (\<lambda>m. docs_runners (fs_docs m))"

lemma firestore_mem_settled:
  "settled_broker (firestore_mem stack down) firestore_store (\<lambda>m. True) (\<lambda>w. None)"
  unfolding firestore_mem_def firestore_store_def by (rule firestore_system.broker.settled_broker_axioms)

text \<open>A table with one idle runner, and the same table after a session was resolved on it.\<close>

definition idle_mem :: mem where
  "idle_mem = \<lparr>mem_items = [runner_item (new_runner ''1'' ''h1'')], mem_stale = []\<rparr>"

definition busy_mem :: mem where
  "busy_mem = \<lparr>mem_items = [(''currentSessionId'', ''tokyo_61616161616161616161616161616161'') # (''state'', ''busy'') #
                             runner_item (new_runner ''1'' ''h1'')], mem_stale = []\<rparr>"

definition first_result :: ResolveResult where
  "first_result = \<lparr>SessionID = ''tokyo_61616161616161616161616161616161'', SessionHex = ''61616161616161616161616161616161'', RunnerHost = ''h1'', Created = True,
                   Reassigned = False\<rparr>"

lemma resolve_idle_mem:
  "ResolveSession (mem_service ''tokyo'' []) (\<lambda>w. None) [] idle_mem = Some (Inr first_result, busy_mem)"
  by code_simp

lemma resolve_busy_mem:
  "ResolveSession (mem_service ''tokyo'' []) (\<lambda>w. None) ''tokyo_61616161616161616161616161616161'' busy_mem =
   Some (Inr (first_result\<lparr>Created := False\<rparr>), busy_mem)"
  by code_simp

lemma resolve_down_mem:
  "ResolveSession (mem_service ''tokyo'' [''h1'']) (\<lambda>w. None) ''tokyo_61616161616161616161616161616161'' busy_mem =
   Some (Inl (Sentinel ErrNoIdleRunner), \<lparr>mem_items = [], mem_stale = []\<rparr>)"
  by code_simp

lemma mem_synced_simps [simp]: "mem_synced idle_mem" "mem_synced busy_mem"
  by (simp_all add: mem_synced_def idle_mem_def busy_mem_def)

text \<open>The same broker while another one works: its script registers a runner in between.\<close>

definition noisy_idle :: noisy where
  "noisy_idle = \<lparr>db = idle_mem, script = [[], [Deleted ''2'']]\<rparr>"

lemma create_noisy_idle:
  "map_option fst (createSession (noisy_service ''tokyo'' []) (\<lambda>w. None) noisy_idle) =
     Some (Inr \<lparr>CreatedID = ''tokyo_61616161616161616161616161616161'', CreatedHex = ''61616161616161616161616161616161'',
                CreatedRunner = assigned ''tokyo_61616161616161616161616161616161'' (new_runner ''1'' ''h1'')\<rparr>)"
  by code_simp

end
