(* ===== verification/Store_Properties.thy ===== *)
theory Store_Properties
  imports Broker_System Mem_Firestore
begin

text \<open>
  The properties of the two stores: alone, and with other brokers at work.
\<close>

section \<open>Inside the contracts\<close>

context settled_dynamo
begin

lemma acquire_idle_spec:
  "\<exists>res w'. dynamo_AcquireIdle r sid w = Some (res, w') \<and>
    (case res of
       Inr x \<Rightarrow> \<exists>x0. abs w (RunnerID x) = Some x0 \<and> IsIdle x0 \<and> x = assigned sid x0 \<and>
         abs w' = (abs w)(RunnerID x \<mapsto> x)
     | Inl e \<Rightarrow> errors_Is e ErrNoIdleRunner \<longrightarrow> idle_ids (abs w) = {} \<and> abs w' = abs w)"
proof -
  obtain res w' where ret: "dynamo_AcquireIdle r sid w = Some (res, w')" and idle: "case res of
      Inl e \<Rightarrow> errors_Is e ErrNoIdleRunner \<longrightarrow> (\<forall>rid. \<not> idle_at w rid)
    | Inr x \<Rightarrow> abs w' (RunnerID x) = Some x"
    using dynamo_AcquireIdle_settled [of sid w] by blast
  note acq = acquire_result [OF ret]
  show ?thesis
  proof (cases res)
    case (Inl e)
    then have "errors_Is e ErrNoIdleRunner \<longrightarrow> abs w' = abs w" using acq by (auto simp: acquired_def)
    then show ?thesis using ret Inl idle by (auto simp: idle_ids_def idle_at_def)
  next
    case (Inr x)
    then have rec: "abs w' (RunnerID x) = Some x" and "store_step (abs w) (Assigned (RunnerID x) sid) (abs w')"
      using acq idle by (auto simp: acquired_def simp del: store_step_Assigned runners_of_apply)
    then obtain x0 where x0: "abs w (RunnerID x) = Some x0" "IsIdle x0"
      and w': "abs w' = (abs w)(RunnerID x \<mapsto> assigned sid x0)" by auto
    have "x = assigned sid x0" using rec unfolding w' by simp
    then show ?thesis using ret Inr x0 w' by (auto simp del: runners_of_apply)
  qed
qed

lemma register_spec:
  assumes "dynamo_Register r rid host w = (res, w')" and "abs w rid \<noteq> None"
  shows "res \<noteq> None \<and> abs w' = abs w"
proof -
  obtain t where t: "abs w = t" and law: "case res of
      None \<Rightarrow> store_step t (Registered rid host) (abs w')
    | Some e \<Rightarrow> (abs w' = t \<or> store_step t (Registered rid host) (abs w')) \<and>
        (errors_Is e ErrConflict \<longrightarrow> abs w' = t \<and> t rid \<noteq> None)"
    using register_result [OF assms(1)] by blast
  with assms(2) have "t rid \<noteq> None" by simp
  with law t show ?thesis by (cases res) auto
qed

end

context dynamo_service
begin

lemma acquire_atomic:
  assumes "dynamo_AcquireIdle r sid w = Some (res, w')"
  shows "case res of
      Inr x \<Rightarrow> State x = StateBusy \<and> CurrentSessionID x = sid \<and>
        (\<exists>t. env (abs w) t \<and> store_step t (Assigned (RunnerID x) sid) (abs w'))
    | Inl e \<Rightarrow> env (abs w) (abs w') \<or>
        (\<not> errors_Is e ErrNoIdleRunner \<and>
         (\<exists>t rid. env (abs w) t \<and> store_step t (Assigned rid sid) (abs w')))"
  using acquire_result [OF assms] by (cases res) (auto simp: acquired_def simp del: store_step_Assigned)

end

context settled_library
begin

lemma firestore_acquire_spec:
  assumes sid: "sid \<noteq> []"
  shows "\<exists>res w'. firestore_AcquireIdle store sid w = Some (res, w') \<and>
    (case res of
       Inr x \<Rightarrow> \<exists>x0. docs_runners (docs w) (RunnerID x) = Some x0 \<and> IsIdle x0 \<and> x = assigned sid x0 \<and>
         docs_runners (docs w') = (docs_runners (docs w))(RunnerID x \<mapsto> x)
     | Inl e \<Rightarrow> errors_Is e ErrNoIdleRunner \<longrightarrow>
         idle_ids (docs_runners (docs w)) = {} \<and> docs_runners (docs w') = docs_runners (docs w))"
proof -
  have acq: "AcquireIdle (firestore_Repository store) = firestore_AcquireIdle store"
    by (simp add: firestore_Repository_def)
  obtain res w' where ret: "firestore_AcquireIdle store sid w = Some (res, w')"
    using fs.repo.acquire_total [OF sid, of w] unfolding acq by auto
  show ?thesis
  proof (cases res)
    case (Inl e)
    have "idle_ids (docs_runners (docs w)) = {} \<and> docs_runners (docs w') = docs_runners (docs w)"
      if "errors_Is e ErrNoIdleRunner"
      using fs.repo.acquire_none [of sid w e w'] fs.repo.acquire_noop [of sid w e w'] ret Inl that sid
      unfolding acq by (auto simp: idle_ids_def)
    with ret Inl show ?thesis by simp
  next
    case (Inr x)
    with fs.repo.acquire_step [of sid w x w'] ret sid show ?thesis unfolding acq by simp
  qed
qed

lemma firestore_register_find:
  assumes reg: "firestore_Register store rid host w = (None, w1)"
    and find: "firestore_FindByID store rid w1 = (res, w2)"
  shows "docs_runners (docs w) rid = None \<and> runnerIDRe rid \<and> host \<noteq> [] \<and>
    (case res of Inr x \<Rightarrow> x = new_runner rid host | Inl e \<Rightarrow> \<not> errors_Is e ErrNotFound)"
proof -
  have "store_step (docs_runners (docs w)) (Registered rid host) (docs_runners (docs w1))"
    using fs.register_result [OF reg] by (auto simp del: store_step_Registered)
  then have new: "docs_runners (docs w) rid = None" "runnerIDRe rid" "host \<noteq> []"
    "docs_runners (docs w1) rid = Some (new_runner rid host)" by auto
  then show ?thesis using fs.find_id_result [OF find] by (cases res) auto
qed

end

lemma result_field:
  assumes "map_option (\<lambda>(res, w'). map_sum id f res) c = Some (Inr v)"
  obtains x w' where "c = Some (Inr x, w')" "f x = v"
proof (cases c)
  case (Some p)
  show ?thesis
    using assms Some by (cases p; cases "fst p") (auto intro: that)
qed (use assms in simp)

section \<open>Acquiring a runner\<close>




text \<open>
  C9: acquiring a runner takes effect at one point. With any interference \<open>env\<close> between the
  calls to DynamoDB, a runner that is returned was made busy with the session by exactly one
  atomic assignment, at which it was idle; and when \<open>ErrNoIdleRunner\<close> is returned the broker
  has changed nothing.
\<close>

theorem AcquireIdle_atomic:
  assumes "dynamo_service r table env" and "dynamo_AcquireIdle r sid w = Some (res, w')"
  shows "case res of
      Inr x \<Rightarrow> State x = StateBusy \<and> CurrentSessionID x = sid \<and>
        (\<exists>t. env (runners_of (table w)) t \<and> store_step t (Assigned (RunnerID x) sid) (runners_of (table w')))
    | Inl e \<Rightarrow> env (runners_of (table w)) (runners_of (table w')) \<or>
        (\<not> errors_Is e ErrNoIdleRunner \<and>
         (\<exists>t rid. env (runners_of (table w)) t \<and> store_step t (Assigned rid sid) (runners_of (table w'))))"
  using assms by (rule dynamo_service.acquire_atomic)

text \<open>Another broker takes runner 1 after the first query; then runner 3 is the next candidate.\<close>

definition raced :: noisy where
  "raced = \<lparr>db = \<lparr>mem_items = [runner_item (new_runner ''1'' ''h1''), runner_item (new_runner ''3'' ''h3'')],
                  mem_stale = []\<rparr>,
            script = [[], [], [Assigned ''1'' ''other'']]\<rparr>"

theorem AcquireIdle_atomic_witness:
  "\<exists>x w' t. dynamo_AcquireIdle (noisy_repo ''8'') ''s'' raced = Some (Inr x, w') \<and> RunnerID x = ''3'' \<and>
     others (noisy_store raced) t \<and> store_step t (Assigned ''3'' ''s'') (noisy_store w')"
proof -
  have "map_option (\<lambda>(res, w'). map_sum id RunnerID res) (dynamo_AcquireIdle (noisy_repo ''8'') ''s'' raced) =
      Some (Inr ''3'')" by code_simp
  then obtain x w' where run: "dynamo_AcquireIdle (noisy_repo ''8'') ''s'' raced = Some (Inr x, w')"
    and x: "RunnerID x = ''3''" by (rule result_field)
  from AcquireIdle_atomic [OF noisy_db.dynamo_service_axioms run] x run
  show ?thesis unfolding noisy_store_def by (auto simp del: store_step_Assigned)
qed

section \<open>Registering a runner\<close>

text \<open>
  C19: registering a runner that is already in the store fails and leaves the store as it is,
  also when the host is the same, so a runner whose first registration was answered too late
  cannot repeat it.
\<close>

theorem Register_twice_fails:
  assumes "settled_dynamo r table index synced" and "dynamo_Register r rid host w = (res, w')"
    and "runners_of (table w) rid \<noteq> None"
  shows "res \<noteq> None \<and> runners_of (table w') = runners_of (table w)"
  using assms by (rule settled_dynamo.register_spec)

theorem Register_twice_fails_witness:
  "\<exists>w'. dynamo_Register (mem_repo ''8'') (replicate 32 (CHR ''0'')) ''h1''
      \<lparr>mem_items = [runner_item (new_runner (replicate 32 (CHR ''0'')) ''h1'')], mem_stale = []\<rparr> =
      (Some (Sentinel ErrConflict), w') \<and>
     mem_store w' (replicate 32 (CHR ''0'')) = Some (new_runner (replicate 32 (CHR ''0'')) ''h1'')"
proof -
  let ?rid = "replicate 32 (CHR ''0'')"
  let ?m = "\<lparr>mem_items = [runner_item (new_runner ?rid ''h1'')], mem_stale = []\<rparr>"
  have "fst (dynamo_Register (mem_repo ''8'') ?rid ''h1'' ?m) = Some (Sentinel ErrConflict)" by code_simp
  then obtain w' where reg: "dynamo_Register (mem_repo ''8'') ?rid ''h1'' ?m = (Some (Sentinel ErrConflict), w')"
    by (cases "dynamo_Register (mem_repo ''8'') ?rid ''h1'' ?m") auto
  have rec: "mem_store ?m ?rid = Some (new_runner ?rid ''h1'')"
    by (simp add: mem_store_def mem_table_def attr_runner_item new_runner_def)
  then have "runners_of (mem_table ?m) ?rid \<noteq> None"
    unfolding mem_store_def by (simp only:) simp
  then have "mem_store w' = mem_store ?m"
    unfolding mem_store_def
    by (intro conjunct2 [OF Register_twice_fails [of "mem_repo ''8''" mem_table mem_index mem_synced]])
      (rule mem_db.settled_dynamo_axioms, rule reg)
  with rec have "mem_store w' ?rid = Some (new_runner ?rid ''h1'')" by (simp only:)
  then show ?thesis using reg by blast
qed

section \<open>On Firestore\<close>

text \<open>
  C10: the Firestore store keeps the same promise: acquiring a runner always returns, finds an
  idle runner whenever there is one, and changes exactly the record of the runner it returns.
\<close>

theorem Firestore_AcquireIdle_exhaustive:
  assumes "settled_library sdk rand docs view pending" and "sid \<noteq> []"
  shows "\<exists>res w'. firestore_AcquireIdle \<lparr>api = Adapter sdk, fs_randHexFn = rand\<rparr> sid w = Some (res, w') \<and>
    (case res of
       Inr x \<Rightarrow> \<exists>x0. docs_runners (docs w) (RunnerID x) = Some x0 \<and> IsIdle x0 \<and> x = assigned sid x0 \<and>
         docs_runners (docs w') = (docs_runners (docs w))(RunnerID x \<mapsto> x)
     | Inl e \<Rightarrow> errors_Is e ErrNoIdleRunner \<longrightarrow>
         idle_ids (docs_runners (docs w)) = {} \<and> docs_runners (docs w') = docs_runners (docs w))"
  using assms by (rule settled_library.firestore_acquire_spec)

definition memfs_store :: "(fsmem, rows) FirestoreRepository" where
  "memfs_store = \<lparr>api = Adapter memfs_sdk, fs_randHexFn = \<lambda>m. (''8'', m)\<rparr>"

definition two_rows :: fsmem where
  "two_rows = \<lparr>fs_rows = [(''1'', Map.empty, ''h1'', ''s0''), (''9'', Map.empty, ''h9'', [])], fs_open = []\<rparr>"

theorem Firestore_AcquireIdle_exhaustive_witness:
  "\<exists>x w'. firestore_AcquireIdle memfs_store ''s'' two_rows = Some (Inr x, w') \<and> RunnerID x = ''9'' \<and>
     docs_runners (fs_docs w') = (docs_runners (fs_docs two_rows))(''9'' \<mapsto> x)"
proof -
  have "map_option (\<lambda>(res, w'). map_sum id RunnerID res) (firestore_AcquireIdle memfs_store ''s'' two_rows) =
      Some (Inr ''9'')" by code_simp
  then obtain x w' where run: "firestore_AcquireIdle memfs_store ''s'' two_rows = Some (Inr x, w')"
    and x: "RunnerID x = ''9''" by (rule result_field)
  with Firestore_AcquireIdle_exhaustive [OF mem_fs.settled_library_axioms, of "''s''" "''8''" two_rows]
  show ?thesis by (auto simp: memfs_store_def)
qed

text \<open>
  What is registered can be found. A registration in the Firestore store succeeds only for a
  new ID of the right form with a host; looking the ID up then gives the runner, idle and with
  this host, unless the call fails, and never \<open>ErrNotFound\<close>.
\<close>

theorem Firestore_Register_FindByID:
  assumes "settled_library sdk rand docs view pending"
    and "firestore_Register \<lparr>api = Adapter sdk, fs_randHexFn = rand\<rparr> rid host w = (None, w1)"
    and "firestore_FindByID \<lparr>api = Adapter sdk, fs_randHexFn = rand\<rparr> rid w1 = (res, w2)"
  shows "docs_runners (docs w) rid = None \<and> runnerIDRe rid \<and> host \<noteq> [] \<and>
    (case res of Inr x \<Rightarrow> x = new_runner rid host | Inl e \<Rightarrow> \<not> errors_Is e ErrNotFound)"
  using assms by (rule settled_library.firestore_register_find)

theorem Firestore_Register_FindByID_witness:
  "\<exists>w1 w2. firestore_Register memfs_store (replicate 32 (CHR ''0'')) ''h0'' two_rows = (None, w1) \<and>
     firestore_FindByID memfs_store (replicate 32 (CHR ''0'')) w1 =
       (Inr (new_runner (replicate 32 (CHR ''0'')) ''h0''), w2)"
proof -
  let ?rid = "replicate 32 (CHR ''0'')"
  obtain res0 w1 where reg0: "firestore_Register memfs_store ?rid ''h0'' two_rows = (res0, w1)"
    by (cases "firestore_Register memfs_store ?rid ''h0'' two_rows")
  obtain res w2 where find: "firestore_FindByID memfs_store ?rid w1 = (res, w2)"
    by (cases "firestore_FindByID memfs_store ?rid w1")
  have "fst (firestore_Register memfs_store ?rid ''h0'' two_rows) = None" by code_simp
  then have reg: "firestore_Register memfs_store ?rid ''h0'' two_rows = (None, w1)" using reg0 by simp
  have "case fst (firestore_FindByID memfs_store ?rid (snd (firestore_Register memfs_store ?rid ''h0'' two_rows))) of
      Inl e \<Rightarrow> False | Inr x \<Rightarrow> True" by code_simp
  then have "\<exists>x. res = Inr x" using find reg0 by (auto split: sum.splits)
  with Firestore_Register_FindByID [OF mem_fs.settled_library_axioms reg [unfolded memfs_store_def]
      find [unfolded memfs_store_def]]
  have "res = Inr (new_runner ?rid ''h0'')" by auto
  with reg find show ?thesis by blast
qed

end
