(* ===== verification/Two_Stores.thy ===== *)
theory Two_Stores
  imports Store_Properties
begin

text \<open>
  The two stores are interchangeable: what a broker sees of DynamoDB and of Firestore is the same
  when they hold the same runners. The comparison is made once, for any two stores that keep the
  contract, and then applied to the two of the program.
\<close>

section \<open>Answers that decide\<close>

text \<open>An answer that says what is in the store: a value, or the one error that denies it.\<close>

fun decided :: "sentinel \<Rightarrow> go_error + 'a \<Rightarrow> bool" where
  "decided s (Inl e) = errors_Is e s"
| "decided s (Inr x) = True"

fun registration_decided :: "go_error option \<Rightarrow> bool" where
  "registration_decided None = True"
| "registration_decided (Some e) = errors_Is e ErrConflict"

text \<open>What acquiring a runner for a session may answer on the store \<open>t\<close>, which becomes \<open>t'\<close>.\<close>

definition acquired_from :: "runners \<Rightarrow> string \<Rightarrow> go_error + Runner \<Rightarrow> runners \<Rightarrow> bool" where
  "acquired_from t sid x t' \<longleftrightarrow>
     (case x of
        Inl e \<Rightarrow> idle_ids t = {} \<and> t' = t
      | Inr r \<Rightarrow> \<exists>r0. t (RunnerID r) = Some r0 \<and> IsIdle r0 \<and> r = assigned sid r0 \<and> t' = t(RunnerID r \<mapsto> r))"

text \<open>
  The answers of two stores to the same calls, one by one. Which idle runner is handed out is the
  choice of each; everything else is determined.
\<close>

definition same_answers ::
  "'v Repository \<Rightarrow> ('v \<Rightarrow> runners) \<Rightarrow> 'w Repository \<Rightarrow> ('w \<Rightarrow> runners) \<Rightarrow> 'v \<Rightarrow> 'w \<Rightarrow> bool" where
  "same_answers ra aa rb ab v w \<longleftrightarrow>
     (\<forall>rid host x v' y w'. Register ra rid host v = (x, v') \<longrightarrow> Register rb rid host w = (y, w') \<longrightarrow>
        registration_decided x \<longrightarrow> registration_decided y \<longrightarrow> (x = None \<longleftrightarrow> y = None) \<and> aa v' = ab w') \<and>
     (\<forall>sid. sid \<noteq> [] \<longrightarrow> (\<exists>x v' y w'. AcquireIdle ra sid v = Some (x, v') \<and> AcquireIdle rb sid w = Some (y, w') \<and>
        (decided ErrNoIdleRunner x \<longrightarrow> decided ErrNoIdleRunner y \<longrightarrow>
           isl x = isl y \<and> acquired_from (aa v) sid x (aa v') \<and> acquired_from (aa v) sid y (ab w')))) \<and>
     (\<forall>sid x v' y w'. sid \<noteq> [] \<longrightarrow> FindBySessionID ra sid v = (x, v') \<longrightarrow> FindBySessionID rb sid w = (y, w') \<longrightarrow>
        decided ErrNotFound x \<longrightarrow> decided ErrNotFound y \<longrightarrow> isl x = isl y \<and> aa v' = ab w' \<and>
        (\<forall>r s. x = Inr r \<longrightarrow> y = Inr s \<longrightarrow> RunnerID r = RunnerID s \<longrightarrow> r = s)) \<and>
     (\<forall>rid x v' y w'. FindByID ra rid v = (x, v') \<longrightarrow> FindByID rb rid w = (y, w') \<longrightarrow>
        decided ErrNotFound x \<longrightarrow> decided ErrNotFound y \<longrightarrow> isl x = isl y \<and> aa v' = ab w' \<and>
        (\<forall>r s. x = Inr r \<longrightarrow> y = Inr s \<longrightarrow> r = s)) \<and>
     (\<exists>x v' y w'. ListBusyRunners ra v = Some (x, v') \<and> ListBusyRunners rb w = Some (y, w') \<and> aa v' = ab w' \<and>
        (\<forall>rs ss. x = Inr rs \<longrightarrow> y = Inr ss \<longrightarrow> mset rs = mset ss)) \<and>
     (\<forall>rid v' w'. Delete ra rid v = (None, v') \<longrightarrow> Delete rb rid w = (None, w') \<longrightarrow> aa v' = ab w')"

context settled_repository
begin

lemma register_decided:
  assumes "Register repo rid host w = (x, w')" and "registration_decided x"
  shows "if abs w rid = None then x = None \<and> abs w' = (abs w)(rid \<mapsto> new_runner rid host) else x \<noteq> None \<and> abs w' = abs w"
proof (cases x)
  case None
  with register_ok [of rid host w w'] assms show ?thesis by auto
next
  case (Some e)
  with register_conflict [of rid host w e w'] assms show ?thesis by auto
qed

lemma acquire_decided:
  assumes "AcquireIdle repo sid w = Some (x, w')" and "sid \<noteq> []" and "decided ErrNoIdleRunner x"
  shows "acquired_from (abs w) sid x (abs w') \<and> (isl x \<longleftrightarrow> idle_ids (abs w) = {})"
proof (cases x)
  case (Inl e)
  then have "idle_ids (abs w) = {}"
    using acquire_none [of sid w e w'] assms by (auto simp: idle_ids_def)
  moreover have "abs w' = abs w" using acquire_noop [of sid w e w'] assms Inl by simp
  ultimately show ?thesis using Inl by (simp add: acquired_from_def)
next
  case (Inr r)
  with acquire_step [of sid w r w'] assms obtain r0 where "abs w (RunnerID r) = Some r0" "IsIdle r0"
    "r = assigned sid r0" "abs w' = (abs w)(RunnerID r \<mapsto> r)" by blast
  then show ?thesis using Inr by (auto simp: acquired_from_def idle_ids_def)
qed

lemma find_session_decided:
  assumes "FindBySessionID repo sid w = (x, w')" and "sid \<noteq> []" and "synced w" and "decided ErrNotFound x"
  shows "abs w' = abs w \<and> (isl x \<longleftrightarrow> (\<forall>rid r. abs w rid = Some r \<longrightarrow> CurrentSessionID r \<noteq> sid)) \<and>
    (\<forall>r. x = Inr r \<longrightarrow> abs w (RunnerID r) = Some r)"
proof (cases x)
  case (Inl e)
  then show ?thesis using assms find_session_none [of w sid e w'] find_session_same [of sid w x w'] by auto
next
  case (Inr r)
  then show ?thesis using assms find_session_ok [of w sid r w'] find_session_same [of sid w x w'] by auto
qed

lemma find_id_decided:
  assumes "FindByID repo rid w = (x, w')" and "decided ErrNotFound x"
  shows "abs w' = abs w \<and> abs w rid = (case x of Inl e \<Rightarrow> None | Inr r \<Rightarrow> Some r)"
proof (cases x)
  case (Inl e)
  then show ?thesis using assms find_id_none [of rid w e w'] find_id_env [of rid w e w'] by simp
next
  case (Inr r)
  then show ?thesis using assms find_id_ok [of rid w r w'] by simp
qed

lemma list_decided: "\<exists>x w'. ListBusyRunners repo w = Some (x, w') \<and> abs w' = abs w \<and>
    (synced w \<longrightarrow> (\<forall>rs. x = Inr rs \<longrightarrow> distinct rs \<and> set rs = {r \<in> ran (abs w). IsBusy r}))"
proof -
  obtain x w' where list: "ListBusyRunners repo w = Some (x, w')" using list_total [of w] by auto
  then show ?thesis using list_env [OF list] list_ok [of w _ w'] by auto
qed

end

locale two_stores = a: settled_repository ra aa sa + b: settled_repository rb ab sb
  for ra :: "'v Repository" and aa :: "'v \<Rightarrow> runners" and sa :: "'v \<Rightarrow> bool"
    and rb :: "'w Repository" and ab :: "'w \<Rightarrow> runners" and sb :: "'w \<Rightarrow> bool"
begin

lemma interchangeable:
  assumes same: "aa v = ab w" and sync: "sa v" "sb w"
  shows "same_answers ra aa rb ab v w"
  unfolding same_answers_def
proof (intro conjI allI impI, goal_cases)
  case (1 rid host x v' y w')
  then show ?case using a.register_decided [of rid host v x v'] b.register_decided [of rid host w y w'] same
    by (auto split: if_splits)
next
  case (2 rid host x v' y w')
  then show ?case using a.register_decided [of rid host v x v'] b.register_decided [of rid host w y w'] same
    by (auto split: if_splits)
next
  case (3 sid)
  obtain x v' where x: "AcquireIdle ra sid v = Some (x, v')" using a.acquire_total [OF 3, of v] by auto
  obtain y w' where y: "AcquireIdle rb sid w = Some (y, w')" using b.acquire_total [OF 3, of w] by auto
  show ?case
    using x y a.acquire_decided [OF x 3] b.acquire_decided [OF y 3] same by auto
next
  case (4 sid x v' y w')
  then show ?case
    using a.find_session_decided [of sid v x v'] b.find_session_decided [of sid w y w'] same sync by simp
next
  case (5 sid x v' y w')
  then show ?case
    using a.find_session_decided [of sid v x v'] b.find_session_decided [of sid w y w'] same sync by simp
next
  case (6 sid x v' y w' r s)
  have "aa v (RunnerID r) = Some r" using a.find_session_ok [OF sync(1) 6(2) [unfolded 6(6)]] by (rule conjunct1)
  moreover have "ab w (RunnerID s) = Some s" using b.find_session_ok [OF sync(2) 6(3) [unfolded 6(7)]] by (rule conjunct1)
  ultimately show ?case unfolding same 6(8) by (rule trans [OF sym, THEN option.inject [THEN iffD1]])
next
  case (7 rid x v' y w')
  then show ?case using a.find_id_decided [of rid v x v'] b.find_id_decided [of rid w y w'] same
    by (auto split: sum.splits)
next
  case (8 rid x v' y w')
  then show ?case using a.find_id_decided [of rid v x v'] b.find_id_decided [of rid w y w'] same by simp
next
  case (9 rid x v' y w' r s)
  then show ?case using a.find_id_decided [of rid v x v'] b.find_id_decided [of rid w y w'] same by simp
next
  case 10
  obtain x v' where x: "ListBusyRunners ra v = Some (x, v')" "aa v' = aa v"
    "\<forall>rs. x = Inr rs \<longrightarrow> distinct rs \<and> set rs = {r \<in> ran (aa v). IsBusy r}" using a.list_decided [of v] sync by blast
  obtain y w' where y: "ListBusyRunners rb w = Some (y, w')" "ab w' = ab w"
    "\<forall>rs. y = Inr rs \<longrightarrow> distinct rs \<and> set rs = {r \<in> ran (ab w). IsBusy r}" using b.list_decided [of w] sync by blast
  show ?case using x y same by (auto simp flip: set_eq_iff_mset_eq_distinct)
next
  case (11 rid v' w')
  then show ?case using a.delete_step [of rid v v'] b.delete_step [of rid w w'] same by simp
qed

end

interpretation dynamo_firestore: two_stores "dynamo_Repository (mem_repo start)" "\<lambda>m. runners_of (mem_table m)" mem_synced
    "firestore_Repository (mem_fs.store start')" "\<lambda>m. docs_runners (fs_docs m)" "\<lambda>m. True"
  for start start' :: string
  by unfold_locales





end
