(* ===== verification/Broker_Properties.thy ===== *)
theory Broker_Properties
  imports Broker_System
begin

text \<open>
  The properties of the broker: of its service on any store that keeps the contract, of its
  handlers, and of the process as a whole. The first section proves them inside the locales;
  the properties then state them over the definitions, with the contract as a hypothesis.
\<close>

section \<open>Inside the contracts\<close>

context settled_broker
begin

lemma resolve_result:
  assumes "synced w" and "ResolveSession s ctxErr sid w = Some (Inr v, w')"
  shows "(\<exists>w1. checker s (RunnerHost v) w1 = (None, w')) \<and>
    (\<exists>x. abs w' (RunnerID x) = Some x \<and> CurrentSessionID x = SessionID v \<and>
         PrivateHost x = RunnerHost v \<and>
         (if Created v
          then \<exists>x0. abs w (RunnerID x) = Some x0 \<and> IsIdle x0 \<and> x = assigned (SessionID v) x0
          else SessionID v = sid \<and> abs w' = abs w)) \<and>
    (Created v \<longrightarrow>
       (Reassigned v \<longleftrightarrow> sid \<noteq> [] \<and> (\<exists>rid x. abs w rid = Some x \<and> CurrentSessionID x = sid)))"
  using assms(2,1)
proof (cases rule: ResolveSession_cases)
  case fresh
  then obtain x w1 where "assigned_in (abs w) (SessionID v) x (abs w')" "RunnerHost v = PrivateHost x"
    "checker s (RunnerHost v) w1 = (None, w')" "Created v" "\<not> Reassigned v"
    by (auto simp: resolved_new_def)
  with assigned_in_D [OF this(1)] show ?thesis using fresh(2)
    by (intro conjI exI [of _ x] exI [of _ w1]) auto
next
  case (moved y)
  then obtain x w1 where "assigned_in ((abs w)(RunnerID y := None)) (SessionID v) x (abs w')"
    "RunnerHost v = PrivateHost x" "checker s (RunnerHost v) w1 = (None, w')" "Created v" "Reassigned v"
    by (auto simp: resolved_new_def)
  with assigned_in_D [OF this(1)] show ?thesis using moved(1-3)
    by (intro conjI exI [of _ x] exI [of _ w1]) (auto split: if_splits)
qed auto

lemma without_idle: "idle_ids (without (idle_ids t) t) = {}"
  by (auto simp: idle_ids_def without_def restrict_map_def split: if_splits)

lemma resolve_no_idle:
  assumes "synced w" and "ResolveSession s ctxErr sid w = Some (Inl e, w')" and "errors_Is e ErrNoIdleRunner"
  shows "idle_ids (abs w') = {} \<and>
    (\<forall>rid x. abs w rid = Some x \<longrightarrow> \<not> IsIdle x \<longrightarrow> CurrentSessionID x \<noteq> sid \<longrightarrow> abs w' rid = Some x) \<and>
    (\<forall>rid x. abs w' rid = Some x \<longrightarrow> abs w rid = Some x)"
proof -
  have frame: "\<forall>rid x. abs w rid = Some x \<longrightarrow> \<not> IsIdle x \<longrightarrow> CurrentSessionID x \<noteq> sid \<longrightarrow> abs w' rid = Some x"
    using ResolveSession_frame [OF assms(2,1)] by blast
  have "\<exists>t. abs w' = without (idle_ids t) t \<and> (\<forall>rid x. t rid = Some x \<longrightarrow> abs w rid = Some x)"
    using assms(2,1)
  proof (cases rule: ResolveSession_cases)
    case fresh
    then show ?thesis using assms(3) by (auto simp: resolved_new_def)
  next
    case (moved y)
    then show ?thesis using assms(3)
      by (intro exI [of _ "(abs w)(RunnerID y := None)"]) (simp add: resolved_new_def)
  qed (use assms(3) in simp_all)
  then obtain t where t: "abs w' = without (idle_ids t) t" "\<forall>rid x. t rid = Some x \<longrightarrow> abs w rid = Some x"
    by blast
  have "t rid = Some x" if "abs w' rid = Some x" for rid x
    using that unfolding t(1) by (simp add: without_def restrict_map_def split: if_splits)
  with t(2) have "\<forall>rid x. abs w' rid = Some x \<longrightarrow> abs w rid = Some x" by blast
  moreover have "idle_ids (abs w') = {}" unfolding t(1) by (rule without_idle)
  ultimately show ?thesis using frame by blast
qed

lemma resolve_error:
  assumes "synced w" and "ResolveSession s ctxErr sid w = Some (Inl e, w')"
  shows "\<exists>t hex. (t = abs w \<or> (\<exists>x. abs w (RunnerID x) = Some x \<and> CurrentSessionID x = sid \<and> sid \<noteq> [] \<and>
      t = (abs w)(RunnerID x := None))) \<and> leftover t (namespacedSessionID s hex) (abs w')"
  using assms(2,1)
proof (cases rule: ResolveSession_cases)
  case (error e')
  then show ?thesis by (metis leftover_same)
next
  case fresh
  then show ?thesis by (auto simp: resolved_new_def)
next
  case (removal_error x e')
  then show ?thesis by (metis leftover_same)
next
  case (moved x)
  then show ?thesis unfolding resolved_new_def sum.case by blast
qed simp

lemma lookup_unique:
  assumes look: "LookupSession s hex w = (ans, w')" and sync: "synced w" and x: "abs w rid = Some x"
    and sid: "\<And>k y. abs w k = Some y \<Longrightarrow> CurrentSessionID y = namespacedSessionID s hex \<longleftrightarrow> k = rid"
  shows "abs w' = abs w \<and>
    (case ans of Inr l \<Rightarrow> LookupHost l = PrivateHost x | Inl e \<Rightarrow> \<not> errors_Is e ErrNotFound)"
proof -
  obtain found w1 where find: "FindBySessionID (repo s) (namespacedSessionID s hex) w = (found, w1)"
    by (cases "FindBySessionID (repo s) (namespacedSessionID s hex) w")
  show ?thesis
  proof (cases found)
    case (Inl e)
    have "\<not> errors_Is e ErrNotFound"
      using find_session_none [OF sync find [unfolded Inl] _ namespaced_neq_Nil x] sid [OF x] by blast
    then show ?thesis using look find Inl find_session_same [OF find] by (auto simp: LookupSession_def)
  next
    case (Inr y)
    from find_session_ok [OF sync find [unfolded Inr]] have "y = x" using sid x by (metis option.inject)
    then show ?thesis using look find Inr find_session_same [OF find] by (auto simp: LookupSession_def)
  qed
qed

lemma lookup_created:
  assumes res: "ResolveSession s ctxErr sid w = Some (Inr v, w')" and cr: "Created v"
    and look: "LookupSession s (SessionHex v) w1 = (ans, w2)" and sync: "synced w" "synced w1"
    and same: "abs w1 = abs w'"
    and uniq: "\<And>rid rid' x x'. abs w' rid = Some x \<Longrightarrow> abs w' rid' = Some x' \<Longrightarrow>
      CurrentSessionID x = SessionID v \<Longrightarrow> CurrentSessionID x' = SessionID v \<Longrightarrow> rid = rid'"
  shows "case ans of Inr l \<Rightarrow> LookupHost l = RunnerHost v | Inl e \<Rightarrow> \<not> errors_Is e ErrNotFound"
proof -
  from resolve_result [OF sync(1) res] obtain x where x: "abs w' (RunnerID x) = Some x"
    "CurrentSessionID x = SessionID v" "PrivateHost x = RunnerHost v" by blast
  have sid: "SessionID v = namespacedSessionID s (SessionHex v)"
    using res sync(1) cr by (cases rule: ResolveSession_cases) (auto simp: resolved_new_def)
  have "CurrentSessionID y = namespacedSessionID s (SessionHex v) \<longleftrightarrow> k = RunnerID x" if "abs w1 k = Some y" for k y
    using that uniq [of k y "RunnerID x" x] x same unfolding sid by auto
  from lookup_unique [OF look sync(2) _ this, of x] show ?thesis using x same by (cases ans) auto
qed

end

context shared_broker
begin

lemma create_exclusive:
  assumes create: "createSession s ctxErr w = Some (Inr c, w')" and run: "store_run (abs w') as t'"
  shows "\<exists>before after.
    store_run (abs w) (before @ Assigned (RunnerID (CreatedRunner c)) (CreatedID c) # after) (abs w') \<and>
    (Deleted (RunnerID (CreatedRunner c)) \<notin> set (after @ as) \<longrightarrow>
       (\<exists>x. t' (RunnerID (CreatedRunner c)) = Some x \<and> IsBusy x \<and> CurrentSessionID x = CreatedID c) \<and>
       (\<forall>sid'. Assigned (RunnerID (CreatedRunner c)) sid' \<notin> set (after @ as)))"
proof -
  let ?a = "Assigned (RunnerID (CreatedRunner c)) (CreatedID c)"
  obtain sid where "gained sid w (Inr c) w'" using createSession_gained [OF create] by blast
  then obtain u v before after where "store_run (abs w) before u" "store_step u ?a v"
    "store_run v after (abs w')" by (auto simp: gained_def others_def simp del: store_step_Assigned)
  then have here: "store_run (abs w) (before @ ?a # after) (abs w')"
    by (auto simp: store_run_append store_run_Cons simp del: store_step_Assigned)
  with run have "store_run (abs w) (before @ ?a # (after @ as)) t'"
    using store_run_append [of "abs w" "before @ ?a # after" as t'] by auto
  from store_run_exclusive [OF this] here show ?thesis by blast
qed

end

section \<open>Resolving a session\<close>

text \<open>
  C2: what a browser that is resolved gets. The host is that of a runner that has just answered
  its health check and whose record in the store carries the session that is returned. If no
  session was created, it is the session asked for and the store is unchanged; if one was
  created, the runner was idle before, and \<open>Reassigned\<close> says exactly whether the session asked
  for had a runner.
\<close>

theorem ResolveSession_result:
  assumes "settled_broker s st synced ctxErr" and "synced w"
    and "ResolveSession s ctxErr sid w = Some (Inr v, w')"
  shows "(\<exists>w1. checker s (RunnerHost v) w1 = (None, w')) \<and>
    (\<exists>x. st w' (RunnerID x) = Some x \<and> CurrentSessionID x = SessionID v \<and>
         PrivateHost x = RunnerHost v \<and>
         (if Created v
          then \<exists>x0. st w (RunnerID x) = Some x0 \<and> IsIdle x0 \<and> x = assigned (SessionID v) x0
          else SessionID v = sid \<and> st w' = st w)) \<and>
    (Created v \<longrightarrow>
       (Reassigned v \<longleftrightarrow> sid \<noteq> [] \<and> (\<exists>rid x. st w rid = Some x \<and> CurrentSessionID x = sid)))"
  using assms by (rule settled_broker.resolve_result)

theorem ResolveSession_result_witness:
  "\<exists>x. mem_store busy_mem (RunnerID x) = Some x \<and> CurrentSessionID x = ''tokyo_61616161616161616161616161616161'' \<and>
     PrivateHost x = ''h1''"
  using ResolveSession_result [OF mem_service_settled mem_synced_simps(1) resolve_idle_mem]
  by (auto simp: first_result_def)




text \<open>
  C5: resolving a session always returns: the loop that drops runners that fail their health
  check ends, because each round takes a runner out of the store.
\<close>

theorem ResolveSession_returns:
  assumes "settled_broker s st synced ctxErr"
  shows "ResolveSession s ctxErr sid w \<noteq> None \<and> createSession s ctxErr w \<noteq> None"
  using settled_broker.ResolveSession_total [OF assms] settled_broker.createSession_total [OF assms]
  by blast

theorem ResolveSession_returns_witness:
  "ResolveSession (mem_service ''tokyo'' [''h1'']) (\<lambda>w. None) ''tokyo_61616161616161616161616161616161'' busy_mem \<noteq> None"
  using ResolveSession_returns [OF mem_service_settled] by blast



text \<open>
  C3: no user takes the runner of another. Whatever resolving one session does, whether it
  succeeds or fails, the record of every busy runner that belongs to another session is
  unchanged.
\<close>

theorem ResolveSession_keeps_others:
  assumes "settled_broker s st synced ctxErr" and "ResolveSession s ctxErr sid w = Some (res, w')"
    and "synced w" and "st w rid = Some y" and "\<not> IsIdle y" and "CurrentSessionID y \<noteq> sid"
  shows "st w' rid = Some y"
  using assms by (rule settled_broker.ResolveSession_frame)

theorem ResolveSession_keeps_others_witness:
  "\<exists>w' y. ResolveSession (mem_service ''tokyo'' []) (\<lambda>w. None) [] busy_mem = Some (Inl (Sentinel ErrNoIdleRunner), w') \<and>
     mem_store w' ''1'' = Some y \<and> CurrentSessionID y = ''tokyo_61616161616161616161616161616161''"
proof -
  have res: "ResolveSession (mem_service ''tokyo'' []) (\<lambda>w. None) [] busy_mem =
      Some (Inl (Sentinel ErrNoIdleRunner), busy_mem)" by code_simp
  let ?y = "assigned ''tokyo_61616161616161616161616161616161'' (new_runner ''1'' ''h1'')"
  have rec: "mem_store busy_mem ''1'' = Some ?y" by code_simp
  have "mem_store busy_mem ''1'' = Some ?y"
    by (rule ResolveSession_keeps_others [OF mem_service_settled res mem_synced_simps(2) rec])
      (simp_all add: assigned_def)
  with res show ?thesis by (auto simp: assigned_def)
qed

text \<open>
  C1: two brokers never give one runner to two sessions. With any other brokers on the same
  store, a session that is created has been assigned its runner in one atomic step. From that
  step on and up to any later time, as long as nobody deletes the runner, its record is busy
  with this session and no other assignment of it takes place.
\<close>

theorem createSession_exclusive:
  assumes "shared_broker s st" and "createSession s ctxErr w = Some (Inr c, w')"
    and "store_run (st w') as t'"
  shows "\<exists>before after.
    store_run (st w) (before @ Assigned (RunnerID (CreatedRunner c)) (CreatedID c) # after) (st w') \<and>
    (Deleted (RunnerID (CreatedRunner c)) \<notin> set (after @ as) \<longrightarrow>
       (\<exists>x. t' (RunnerID (CreatedRunner c)) = Some x \<and> IsBusy x \<and> CurrentSessionID x = CreatedID c) \<and>
       (\<forall>sid'. Assigned (RunnerID (CreatedRunner c)) sid' \<notin> set (after @ as)))"
  using assms by (rule shared_broker.create_exclusive)

theorem createSession_exclusive_witness:
  "\<exists>before after n'. store_run (noisy_store noisy_idle) (before @ Assigned ''1'' ''tokyo_61616161616161616161616161616161'' # after) (noisy_store n')"
proof -
  obtain res n' where ret: "createSession (noisy_service ''tokyo'' []) (\<lambda>w. None) noisy_idle = Some (res, n')"
    using create_noisy_idle by (cases "createSession (noisy_service ''tokyo'' []) (\<lambda>w. None) noisy_idle") auto
  with create_noisy_idle have "res = Inr \<lparr>CreatedID = ''tokyo_61616161616161616161616161616161'', CreatedHex = ''61616161616161616161616161616161'',
      CreatedRunner = assigned ''tokyo_61616161616161616161616161616161'' (new_runner ''1'' ''h1'')\<rparr>" by simp
  from createSession_exclusive [OF noisy_service_shared ret [unfolded this] store_run.finish]
  show ?thesis by (auto simp: assigned_def new_runner_def)
qed

text \<open>
  C17: closing a session takes exactly one runner out of the store, one that has the session.
\<close>

theorem CloseSession_removes_runner:
  assumes "settled_broker s st synced ctxErr" and "synced w" and "CloseSession s sid w = (None, w')"
  shows "\<exists>rid x. st w rid = Some x \<and> CurrentSessionID x = sid \<and> st w' = (st w)(rid := None)"
  using assms by (rule settled_broker.CloseSession_ok)

theorem CloseSession_removes_runner_witness:
  "\<exists>rid w'. CloseSession (mem_service ''tokyo'' []) ''tokyo_61616161616161616161616161616161'' busy_mem = (None, w') \<and>
     mem_store w' rid = None \<and> mem_store busy_mem rid \<noteq> None"
proof -
  have close: "CloseSession (mem_service ''tokyo'' []) ''tokyo_61616161616161616161616161616161'' busy_mem =
      (None, \<lparr>mem_items = [], mem_stale = []\<rparr>)" by code_simp
  from CloseSession_removes_runner [OF mem_service_settled mem_synced_simps(2) close] close
  show ?thesis by fastforce
qed

section \<open>Session IDs\<close>


text \<open>
  A preview address leads to the runner of its session. After a session was created, looking
  its hex part up, on indexes that have caught up, gives the host that the session got, and is
  never answered with \<open>ErrNotFound\<close>, provided no two runners have this session.
\<close>

theorem LookupSession_after_create:
  assumes "settled_broker s st synced ctxErr"
    and "ResolveSession s ctxErr sid w = Some (Inr v, w')" and "Created v"
    and "LookupSession s (SessionHex v) w1 = (ans, w2)" and "synced w" and "synced w1" and "st w1 = st w'"
    and "\<And>rid rid' x x'. st w' rid = Some x \<Longrightarrow> st w' rid' = Some x' \<Longrightarrow>
      CurrentSessionID x = SessionID v \<Longrightarrow> CurrentSessionID x' = SessionID v \<Longrightarrow> rid = rid'"
  shows "case ans of Inr l \<Rightarrow> LookupHost l = RunnerHost v | Inl e \<Rightarrow> \<not> errors_Is e ErrNotFound"
  using assms by (rule settled_broker.lookup_created)

theorem LookupSession_after_create_witness:
  "\<exists>l w'. LookupSession (mem_service ''tokyo'' []) ''61616161616161616161616161616161'' busy_mem = (Inr l, w') \<and> LookupHost l = ''h1''"
proof -
  obtain ans w2 where look: "LookupSession (mem_service ''tokyo'' []) (SessionHex first_result) busy_mem =
      (ans, w2)" by (cases "LookupSession (mem_service ''tokyo'' []) (SessionHex first_result) busy_mem")
  have "case fst (LookupSession (mem_service ''tokyo'' []) (SessionHex first_result) busy_mem) of
      Inl e \<Rightarrow> False | Inr l \<Rightarrow> True" by code_simp
  then obtain l where ans: "ans = Inr l" using look by (auto split: sum.splits)
  have one: "rid = ''1''" if "mem_store busy_mem rid = Some x" for rid x
    using that by (simp add: mem_store_def mem_table_def busy_mem_def attr_def runner_item_def
        new_runner_def split: if_splits)
  have "case ans of
      Inr l \<Rightarrow> LookupHost l = RunnerHost first_result | Inl e \<Rightarrow> \<not> errors_Is e ErrNotFound"
    by (rule LookupSession_after_create [OF mem_service_settled resolve_idle_mem _ look
          mem_synced_simps refl]) (auto simp: first_result_def dest: one)
  then show ?thesis using look ans by (simp add: first_result_def)
qed

end
