(* ===== verification/Handler_Properties.thy ===== *)
theory Handler_Properties
  imports Broker_Properties
begin

text \<open>
  The properties of the broker at its HTTP surface, down to the store: what the answers mean,
  and what no request can do.
\<close>

section \<open>Inside the contracts\<close>

text \<open>The cookie that the browser holds after an answer.\<close>

definition cookie_after :: "gin \<Rightarrow> gin \<Rightarrow> string" where
  "cookie_after c c' =
     (if set_cookies c' = [] then sessionCookie c else CookieValue (last (set_cookies c')))"

lemma GetResolveSession_cases:
  assumes run: "GetResolveSession h c w = Some (c', w')"
  obtains
    (ok) v where "svc_ResolveSession (svc h) (sessionCookie c) w = Some (Inr v, w')" "status c' = 200"
      "headers c' runnerHostHeader = (if RunnerHost v = [] then None else Some (RunnerHost v))"
      "headers c' sessionHexHeader = (if SessionHex v = [] then None else Some (SessionHex v))"
      "set_cookies c' = set_cookies c @
        (if Created v
         then [\<lparr>CookieName = sessionIDCookie, CookieValue = SessionID v, CookieMaxAge = 0,
                CookiePath = ''/'', CookieDomain = [], CookieSecure = True, CookieHttpOnly = True,
                CookieSameSiteStrict = True\<rparr>]
         else [])"
  | (no_idle) e where "svc_ResolveSession (svc h) (sessionCookie c) w = Some (Inl e, w')"
      "errors_Is e ErrNoIdleRunner" "status c' = 503" "headers c' = headers (signalFallback h c)"
      "set_cookies c' = set_cookies c"
  | (failed) e where "svc_ResolveSession (svc h) (sessionCookie c) w = Some (Inl e, w')"
      "\<not> errors_Is e ErrNoIdleRunner" "status c' = 500" "headers c' = headers c"
      "set_cookies c' = set_cookies c"
proof -
  obtain res w1 where svc: "svc_ResolveSession (svc h) (sessionCookie c) w = Some (res, w1)"
    using run by (auto simp: GetResolveSession_def split: option.splits)
  have sf: "set_cookies (signalFallback h c) = set_cookies c"
    by (simp add: signalFallback_def Let_def split: list.split)
  show ?thesis
  proof (cases res)
    case (Inl e)
    have we: "set_cookies (writeError x a b m) = set_cookies x" for x a b m
      by (simp add: writeError_def gin_JSON_def)
    show ?thesis
    proof (cases "errors_Is e ErrNoIdleRunner")
      case True
      then show ?thesis using run svc Inl sf we by (intro no_idle) (auto simp: GetResolveSession_def)
    next
      case False
      then show ?thesis using run svc Inl we by (intro failed) (auto simp: GetResolveSession_def)
    qed
  next
    case (Inr v)
    then show ?thesis using run svc
      by (intro ok [of v])
        (auto simp: GetResolveSession_def Let_def header_defs gin_SetCookie_def split: if_splits)
  qed
qed

lemma PostRegister_cases:
  assumes "PostRegister h c w = (c', w')"
  obtains
    (rejected) "status c' = 400" "w' = w"
  | (called) req res where "json c = Inr req" "runnerHostRe (RequestPrivateHost req)"
      "svc_RegisterRunner (svc h) (RequestRunnerID req) (RequestPrivateHost req) w = (res, w')"
      "status c' = (case res of None \<Rightarrow> 201 | Some e \<Rightarrow> if errors_Is e ErrConflict then 409 else 500)"
proof (cases "ShouldBindJSON c")
  case (Inl e)
  then show ?thesis using assms by (intro rejected) (auto simp: PostRegister_def)
next
  case (Inr req)
  then have json: "json c = Inr req" by (auto simp: ShouldBindJSON_def split: sum.splits if_splits)
  obtain res w1 where call: "svc_RegisterRunner (svc h) (RequestRunnerID req) (RequestPrivateHost req) w = (res, w1)"
    by (cases "svc_RegisterRunner (svc h) (RequestRunnerID req) (RequestPrivateHost req) w")
  show ?thesis
  proof (cases "validateRunnerHost (RequestPrivateHost req)")
    case None
    then have host: "runnerHostRe (RequestPrivateHost req)" by (simp add: validateRunnerHost_None)
    have "w1 = w' \<and> status c' =
        (case res of None \<Rightarrow> 201 | Some e \<Rightarrow> if errors_Is e ErrConflict then 409 else 500)"
      using assms Inr call None by (cases res) (auto simp: PostRegister_def split: if_splits)
    then show ?thesis using json host call by (intro called) auto
  next
    case (Some e)
    then show ?thesis using assms Inr by (intro rejected) (auto simp: PostRegister_def)
  qed
qed

context shared_broker
begin

lemma post_register:
  assumes post: "PostRegister h c w = (c', w')" and h: "svc h = broker_Service s ctxErr"
  shows "status c' \<in> {201, 400, 409, 500} \<and> others (abs w) (abs w') \<and>
    (status c' = 201 \<longrightarrow> (\<exists>req t. json c = Inr req \<and> runnerHostRe (RequestPrivateHost req) \<and>
       runnerIDRe (RequestRunnerID req) \<and> others (abs w) t \<and> t (RequestRunnerID req) = None \<and>
       abs w' = t(RequestRunnerID req \<mapsto> new_runner (RequestRunnerID req) (RequestPrivateHost req)))) \<and>
    (status c' = 409 \<longrightarrow> (\<exists>req. json c = Inr req \<and> abs w' (RequestRunnerID req) \<noteq> None)) \<and>
    (status c' = 400 \<longrightarrow> w' = w)"
  using post
proof (cases rule: PostRegister_cases)
  case rejected
  then show ?thesis by (simp add: others_refl)
next
  case (called req res)
  then have reg: "Register (repo s) (RequestRunnerID req) (RequestPrivateHost req) w = (res, w')"
    by (simp add: h broker_Service_def RegisterRunner_def)
  have run: "others (abs w) (abs w')" using reg by (rule register_others)
  show ?thesis
  proof (cases res)
    case None
    with register_ok [OF reg [unfolded None]] called run show ?thesis by auto
  next
    case (Some e)
    then show ?thesis using called run register_conflict [OF reg [unfolded Some]]
      by (cases "errors_Is e ErrConflict") auto
  qed
qed

end

context settled_broker
begin

lemma get_resolve_session:
  assumes run: "GetResolveSession h c w = Some (c', w')" and h: "svc h = broker_Service s ctxErr"
    and sync: "synced w" and start: "headers c = Map.empty" "set_cookies c = []"
    and pool: "\<forall>x\<in>set (pool_of h c). clean_stack x"
  shows "status c' \<in> {200, 500, 503} \<and>
    (status c' = 200 \<longrightarrow> (\<exists>x. abs w' (RunnerID x) = Some x \<and> CurrentSessionID x = cookie_after c c' \<and>
       headers c' runnerHostHeader = (if PrivateHost x = [] then None else Some (PrivateHost x)))) \<and>
    (status c' \<noteq> 200 \<longrightarrow> set_cookies c' = [] \<and> headers c' runnerHostHeader = None) \<and>
    (status c' = 503 \<longrightarrow> idle_ids (abs w') = {} \<and>
       headers c' fallbackStackHeader = (case pool_of h c of [] \<Rightarrow> None | x # xs \<Rightarrow> Some x)) \<and>
    (\<forall>k\<in>set (set_cookies c'). CookieSecure k \<and> CookieHttpOnly k \<and> CookieSameSiteStrict k)"
  using run
proof (cases rule: GetResolveSession_cases)
  case (ok v)
  then have "ResolveSession s ctxErr (sessionCookie c) w = Some (Inr v, w')"
    by (simp add: h broker_Service_def)
  from resolve_result [OF sync this] obtain x where x: "abs w' (RunnerID x) = Some x"
    "CurrentSessionID x = SessionID v" "PrivateHost x = RunnerHost v"
    "if Created v
     then \<exists>x0. abs w (RunnerID x) = Some x0 \<and> IsIdle x0 \<and> x = assigned (SessionID v) x0
     else SessionID v = sessionCookie c \<and> abs w' = abs w" by blast
  have "cookie_after c c' = SessionID v"
    using ok(5) x(4) start by (simp add: cookie_after_def split: if_splits)
  with ok(3) x have "\<exists>x. abs w' (RunnerID x) = Some x \<and> CurrentSessionID x = cookie_after c c' \<and>
       headers c' runnerHostHeader = (if PrivateHost x = [] then None else Some (PrivateHost x))"
    by (intro exI [of _ x]) simp
  then show ?thesis using ok start by simp
next
  case (no_idle e)
  then have "ResolveSession s ctxErr (sessionCookie c) w = Some (Inl e, w')"
    by (simp add: h broker_Service_def)
  from resolve_no_idle [OF sync this no_idle(2)] have "idle_ids (abs w') = {}" by blast
  moreover have "headers (signalFallback h c) runnerHostHeader = None"
    using start by (simp add: signalFallback_def Let_def header_defs split: list.split)
  ultimately show ?thesis using no_idle start signalFallback_headers(1) [OF start(1) pool] by simp
next
  case (failed e)
  then show ?thesis using start by simp
qed

lemma list_busy:
  assumes run: "GetListBusyRunners h c w = Some (c', w')" and h: "svc h = broker_Service s ctxErr"
    and sync: "synced w" and ok: "store_ok (abs w)" and st: "status c' = 200"
  shows "\<exists>views. body c' = BusyRunners \<lparr>ResponseRunners = views\<rparr> \<and> distinct views \<and>
    ViewRunnerID ` set views = {rid. \<exists>x. abs w rid = Some x \<and> IsBusy x}"
proof -
  obtain res w1 where list: "ListBusyRunners (repo s) w = Some (res, w1)"
    using run by (auto simp: GetListBusyRunners_def h broker_Service_def ServiceListBusyRunners_def
        split: option.splits)
  show ?thesis
  proof (cases res)
    case (Inl e)
    then show ?thesis using run st list
      by (auto simp: GetListBusyRunners_def h broker_Service_def ServiceListBusyRunners_def)
  next
    case (Inr rs)
    then have c': "body c' = BusyRunners \<lparr>ResponseRunners = map (\<lambda>r. \<lparr>ViewRunnerID = RunnerID r\<rparr>) rs\<rparr>"
      using run list by (auto simp: GetListBusyRunners_def h broker_Service_def
          ServiceListBusyRunners_def gin_JSON_def busy_views_eq)
    have rs: "distinct rs" "set rs = {r \<in> ran (abs w). IsBusy r}"
      using list_ok [OF sync list [unfolded Inr]] by simp_all
    have key: "abs w (RunnerID r) = Some r" if "r \<in> set rs" for r
      using that rs(2) ok by (auto simp: store_ok_def ran_def)
    have "inj_on (\<lambda>r. \<lparr>ViewRunnerID = RunnerID r\<rparr>) (set rs)"
      by (rule inj_onI) (metis busyRunnerView.ext_inject key option.inject)
    moreover have "RunnerID ` set rs = {rid. \<exists>x. abs w rid = Some x \<and> IsBusy x}"
      using ok unfolding rs(2) by (force simp: store_ok_def ran_def image_iff)
    ultimately show ?thesis using c' rs(1) by (simp add: distinct_map image_image)
  qed
qed

end

context shared_broker
begin

lemma routes_store:
  assumes "svc h = broker_Service s ctxErr" and "(method, path, f) \<in> set (newRouter cryptoRead (Some h))"
    and "\<And>n w res w'. cryptoRead n w = (res, w') \<Longrightarrow> abs w' = abs w" and "f c w = Some (c', w')"
  shows "\<exists>as. store_run (abs w) as (abs w')"
proof -
  have "service.run_only f" using assms(1,2) by (rule service.routes_run) (rule assms(3))
  then show ?thesis using assms(4) unfolding service.run_only_def others_def by blast
qed

end

section \<open>Answers\<close>

text \<open>
  C12: what the answers to \<open>GET /resolve/session\<close> mean, down to the store. After 200 the
  runner named in \<open>X-Runner-Host\<close> is the one whose record carries the cookie that the browser
  now holds; a 503 means that no idle runner is left in the store, and names the next stack;
  without 200 neither a cookie nor a host is given away; and every cookie is \<open>Secure\<close>,
  \<open>HttpOnly\<close> and \<open>SameSite=Strict\<close>.
\<close>

theorem GetResolveSession_answers:
  assumes "settled_broker s st synced ctxErr" and "GetResolveSession h c w = Some (c', w')"
    and "svc h = broker_Service s ctxErr" and "synced w" and "headers c = Map.empty"
    and "set_cookies c = []" and "\<forall>x\<in>set (pool_of h c). clean_stack x"
  shows "status c' \<in> {200, 500, 503} \<and>
    (status c' = 200 \<longrightarrow> (\<exists>x. st w' (RunnerID x) = Some x \<and> CurrentSessionID x = cookie_after c c' \<and>
       headers c' runnerHostHeader = (if PrivateHost x = [] then None else Some (PrivateHost x)))) \<and>
    (status c' \<noteq> 200 \<longrightarrow> set_cookies c' = [] \<and> headers c' runnerHostHeader = None) \<and>
    (status c' = 503 \<longrightarrow> idle_ids (st w') = {} \<and>
       headers c' fallbackStackHeader = (case pool_of h c of [] \<Rightarrow> None | x # xs \<Rightarrow> Some x)) \<and>
    (\<forall>k\<in>set (set_cookies c'). CookieSecure k \<and> CookieHttpOnly k \<and> CookieSameSiteStrict k)"
  using assms by (rule settled_broker.get_resolve_session)

definition blank_request :: gin where
  "blank_request = \<lparr>cookies = Map.empty, params = \<lambda>k. [], req_headers = \<lambda>k. [], req_host = [],
     json = Inr \<lparr>RequestRunnerID = replicate 32 (CHR ''0''), RequestPrivateHost = ''h0''\<rparr>, keys = Map.empty,
     status = 200, headers = Map.empty, set_cookies = [], body = NoBody, samesite_strict = False,
     logged = []\<rparr>"

lemma blank_request_simps [simp]:
  "headers blank_request = Map.empty" "set_cookies blank_request = []" "req_headers blank_request k = []"
  by (simp_all add: blank_request_def)

definition mem_handler :: "mem Handler" where
  "mem_handler = \<lparr>svc = broker_Service (mem_service ''tokyo'' []) (\<lambda>w. None),
     fallbackStacks = [''osaka''], stackSelf = ''tokyo''\<rparr>"

theorem GetResolveSession_answers_witness:
  "\<exists>c' w'. GetResolveSession mem_handler blank_request idle_mem = Some (c', w') \<and> status c' = 200 \<and>
     (\<exists>x. mem_store w' (RunnerID x) = Some x \<and> CurrentSessionID x = cookie_after blank_request c')"
proof -
  obtain c' w' where run: "GetResolveSession mem_handler blank_request idle_mem = Some (c', w')"
    and ok: "status c' = 200"
    using resolve_idle_mem by (auto simp: GetResolveSession_def mem_handler_def broker_Service_def
        sessionCookie_def blank_request_def Let_def)
  have "clean_stack ''osaka''" by code_simp
  then have "\<forall>x\<in>set (pool_of mem_handler blank_request). clean_stack x"
    by (simp add: pool_of_def mem_handler_def)
  moreover have "svc mem_handler = broker_Service (mem_service ''tokyo'' []) (\<lambda>w. None)"
    by (simp add: mem_handler_def)
  ultimately have "\<exists>x. mem_store w' (RunnerID x) = Some x \<and> CurrentSessionID x = cookie_after blank_request c'"
    using GetResolveSession_answers [OF mem_service_settled run _ mem_synced_simps(1) blank_request_simps(1,2)] ok
    by blast
  with run ok show ?thesis by blast
qed

text \<open>
  C13: what the answers to \<open>POST /internal/runners/register\<close> mean, with any other brokers on
  the store. After 201 the runner was not registered before and has been added, idle, in one
  atomic step, and its ID and host have the form that the code asks for; after 409 the ID is in
  the store; a request that is answered with 400 has not touched the store.
\<close>

theorem PostRegister_answers:
  assumes "shared_broker s st" and "PostRegister h c w = (c', w')" and "svc h = broker_Service s ctxErr"
  shows "status c' \<in> {201, 400, 409, 500} \<and> others (st w) (st w') \<and>
    (status c' = 201 \<longrightarrow> (\<exists>req t. json c = Inr req \<and> runnerHostRe (RequestPrivateHost req) \<and>
       runnerIDRe (RequestRunnerID req) \<and> others (st w) t \<and> t (RequestRunnerID req) = None \<and>
       st w' = t(RequestRunnerID req \<mapsto> new_runner (RequestRunnerID req) (RequestPrivateHost req)))) \<and>
    (status c' = 409 \<longrightarrow> (\<exists>req. json c = Inr req \<and> st w' (RequestRunnerID req) \<noteq> None)) \<and>
    (status c' = 400 \<longrightarrow> w' = w)"
  using assms by (rule shared_broker.post_register)

definition noisy_handler :: "noisy Handler" where
  "noisy_handler = \<lparr>svc = broker_Service (noisy_service ''tokyo'' []) (\<lambda>w. None),
     fallbackStacks = [], stackSelf = ''tokyo''\<rparr>"

theorem PostRegister_answers_witness:
  "\<exists>c' w' t. PostRegister noisy_handler blank_request noisy_idle = (c', w') \<and> status c' = 201 \<and>
     others (noisy_store noisy_idle) t \<and> t (replicate 32 (CHR ''0'')) = None"
proof -
  obtain c' w' where post: "PostRegister noisy_handler blank_request noisy_idle = (c', w')"
    by (cases "PostRegister noisy_handler blank_request noisy_idle")
  have "status (fst (PostRegister noisy_handler blank_request noisy_idle)) = 201" by code_simp
  then have ok: "status c' = 201" using post by simp
  have svc: "svc noisy_handler = broker_Service (noisy_service ''tokyo'' []) (\<lambda>w. None)"
    by (simp add: noisy_handler_def)
  have "json blank_request = Inr \<lparr>RequestRunnerID = replicate 32 (CHR ''0''), RequestPrivateHost = ''h0''\<rparr>"
    by (simp add: blank_request_def)
  then obtain t where "others (noisy_store noisy_idle) t" "t (replicate 32 (CHR ''0'')) = None"
    using PostRegister_answers [OF noisy_service_shared post svc] ok by auto
  with post ok show ?thesis by blast
qed

text \<open>A runner ID of the wrong form is the client's mistake, but it is answered as the broker's.\<close>

lemma invalid_runner_id_answer:
  "status (fst (PostRegister noisy_handler
     (blank_request\<lparr>json := Inr \<lparr>RequestRunnerID = ''x'', RequestPrivateHost = ''h0''\<rparr>\<rparr>) noisy_idle)) = 500"
  by code_simp

text \<open>
  C18: listing the busy runners is exact: on indexes that have caught up, an answer of 200 holds
  the ID of every busy runner once, and nothing else of its record, so no session ID.
\<close>

theorem GetListBusyRunners_exact:
  assumes "settled_broker s st synced ctxErr" and "GetListBusyRunners h c w = Some (c', w')"
    and "svc h = broker_Service s ctxErr" and "synced w" and "store_ok (st w)" and "status c' = 200"
  shows "\<exists>views. body c' = BusyRunners \<lparr>ResponseRunners = views\<rparr> \<and> distinct views \<and>
    ViewRunnerID ` set views = {rid. \<exists>x. st w rid = Some x \<and> IsBusy x}"
  using assms by (rule settled_broker.list_busy)

text \<open>A busy runner under an ID of the right form.\<close>

definition proper_mem :: mem where
  "proper_mem = \<lparr>mem_items = [runner_item (assigned ''tokyo_61616161616161616161616161616161'' (new_runner (replicate 32 (CHR ''0'')) ''h1''))],
                 mem_stale = []\<rparr>"

theorem GetListBusyRunners_exact_witness:
  "\<exists>c' w'. GetListBusyRunners mem_handler blank_request proper_mem = Some (c', w') \<and>
     (\<exists>views. body c' = BusyRunners \<lparr>ResponseRunners = views\<rparr> \<and>
        ViewRunnerID ` set views = {rid. \<exists>x. mem_store proper_mem rid = Some x \<and> IsBusy x})"
proof -
  have "map_option (\<lambda>(c', w'). status c') (GetListBusyRunners mem_handler blank_request proper_mem) = Some 200"
    by code_simp
  then obtain c' w' where list: "GetListBusyRunners mem_handler blank_request proper_mem = Some (c', w')"
    and ok: "status c' = 200" by auto
  have rec: "mem_store proper_mem = [replicate 32 (CHR ''0'') \<mapsto>
      assigned ''tokyo_61616161616161616161616161616161'' (new_runner (replicate 32 (CHR ''0'')) ''h1'')]"
    by (rule ext) (simp add: mem_store_def mem_table_def proper_mem_def attr_runner_item assigned_def
        new_runner_def)
  have "runnerIDRe (replicate 32 (CHR ''0''))" by code_simp
  then have "store_ok (mem_store proper_mem)"
    by (auto simp: rec store_ok_def assigned_def new_runner_def IsBusy_def split: if_splits)
  moreover have "svc mem_handler = broker_Service (mem_service ''tokyo'' []) (\<lambda>w. None)"
    by (simp add: mem_handler_def)
  moreover have "mem_synced proper_mem" by (simp add: mem_synced_def proper_mem_def)
  ultimately show ?thesis using GetListBusyRunners_exact [OF mem_service_settled list] ok list by blast
qed

section \<open>The whole router\<close>



section \<open>Fallback\<close>

text \<open>
  C15: a request without a runner visits every other stack once and then stops. The stacks that
  it is sent to, following the headers of the answers, are the fallbacks of the configuration in
  their order; together they are all entries of \<open>BUNSHIN_STACKS\<close> but the first stack itself,
  and the chain ends after as many hops, for any number \<open>n\<close> of hops that one is ready to follow.
\<close>

theorem fallback_visits_every_stack:
  assumes "NewStackFromEnv getenv = Inr cfg" and "fallbackStacks (hs (Self cfg)) = Fallbacks cfg"
    and "req_headers c fallbackStackHeader = []" and "headers c = Map.empty"
    and "length (Fallbacks cfg) \<le> n"
  shows "fallback_chain n hs (Self cfg) c = Fallbacks cfg \<and>
    mset (Fallbacks cfg) = filter_mset (\<lambda>s. s \<noteq> Self cfg) (mset (Split (getenv ''BUNSHIN_STACKS'')))"
proof -
  have cfg: "Fallbacks cfg = fst (Parse (getenv ''BUNSHIN_STACKS'') (Self cfg))"
    using NewStackFromEnv_ok [OF assms(1)] by blast
  have pool: "pool_of (hs (Self cfg)) c = Fallbacks cfg" using assms(2,3) by (simp add: pool_of_def)
  have "\<forall>s\<in>set (pool_of (hs (Self cfg)) c). clean_stack s"
    unfolding pool cfg by (blast intro: Parse_fallbacks_clean)
  from fallback_chain_pool [where hs = hs and n = n, OF assms(4) this] have "fallback_chain n hs (Self cfg) c = Fallbacks cfg"
    using assms(5) pool by simp
  then show ?thesis using Parse_permutes_others [of "getenv ''BUNSHIN_STACKS''" "Self cfg"] cfg by simp
qed

theorem fallback_visits_every_stack_witness:
  "fallback_chain 9 (\<lambda>s. mem_handler\<lparr>fallbackStacks := [''c'', ''a'']\<rparr>) ''b'' blank_request = [''c'', ''a'']"
proof -
  let ?env = "\<lambda>k. if k = ''STACK_NAME'' then ''b'' else ''a,b,c''"
  have cfg: "NewStackFromEnv ?env = Inr \<lparr>Self = ''b'', Fallbacks = [''c'', ''a'']\<rparr>" by code_simp
  from fallback_visits_every_stack [OF cfg, of "\<lambda>s. mem_handler\<lparr>fallbackStacks := [''c'', ''a'']\<rparr>" blank_request 9]
  show ?thesis by simp
qed

section \<open>Start\<close>

text \<open>
  The broker never panics at start. The constructors panic on an empty stack name, a missing
  checker or client and a port out of range; with what the configuration accepts none of this
  can happen, so a wrong environment is always reported as an error.
\<close>

theorem start_never_panics:
  "defaultInitHandler getenv newRepo methods asCloser httpClient cryptoRead ctxErr \<noteq> Panic p"
  by (rule defaultInitHandler_no_panic)

end
