(* ===== verification/Preview.thy ===== *)
theory Preview
  imports Handler_Properties
begin





section \<open>A preview address\<close>








end
