(* ===== verification/First_Visit.thy ===== *)
theory First_Visit
  imports Handler_Properties
begin

text \<open>
  The route of a visitor through the whole broker: a runner registers, a browser without a cookie
  is given it, and comes back with the cookie that it got. The steps are those of the handlers, of
  the service and of the store, one after the other.
\<close>

section \<open>The store after each step\<close>





section \<open>A visitor and a new runner\<close>







end
