(* ===== verification/Net_Addr.thy ===== *)
theory Net_Addr
  imports Go_Strings
begin

text \<open>
  The routines of Go's \<open>net/netip\<close> that \<open>parseClientAddress\<close> of \<open>runner/handler.go\<close> calls, and
  that function. An address is four bytes, or eight groups of 16 bits with a zone; they are
  numbers, since parsing rejects what does not fit.
\<close>

section \<open>Addresses\<close>

datatype Addr = Is4 "int list" | Is6 "int list" string

definition addr_error :: "string \<Rightarrow> string \<Rightarrow> go_error" where
  "addr_error s msg = ErrorString (''ParseAddr('' @ Quote s @ ''): '' @ msg)"

text \<open>
  \<open>parseIPv4Fields\<close>: four decimal fields of at most 255, none empty and none with a leading
  zero.
\<close>

definition octet :: "string \<Rightarrow> int option" where
  "octet f =
     (if f = [] \<or> \<not> list_all is_digit f \<or> (hd f = CHR ''0'' \<and> length f \<noteq> 1) \<or> 255 < digits_value f
      then None else Some (int (digits_value f)))"

definition parseIPv4Fields :: "string \<Rightarrow> int list option" where
  "parseIPv4Fields s =
     (let fs = map octet (Split_on (CHR ''.'') s)
      in if length fs = 4 \<and> None \<notin> set fs then Some (map (\<lambda>f. case f of None \<Rightarrow> 0 | Some n \<Rightarrow> n) fs) else None)"

definition parseIPv4 :: "string \<Rightarrow> go_error + Addr" where
  "parseIPv4 s =
     (case parseIPv4Fields s of None \<Rightarrow> Inl (addr_error s ''not an IPv4 address'') | Some fs \<Rightarrow> Inr (Is4 fs))"

definition is_hex :: "char \<Rightarrow> bool" where
  "is_hex c \<longleftrightarrow> is_hex_lower c \<or> in_range (CHR ''A'') (CHR ''F'') c"

definition hex_value :: "char \<Rightarrow> nat" where
  "hex_value c =
     (if is_digit c then of_char c - 48
      else if in_range (CHR ''a'') (CHR ''f'') c then of_char c - 87 else of_char c - 55)"

definition hex_number :: "string \<Rightarrow> int" where
  "hex_number s = foldl (\<lambda>n c. 16 * n + int (hex_value c)) 0 s"

text \<open>
  The loop of \<open>parseIPv6\<close>: \<open>gs\<close> are the groups so far and \<open>ell\<close> the place of the ellipsis among
  them. A group has one to four hexadecimal digits; the last two groups may be an IPv4 address.
\<close>

function parse_groups :: "string \<Rightarrow> int list \<Rightarrow> nat option \<Rightarrow> (int list \<times> nat option) option" where
  "parse_groups s gs ell =
     (if 8 \<le> length gs then (if s = [] then Some (gs, ell) else None)
      else let digits = takeWhile is_hex s; rest = dropWhile is_hex s
      in if digits = [] \<or> 4 < length digits then None
      else if rest \<noteq> [] \<and> hd rest = CHR ''.'' then
        (if ell = None \<and> length gs \<noteq> 6 \<or> 6 < length gs then None
         else case parseIPv4Fields s of
           None \<Rightarrow> None
         | Some fs \<Rightarrow> Some (gs @ [256 * fs ! 0 + fs ! 1, 256 * fs ! 2 + fs ! 3], ell))
      else let gs1 = gs @ [hex_number digits]
      in if rest = [] then Some (gs1, ell)
      else if hd rest \<noteq> CHR '':'' \<or> tl rest = [] then None
      else if hd (tl rest) = CHR '':'' then
        (if ell \<noteq> None then None
         else if tl (tl rest) = [] then Some (gs1, Some (length gs1))
         else parse_groups (tl (tl rest)) gs1 (Some (length gs1)))
      else parse_groups (tl rest) gs1 ell)"
  by pat_completeness auto
termination
  by (relation "measure (\<lambda>(s, gs, ell). 8 - length gs)") (auto simp: Let_def)

declare parse_groups.simps [simp del]

definition expand_groups :: "int list \<Rightarrow> nat option \<Rightarrow> int list option" where
  "expand_groups gs ell =
     (case ell of
        None \<Rightarrow> if length gs = 8 then Some gs else None
      | Some e \<Rightarrow> if length gs < 8 then Some (take e gs @ replicate (8 - length gs) 0 @ drop e gs) else None)"

definition parseIPv6 :: "string \<Rightarrow> go_error + Addr" where
  "parseIPv6 s =
     (case Cut s (CHR ''%'') of
        (a, zone, found) \<Rightarrow>
          if found \<and> zone = [] then Inl (addr_error s ''zone must be a non-empty string'')
          else let lead = HasPrefix a ''::''; a1 = (if lead then drop 2 a else a)
          in if lead \<and> a1 = [] then Inr (Is6 (replicate 8 0) zone)
          else case Option.bind (parse_groups a1 [] (if lead then Some 0 else None)) (\<lambda>(gs, ell). expand_groups gs ell) of
            None \<Rightarrow> Inl (addr_error s ''not an IPv6 address'')
          | Some gs \<Rightarrow> Inr (Is6 gs zone))"

definition ParseAddr :: "string \<Rightarrow> go_error + Addr" where
  "ParseAddr s =
     (case dropWhile (\<lambda>c. c \<notin> set ''.:%'') s of
        [] \<Rightarrow> Inl (addr_error s ''unable to parse IP'')
      | c # _ \<Rightarrow>
          if c = CHR ''.'' then parseIPv4 s
          else if c = CHR '':'' then parseIPv6 s
          else Inl (addr_error s ''missing IPv6 address''))"

section \<open>Addresses with ports\<close>

definition ParseAddrPort :: "string \<Rightarrow> go_error + Addr \<times> int" where
  "ParseAddrPort s =
     (case LastIndexByte s (CHR '':'') of
        None \<Rightarrow> Inl (ErrorString ''not an ip:port'')
      | Some i \<Rightarrow>
          (let ip = take i s; port = drop (i + 1) s; brackets = (ip \<noteq> [] \<and> hd ip = CHR ''['')
           in if ip = [] then Inl (ErrorString ''no IP'')
              else if port = [] then Inl (ErrorString ''no port'')
              else if brackets \<and> (length ip < 2 \<or> last ip \<noteq> CHR '']'') then Inl (ErrorString ''missing ]'')
              else case ParseUint10 port 16 of
                Inl err \<Rightarrow> Inl (ErrorString ''invalid port'')
              | Inr n \<Rightarrow>
                  (case ParseAddr (if brackets then butlast (tl ip) else ip) of
                     Inl err \<Rightarrow> Inl err
                   | Inr (Is4 fs) \<Rightarrow>
                       if brackets then Inl (ErrorString ''square brackets can only be used with IPv6 addresses'')
                       else Inr (Is4 fs, n)
                   | Inr (Is6 gs zone) \<Rightarrow>
                       if \<not> brackets then Inl (ErrorString ''IPv6 addresses must be surrounded by square brackets'')
                       else Inr (Is6 gs zone, n))))"

definition string4 :: "int list \<Rightarrow> string" where
  "string4 fs = Join (map show_int fs) ''.''"

text \<open>\<open>appendHex\<close>: without leading zeros.\<close>

function show_hex :: "int \<Rightarrow> string" where
  "show_hex n = (if n < 16 then [hex_digit (nat n)] else show_hex (n div 16) @ [hex_digit (nat (n mod 16))])"
  by pat_completeness auto
termination
  by (relation "measure nat") auto

declare show_hex.simps [simp del]

text \<open>The first of the longest runs of two zero groups or more: its start and its length.\<close>

definition zero_run :: "int list \<Rightarrow> nat \<Rightarrow> nat" where
  "zero_run gs i = length (takeWhile (\<lambda>g. g = 0) (drop i gs))"

definition longest_run :: "int list \<Rightarrow> nat \<times> nat" where
  "longest_run gs =
     fold (\<lambda>i (start, n). if 2 \<le> zero_run gs i \<and> n < zero_run gs i then (i, zero_run gs i) else (start, n))
       [0..<8] (8, 0)"

definition string6 :: "int list \<Rightarrow> string" where
  "string6 gs =
     (case longest_run gs of
        (start, n) \<Rightarrow>
          if n = 0 then Join (map show_hex gs) '':''
          else Join (map show_hex (take start gs)) '':'' @ ''::'' @ Join (map show_hex (drop (start + n) gs)) '':'')"

definition with_zone :: "string \<Rightarrow> string" where
  "with_zone zone = (if zone = [] then [] else CHR ''%'' # zone)"

definition AddrString :: "Addr \<Rightarrow> string" where
  "AddrString a =
     (case a of
        Is4 fs \<Rightarrow> string4 fs
      | Is6 gs zone \<Rightarrow>
          if take 6 gs = [0, 0, 0, 0, 0, 65535]
          then ''::ffff:'' @ string4 [gs ! 6 div 256, gs ! 6 mod 256, gs ! 7 div 256, gs ! 7 mod 256] @ with_zone zone
          else string6 gs @ with_zone zone)"

definition AddrPortString :: "Addr \<times> int \<Rightarrow> string" where
  "AddrPortString ap =
     (case ap of
        (Is4 fs, port) \<Rightarrow> string4 fs @ '':'' @ show_int port
      | (Is6 gs zone, port) \<Rightarrow> ''['' @ AddrString (Is6 gs zone) @ '']:'' @ show_int port)"

section \<open>The client address header\<close>

definition errInvalidClientAddressHeader :: string where
  "errInvalidClientAddressHeader = ''invalid X-Bunshin-Client-Address header''"

definition parseClientAddress :: "string \<Rightarrow> go_error + string" where
  "parseClientAddress v =
     (let fallback =
        (case LastIndexByte v (CHR '':'') of
           None \<Rightarrow> Inl (ErrorString errInvalidClientAddressHeader)
         | Some portStart \<Rightarrow>
             if portStart = 0 \<or> portStart = length v - 1 then Inl (ErrorString errInvalidClientAddressHeader)
             else (case (ParseAddr (take portStart v), ParseUint10 (drop (portStart + 1) v) 16) of
                (Inr ip, Inr port) \<Rightarrow>
                  if port = 0 then Inl (ErrorString errInvalidClientAddressHeader)
                  else Inr (AddrPortString (ip, port))
              | _ \<Rightarrow> Inl (ErrorString errInvalidClientAddressHeader)))
      in case ParseAddrPort v of
           Inr (ip, port) \<Rightarrow> if port \<noteq> 0 then Inr (AddrPortString (ip, port)) else fallback
         | Inl err \<Rightarrow> fallback)"

lemma parseClientAddress_examples:
  "parseClientAddress ''10.0.0.7:8'' = Inr ''10.0.0.7:8''"
  "parseClientAddress ''[20:D8:0:0:1::7]:4'' = Inr ''[20:d8::1:0:0:7]:4''"
  "parseClientAddress ''20:d8::1:4'' = Inr ''[20:d8::1]:4''"
  "parseClientAddress ''[::ffff:1.2.3.4%e]:1'' = Inr ''[::ffff:1.2.3.4%e]:1''"
  "parseClientAddress ''1.2.3.4:0'' = Inl (ErrorString errInvalidClientAddressHeader)"
  "parseClientAddress ''[1.2.3.4]:1'' = Inl (ErrorString errInvalidClientAddressHeader)"
  "parseClientAddress ''01.2.3.4:1'' = Inl (ErrorString errInvalidClientAddressHeader)"
  by code_simp+

section \<open>What is accepted\<close>

lemma hd_Cons: "xs \<noteq> [] \<and> hd xs = c \<Longrightarrow> \<exists>t. xs = c # t"
  by (cases xs) auto

lemma LastIndexByte_append: "c \<notin> set p \<Longrightarrow> LastIndexByte (a @ c # p) c = Some (length a)"
proof (induction a)
  case Nil
  have "c \<notin> set p \<Longrightarrow> LastIndexByte p c = None" by (induction p) auto
  then show ?case using Nil by simp
qed simp

lemma LastIndexByte_cut:
  assumes "LastIndexByte v c = Some i"
  shows "v = take i v @ c # drop (i + 1) v \<and> c \<notin> set (drop (i + 1) v) \<and> i < length v"
  using LastIndexByte_Some_D [OF assms] by (metis Suc_eq_plus1 id_take_nth_drop)

lemma ParseUint10_range: "ParseUint10 p 16 = Inr n \<Longrightarrow> 0 \<le> n \<and> n < 65536 \<and> CHR '':'' \<notin> set p"
  by (auto simp: ParseUint10_def list_all_iff char_class_defs split: if_splits)

lemma parse_groups_hd:
  assumes "parse_groups s gs ell = Some r" and "length gs < 8"
  shows "s \<noteq> [] \<and> is_hex (hd s)"
proof -
  have "takeWhile is_hex s \<noteq> []" using assms by (auto simp: parse_groups.simps [of s] Let_def)
  then show ?thesis by (cases s) (auto split: if_splits)
qed

lemma ParseAddr_hd:
  assumes "ParseAddr s = Inr (Is6 gs zone)"
  shows "s \<noteq> [] \<and> hd s \<noteq> CHR ''[''"
proof -
  have six: "parseIPv6 s = Inr (Is6 gs zone)"
    using assms by (auto simp: ParseAddr_def parseIPv4_def split: list.splits if_splits option.splits)
  obtain a z found where cut: "Cut s (CHR ''%'') = (a, z, found)" by (cases "Cut s (CHR ''%'')")
  then have a: "a = takeWhile (\<lambda>x. x \<noteq> CHR ''%'') s" by (simp add: Cut_def)
  have "a \<noteq> [] \<and> hd a \<noteq> CHR ''[''"
  proof (cases "HasPrefix a ''::''")
    case True
    then show ?thesis by (auto simp: prefix_def)
  next
    case False
    then obtain r where "parse_groups a [] None = Some r"
      using six cut by (auto simp: parseIPv6_def Let_def split: if_splits option.splits)
    from parse_groups_hd [OF this] show ?thesis by (auto simp: is_hex_def char_class_defs)
  qed
  then show ?thesis using a by (cases s) (auto split: if_splits)
qed

lemma parseClientAddress_parts:
  assumes "parseClientAddress v = Inr r"
  shows "\<exists>h p a n. (v = h @ '':'' @ p \<or> v = ''['' @ h @ '']:'' @ p) \<and> ParseAddr h = Inr a \<and>
    ParseUint10 p 16 = Inr n \<and> 0 < n \<and> n < 65536 \<and> r = AddrPortString (a, n)"
proof -
  obtain i where i: "LastIndexByte v (CHR '':'') = Some i"
    using assms by (cases "LastIndexByte v (CHR '':'')") (auto simp: parseClientAddress_def ParseAddrPort_def)
  note cut = LastIndexByte_cut [OF i]
  let ?ip = "take i v" and ?p = "drop (i + 1) v"
  show ?thesis
  proof (cases "\<exists>a n. ParseAddrPort v = Inr (a, n) \<and> n \<noteq> 0")
    case True
    then obtain a n where an: "ParseAddrPort v = Inr (a, n)" "n \<noteq> 0" by blast
    define brackets where "brackets = (?ip \<noteq> [] \<and> hd ?ip = CHR ''['')"
    define h where "h = (if brackets then butlast (tl ?ip) else ?ip)"
    have n: "ParseUint10 ?p 16 = Inr n" and a: "ParseAddr h = Inr a" and
      last: "brackets \<Longrightarrow> 2 \<le> length ?ip \<and> last ?ip = CHR '']''"
      using an(1) i unfolding ParseAddrPort_def h_def brackets_def
      by (auto simp: Let_def split: if_splits sum.splits Addr.splits)
    have v: "v = ?ip @ '':'' @ ?p" using cut by simp
    have wrapped: "?ip = ''['' @ h @ '']''" if br: brackets
    proof -
      obtain t where t: "?ip = CHR ''['' # t" using hd_Cons [OF br [unfolded brackets_def]] by blast
      then have "t \<noteq> []" using last [OF br] by auto
      then show ?thesis using t last [OF br] br by (simp add: h_def) (metis append_butlast_last_id)
    qed
    have "v = h @ '':'' @ ?p \<or> v = ''['' @ h @ '']:'' @ ?p"
    proof (cases brackets)
      case True
      from trans [OF v arg_cong [OF wrapped [OF True], of "\<lambda>x. x @ '':'' @ ?p"]] show ?thesis by simp
    next
      case False
      with v show ?thesis by (simp add: h_def)
    qed
    moreover have "r = AddrPortString (a, n)" using assms an by (simp add: parseClientAddress_def)
    ultimately show ?thesis using a n an(2) ParseUint10_range [OF n] by (metis order_le_imp_less_or_eq)
  next
    case False
    then have "(case (ParseAddr ?ip, ParseUint10 ?p 16) of
        (Inr ip, Inr port) \<Rightarrow>
          if port = 0 then Inl (ErrorString errInvalidClientAddressHeader) else Inr (AddrPortString (ip, port))
      | _ \<Rightarrow> Inl (ErrorString errInvalidClientAddressHeader)) = Inr r"
      using assms i by (auto simp: parseClientAddress_def Let_def split: sum.splits prod.splits if_splits)
    then obtain a n where "ParseAddr ?ip = Inr a" "ParseUint10 ?p 16 = Inr n" "n \<noteq> 0" "r = AddrPortString (a, n)"
      by (auto split: sum.splits if_splits)
    then show ?thesis using cut ParseUint10_range by (metis append_Cons append_Nil order_le_imp_less_or_eq)
  qed
qed

text \<open>
  An accepted header names an address and a port that is not zero. The address stands in front
  of the last colon, with or without brackets, and the port behind it; the audit log gets them
  in the canonical form.
\<close>

theorem parseClientAddress_accepts:
  assumes "parseClientAddress v = Inr r"
  shows "\<exists>h p a n. (v = h @ '':'' @ p \<or> v = ''['' @ h @ '']:'' @ p) \<and> ParseAddr h = Inr a \<and>
    ParseUint10 p 16 = Inr n \<and> 0 < n \<and> n < 65536 \<and> r = AddrPortString (a, n)"
  using assms by (rule parseClientAddress_parts)

theorem parseClientAddress_accepts_witness:
  "\<exists>h p a n. (''1.2.3.4:8'' = h @ '':'' @ p \<or> ''1.2.3.4:8'' = ''['' @ h @ '']:'' @ p) \<and> ParseAddr h = Inr a \<and>
    ParseUint10 p 16 = Inr n \<and> 0 < n \<and> n < 65536 \<and> ''1.2.3.4:8'' = AddrPortString (a, n)"
proof (rule parseClientAddress_accepts)
  show "parseClientAddress ''1.2.3.4:8'' = Inr ''1.2.3.4:8''" by code_simp
qed

text \<open>
  An IPv6 address that a proxy wrote without brackets means the same as with them.
\<close>

theorem parseClientAddress_brackets:
  assumes "ParseAddr a = Inr (Is6 gs zone)" and "CHR '':'' \<notin> set p"
  shows "parseClientAddress (a @ '':'' @ p) = parseClientAddress (''['' @ a @ '']:'' @ p)"
proof -
  let ?v = "a @ CHR '':'' # p" and ?w = "(''['' @ a @ '']'') @ CHR '':'' # p"
  have a: "a \<noteq> []" "hd a \<noteq> CHR ''[''" using ParseAddr_hd [OF assms(1)] by auto
  note iv = LastIndexByte_append [OF assms(2), of a]
    and iw = LastIndexByte_append [OF assms(2), of "''['' @ a @ '']''"]
  let ?direct = "case ParseUint10 p 16 of Inr n \<Rightarrow> (if n = 0 then Inl (ErrorString errInvalidClientAddressHeader)
      else Inr (AddrPortString (Is6 gs zone, n))) | Inl e \<Rightarrow> Inl (ErrorString errInvalidClientAddressHeader)"
  show ?thesis
  proof (cases "p = []")
    case True
    then show ?thesis using a iv iw by (simp add: parseClientAddress_def ParseAddrPort_def)
  next
    case False
    have "ParseAddrPort ?v = (case ParseUint10 p 16 of Inl err \<Rightarrow> Inl (ErrorString ''invalid port'')
        | Inr n \<Rightarrow> Inl (ErrorString ''IPv6 addresses must be surrounded by square brackets''))"
      unfolding ParseAddrPort_def iv using a False assms(1) by (simp split: sum.splits)
    then have "parseClientAddress ?v = ?direct"
      unfolding parseClientAddress_def iv using a False assms(1) by (auto simp: Let_def split: sum.splits)
    moreover have "ParseAddrPort ?w = (case ParseUint10 p 16 of Inl err \<Rightarrow> Inl (ErrorString ''invalid port'')
        | Inr n \<Rightarrow> Inr (Is6 gs zone, n))"
      unfolding ParseAddrPort_def iw using a False assms(1) by (simp split: sum.splits)
    then have "parseClientAddress ?w = ?direct"
      unfolding parseClientAddress_def iw using a False by (auto simp: Let_def split: sum.splits)
    ultimately show ?thesis by simp
  qed
qed

theorem parseClientAddress_brackets_witness:
  "parseClientAddress ''20:d8::1:4'' = parseClientAddress ''[20:d8::1]:4''"
proof -
  have "ParseAddr ''20:d8::1'' = Inr (Is6 [32, 216, 0, 0, 0, 0, 0, 1] [])" by code_simp
  from parseClientAddress_brackets [OF this, of "''4''"] show ?thesis by simp
qed

end
