(* ===== verification/Runner_Identity.thy ===== *)
theory Runner_Identity
  imports Repository Net_Addr
begin

text \<open>
  \<open>runner/identity.go\<close>: the ID of a runner and the host under which the broker reaches it. The
  environment, the random source, the metadata endpoint and the interfaces are the fields of
  \<open>identityDeps\<close>, as in the code; decoding the JSON of the endpoint is one more.
\<close>

section \<open>Names and data\<close>

definition stackAPNortheast1 :: string where "stackAPNortheast1 = ''ap-northeast-1''"
definition stackAPNortheast3 :: string where "stackAPNortheast3 = ''ap-northeast-3''"
definition stackAsiaNortheast1 :: string where "stackAsiaNortheast1 = ''asia-northeast1''"
definition stackAsiaNortheast2 :: string where "stackAsiaNortheast2 = ''asia-northeast2''"
definition stackLocal :: string where "stackLocal = ''local''"

record Identity =
  IdentityRunnerID :: string
  IdentityPrivateHost :: string

text \<open>\<open>ecsNetwork\<close> has the IPv4 addresses alone, and \<open>ecsContainerMeta\<close> is the list of its networks.\<close>

record ecsNetwork =
  IPv4Addresses :: "string list"

record ecsContainerMeta =
  Networks :: "ecsNetwork list"

text \<open>
  An interface address is a \<open>*net.IPNet\<close> with an IP of 4 or 16 bytes, or something else.
\<close>

datatype interface_addr = IPNet "int list" | OtherAddr

text \<open>\<open>randRead\<close> returns the bytes that it has put into the buffer, their number and an error.\<close>

record 'w identityDeps =
  getenv :: "string \<Rightarrow> string"
  hostname :: "'w \<Rightarrow> (go_error + string) \<times> 'w"
  httpGet :: "string \<Rightarrow> 'w \<Rightarrow> (go_error + string) \<times> 'w"
  interfaceAddrs :: "'w \<Rightarrow> (go_error + interface_addr list) \<times> 'w"
  randRead :: "nat \<Rightarrow> 'w \<Rightarrow> (string \<times> int \<times> go_error option) \<times> 'w"
  unmarshalMeta :: "string \<Rightarrow> go_error + ecsContainerMeta"

section \<open>IP addresses of the net package\<close>

definition To4 :: "int list \<Rightarrow> int list option" where
  "To4 ip =
     (if length ip = 4 then Some ip
      else if length ip = 16 \<and> take 12 ip = replicate 10 0 @ [255, 255] then Some (drop 12 ip)
      else None)"

definition IsLoopback :: "int list \<Rightarrow> bool" where
  "IsLoopback ip = (case To4 ip of Some ip4 \<Rightarrow> ip4 ! 0 = 127 | None \<Rightarrow> ip = replicate 15 0 @ [1])"

section \<open>The runner ID\<close>

text \<open>
  The buffer starts as sixteen zero bytes, and the bytes that were read are at its front.
\<close>

definition generateRunnerID ::
  "(nat \<Rightarrow> 'w \<Rightarrow> (string \<times> int \<times> go_error option) \<times> 'w) \<Rightarrow> 'w \<Rightarrow> (go_error + string) \<times> 'w" where
  "generateRunnerID readRandom w =
     (case readRandom 16 w of
        ((bytes, n, err), w1) \<Rightarrow>
          let buf = take 16 (bytes @ replicate 16 (CHR 0x00))
          in case err of
               Some x \<Rightarrow> (Inl (Wrap ''generate runner id: '' x), w1)
             | None \<Rightarrow>
                 if n \<noteq> 16
                 then (Inl (ErrorString (''generate runner id: short read '' @ show_int n @ ''/16'')), w1)
                 else (Inr (EncodeToString buf), w1))"

section \<open>The private host\<close>

definition privateHostFromECS :: "'w identityDeps \<Rightarrow> 'w \<Rightarrow> (go_error + string) \<times> 'w" where
  "privateHostFromECS d w =
     (let ecsURI = getenv d ''ECS_CONTAINER_METADATA_URI_V4''
      in if ecsURI = []
         then (Inl (ErrorString ''missing required environment variable: ECS_CONTAINER_METADATA_URI_V4''), w)
         else case httpGet d ecsURI w of
           (Inl err, w1) \<Rightarrow> (Inl (Wrap ''fetch ECS container metadata: '' err), w1)
         | (Inr response, w1) \<Rightarrow>
             (case unmarshalMeta d response of
                Inl err \<Rightarrow> (Inl (Wrap ''parse ECS container metadata: '' err), w1)
              | Inr container \<Rightarrow>
                  (case Networks container of
                     [] \<Rightarrow> (Inl (ErrorString ''no IPv4 address in ECS container metadata''), w1)
                   | network # _ \<Rightarrow>
                       (case IPv4Addresses network of
                          [] \<Rightarrow> (Inl (ErrorString ''no IPv4 address in ECS container metadata''), w1)
                        | addr # _ \<Rightarrow> (Inr addr, w1)))))"

fun first_pod_ip :: "interface_addr list \<Rightarrow> go_error + string" where
  "first_pod_ip [] = Inl (ErrorString ''no non-loopback IPv4 address found'')"
| "first_pod_ip (OtherAddr # addrs) = first_pod_ip addrs"
| "first_pod_ip (IPNet ip # addrs) =
     (if IsLoopback ip then first_pod_ip addrs
      else case To4 ip of Some ip4 \<Rightarrow> Inr (string4 ip4) | None \<Rightarrow> first_pod_ip addrs)"

definition privateHostFromPodIP :: "'w identityDeps \<Rightarrow> 'w \<Rightarrow> (go_error + string) \<times> 'w" where
  "privateHostFromPodIP d w =
     (case interfaceAddrs d w of
        (Inl err, w1) \<Rightarrow> (Inl (Wrap ''get interface addresses: '' err), w1)
      | (Inr addrs, w1) \<Rightarrow> (first_pod_ip addrs, w1))"

definition privateHostFromHostname :: "'w identityDeps \<Rightarrow> 'w \<Rightarrow> (go_error + string) \<times> 'w" where
  "privateHostFromHostname d w =
     (case hostname d w of
        (Inl err, w1) \<Rightarrow> (Inl (Wrap ''get hostname: '' err), w1)
      | (Inr host, w1) \<Rightarrow> (Inr host, w1))"

definition resolvePrivateHost :: "'w identityDeps \<Rightarrow> 'w \<Rightarrow> (go_error + string) \<times> 'w" where
  "resolvePrivateHost d w =
     (let stackName = getenv d ''STACK_NAME''
      in if stackName = stackAPNortheast1 \<or> stackName = stackAPNortheast3 then privateHostFromECS d w
         else if stackName = stackAsiaNortheast1 \<or> stackName = stackAsiaNortheast2 then privateHostFromPodIP d w
         else if stackName = stackLocal then privateHostFromHostname d w
         else (Inl (ErrorString (''unsupported STACK_NAME: '' @ Quote stackName)), w))"

definition resolveIdentity :: "'w identityDeps \<Rightarrow> 'w \<Rightarrow> (go_error + Identity) \<times> 'w" where
  "resolveIdentity d w =
     (case generateRunnerID (randRead d) w of
        (Inl err, w1) \<Rightarrow> (Inl err, w1)
      | (Inr rid, w1) \<Rightarrow>
          (case resolvePrivateHost d w1 of
             (Inl err, w2) \<Rightarrow> (Inl err, w2)
           | (Inr host, w2) \<Rightarrow> (Inr \<lparr>IdentityRunnerID = rid, IdentityPrivateHost = host\<rparr>, w2)))"

section \<open>The metadata endpoint\<close>

text \<open>
  \<open>defaultHTTPGet\<close>: building the request can fail, the exchange can fail, and reading the body
  of an answer can. \<open>doGet\<close> gives the status and what reading the body gives.
\<close>

definition defaultHTTPGet ::
  "(string \<Rightarrow> go_error option) \<Rightarrow> (string \<Rightarrow> 'w \<Rightarrow> (go_error + nat \<times> (go_error + string)) \<times> 'w) \<Rightarrow>
   string \<Rightarrow> 'w \<Rightarrow> (go_error + string) \<times> 'w" where
  "defaultHTTPGet newRequest doGet url w =
     (case newRequest url of
        Some err \<Rightarrow> (Inl err, w)
      | None \<Rightarrow>
          (case doGet url w of
             (Inl err, w1) \<Rightarrow> (Inl err, w1)
           | (Inr (code, body_read), w1) \<Rightarrow>
               if code \<noteq> 200 then (Inl (ErrorString (''metadata endpoint returned '' @ show_nat code)), w1)
               else (body_read, w1)))"

end
