(* ===== verification/Bash_Shell.thy ===== *)
theory Bash_Shell
  imports Go_Strings
begin

text \<open>
  \<open>runner/shell.go\<close>: a persistent bash process and the marker protocol that finds the end of
  the output of a command. The process, its pipes, the clock and the caller's context and channel
  are records of calls on the world. \<open>ExecuteStream\<close> and \<open>Close\<close> hold the mutex \<open>mu\<close> from
  their first line to their last, so each is one operation here; the goroutine \<open>readStderr\<close>
  does run beside them, and the definitions name the points at which it may have read more.
\<close>

definition apostrophe :: string where "apostrophe = [CHR 0x27]"

lemma nl_not_in_show_int: "nl \<notin> set (show_int i)"
proof -
  have "nl \<notin> set (show_nat n)" for n
    using show_nat_digits [of n] by (auto simp: list_all_iff char_class_defs nl_def)
  then show ?thesis by (simp add: show_int_def) (simp add: nl_def)
qed

section \<open>The process\<close>

record 'w commander =
  cmd_Start :: "'w \<Rightarrow> go_error option \<times> 'w"
  cmd_Wait :: "'w \<Rightarrow> (go_error option \<times> 'w) option"
  cmd_StdinPipe :: "'w \<Rightarrow> go_error option \<times> 'w"
  cmd_StdoutPipe :: "'w \<Rightarrow> go_error option \<times> 'w"
  cmd_StderrPipe :: "'w \<Rightarrow> go_error option \<times> 'w"

text \<open>The calls of an \<open>exec.Cmd\<close> that \<open>execCommander\<close> passes on.\<close>

record 'w exec_Cmd =
  Cmd_Start :: "'w \<Rightarrow> go_error option \<times> 'w"
  Cmd_Wait :: "'w \<Rightarrow> (go_error option \<times> 'w) option"
  Cmd_StdinPipe :: "'w \<Rightarrow> go_error option \<times> 'w"
  Cmd_StdoutPipe :: "'w \<Rightarrow> go_error option \<times> 'w"
  Cmd_StderrPipe :: "'w \<Rightarrow> go_error option \<times> 'w"

definition execCommander :: "'w exec_Cmd \<Rightarrow> 'w commander" where
  "execCommander c =
     \<lparr>cmd_Start = \<lambda>w. Cmd_Start c w, cmd_Wait = \<lambda>w. Cmd_Wait c w, cmd_StdinPipe = \<lambda>w. Cmd_StdinPipe c w,
      cmd_StdoutPipe = \<lambda>w. Cmd_StdoutPipe c w, cmd_StderrPipe = \<lambda>w. Cmd_StderrPipe c w\<rparr>"

text \<open>The pipes that the three calls return, and how each is closed.\<close>

datatype pipe = Stdin | Stdout | Stderr

text \<open>
  What the shell does on the pipes. \<open>scanStdout\<close> is \<open>Scan\<close> with \<open>Text\<close> or \<open>Err\<close> of the
  scanner, and \<open>None\<close> when it blocks for ever. The reader goroutine reads chunks from standard
  error: \<open>readyChunks\<close> gives those that it has read by now, \<open>nextChunk\<close> waits for one more.
\<close>

datatype scanned = Line string | ScanErr go_error | ScanEOF

record 'w streams =
  writeStdin :: "string \<Rightarrow> 'w \<Rightarrow> go_error option \<times> 'w"
  scanStdout :: "'w \<Rightarrow> (scanned \<times> 'w) option"
  readyChunks :: "'w \<Rightarrow> string list \<times> 'w"
  nextChunk :: "'w \<Rightarrow> (string \<times> 'w) option"

text \<open>
  The caller's side of one call: \<open>ctx.Err()\<close>, the two-way \<open>select\<close> of \<open>sendLine\<close> with
  \<open>None\<close> when the line was sent and \<open>ctx.Err()\<close> when the context was done, \<open>close(stdoutCh)\<close>
  and the clock.
\<close>

record 'w caller =
  callErr :: "'w \<Rightarrow> go_error option"
  sendOrDone :: "string \<Rightarrow> 'w \<Rightarrow> go_error option \<times> 'w"
  closeStdoutCh :: "'w \<Rightarrow> 'w"
  UnixNano :: "'w \<Rightarrow> int \<times> 'w"

section \<open>The state of a shell\<close>

text \<open>A channel that is only closed; closing it when it is \<open>nil\<close> or closed would panic.\<close>

datatype done_chan = NilChan | OpenChan | ClosedChan | PanickedChan

fun close_done :: "done_chan \<Rightarrow> done_chan" where
  "close_done OpenChan = ClosedChan"
| "close_done ch = PanickedChan"

record bashShell =
  stderrBuf :: string
  stderrMarker :: string
  stderrDone :: done_chan
  broken :: "go_error option"

definition new_bashShell :: bashShell where
  "new_bashShell = \<lparr>stderrBuf = [], stderrMarker = [], stderrDone = NilChan, broken = None\<rparr>"

definition newBashShellFromCommander ::
  "'w commander \<Rightarrow> (pipe \<Rightarrow> 'w \<Rightarrow> 'w) \<Rightarrow> 'w \<Rightarrow> (go_error + bashShell) \<times> 'w" where
  "newBashShellFromCommander cmd closePipe w =
     (case cmd_StdinPipe cmd w of
        (Some err, w1) \<Rightarrow> (Inl (Wrap ''stdin pipe: '' err), w1)
      | (None, w1) \<Rightarrow>
     (case cmd_StdoutPipe cmd w1 of
        (Some err, w2) \<Rightarrow> (Inl (Wrap ''stdout pipe: '' err), closePipe Stdin w2)
      | (None, w2) \<Rightarrow>
     (case cmd_StderrPipe cmd w2 of
        (Some err, w3) \<Rightarrow> (Inl (Wrap ''stderr pipe: '' err), closePipe Stdout (closePipe Stdin w3))
      | (None, w3) \<Rightarrow>
     (case cmd_Start cmd w3 of
        (Some err, w4) \<Rightarrow>
          (Inl (Wrap ''start bash: '' err), closePipe Stderr (closePipe Stdout (closePipe Stdin w4)))
      | (None, w4) \<Rightarrow> (Inr new_bashShell, w4)))))"

text \<open>\<open>execCommand name args dir\<close> is the \<open>exec.Cmd\<close> that \<open>exec.Command\<close> makes, with its directory.\<close>

definition NewBashShell ::
  "(string \<Rightarrow> string list \<Rightarrow> string \<Rightarrow> 'w exec_Cmd) \<Rightarrow> (pipe \<Rightarrow> 'w \<Rightarrow> 'w) \<Rightarrow> 'w \<Rightarrow>
   (go_error + bashShell) \<times> 'w" where
  "NewBashShell execCommand closePipe w =
     newBashShellFromCommander (execCommander (execCommand ''bash'' [''--norc'', ''--noprofile''] ''/app'')) closePipe w"

section \<open>Standard error\<close>

definition checkStderrMarker :: "bashShell \<Rightarrow> bashShell" where
  "checkStderrMarker s =
     (if stderrMarker s = [] then s
      else case Index (stderrBuf s) (stderrMarker s) of
        None \<Rightarrow> s
      | Some idx \<Rightarrow>
          (let content = stderrBuf s;
               markerEnd = idx + length (stderrMarker s);
               markerEnd1 = (if markerEnd < length content \<and> content ! markerEnd = nl
                             then markerEnd + 1 else markerEnd)
           in s\<lparr>stderrBuf := take idx content @ drop markerEnd1 content, stderrMarker := [],
                stderrDone := close_done (stderrDone s)\<rparr>))"

text \<open>One round of \<open>readStderr\<close>, and all rounds for the chunks that are there.\<close>

definition read_chunk :: "string \<Rightarrow> bashShell \<Rightarrow> bashShell" where
  "read_chunk chunk s =
     (if chunk = [] then s else checkStderrMarker (s\<lparr>stderrBuf := stderrBuf s @ chunk\<rparr>))"

definition readStderr :: "string list \<Rightarrow> bashShell \<Rightarrow> bashShell" where
  "readStderr chunks s = fold read_chunk chunks s"

definition reader_runs :: "'w streams \<Rightarrow> bashShell \<Rightarrow> 'w \<Rightarrow> bashShell \<times> 'w" where
  "reader_runs p s w = (let (chunks, w1) = readyChunks p w in (readStderr chunks s, w1))"

definition resetStderr :: "bashShell \<Rightarrow> bashShell" where
  "resetStderr s = s\<lparr>stderrBuf := []\<rparr>"

definition getStderr :: "bashShell \<Rightarrow> string" where
  "getStderr s = stderrBuf s"

text \<open>The receive from \<open>stderrDone\<close>: the caller waits while the reader goes on.\<close>

partial_function (option) await_stderr :: "'w streams \<Rightarrow> bashShell \<Rightarrow> 'w \<Rightarrow> (bashShell \<times> 'w) option" where
  [code]: "await_stderr p s w =
     (if stderrDone s = ClosedChan then Some (s, w)
      else case nextChunk p w of
        None \<Rightarrow> None
      | Some (chunk, w1) \<Rightarrow> await_stderr p (read_chunk chunk s) w1)"

section \<open>A command\<close>

definition marker_text :: "int \<Rightarrow> string" where
  "marker_text t = ''__MRK_'' @ show_int t @ ''_END__''"

definition reloadEnv :: string where
  "reloadEnv = ''unset __HM_SESS_VARS_SOURCED; . '' @
     ''\"$HOME/.nix-profile/etc/profile.d/hm-session-vars.sh\" 2>/dev/null || true''"

definition script_text :: "string \<Rightarrow> string \<Rightarrow> string" where
  "script_text command marker =
     reloadEnv @ [nl] @ command @ [nl] @ ''__ec=$?'' @ [nl] @ reloadEnv @ [nl] @
     ''builtin echo '' @ apostrophe @ marker @ apostrophe @ '' >&2'' @ [nl] @
     ''builtin echo '' @ apostrophe @ apostrophe @ [nl] @
     ''builtin echo '' @ apostrophe @ marker @ apostrophe @ ''${__ec}'' @ [nl]"

definition sendLine :: "'w caller \<Rightarrow> string \<Rightarrow> 'w \<Rightarrow> go_error option \<times> 'w" where
  "sendLine k line w =
     (case sendOrDone k (line @ [nl]) w of
        (None, w1) \<Rightarrow> (None, w1)
      | (Some err, w1) \<Rightarrow> (Some (Wrap ''context: '' err), w1))"

definition desynchronized :: "go_error \<Rightarrow> go_error" where
  "desynchronized err = Wrap ''shell session desynchronized: '' err"

text \<open>The result of a command: exit code, standard error, and an error of the call.\<close>

type_synonym executed = "int \<times> string \<times> go_error option"

text \<open>
  The end of the loop, when the marker line has come: \<open>ecStr\<close> is the rest of it.
\<close>

definition marker_found ::
  "'w streams \<Rightarrow> string \<Rightarrow> go_error option \<Rightarrow> bashShell \<Rightarrow> 'w \<Rightarrow> (executed \<times> bashShell \<times> 'w) option" where
  "marker_found p ecStr sendErr s w =
     (case Atoi ecStr of
        Inl err \<Rightarrow> Some ((-1, [], Some (Wrap (''parse exit code '' @ Quote ecStr @ '': '') err)), s, w)
      | Inr exitCode \<Rightarrow>
          (case await_stderr p s w of
             None \<Rightarrow> None
           | Some (s1, w1) \<Rightarrow>
               (let (s2, w2) = reader_runs p s1 w1; stderr = getStderr s2
                in case sendErr of
                     Some err \<Rightarrow> Some ((-1, [], Some err), s2\<lparr>broken := None\<rparr>, w2)
                   | None \<Rightarrow> Some ((exitCode, stderr, None), s2, w2))))"

text \<open>The loop over the lines of standard output.\<close>

partial_function (option) scan_loop ::
  "'w streams \<Rightarrow> 'w caller \<Rightarrow> string \<Rightarrow> bool \<Rightarrow> go_error option \<Rightarrow> bashShell \<Rightarrow> 'w \<Rightarrow>
   (executed \<times> bashShell \<times> 'w) option" where
  [code]: "scan_loop p k marker pendingEmpty sendErr s w =
     (case scanStdout p w of
        None \<Rightarrow> None
      | Some (ScanErr err, w1) \<Rightarrow>
          Some ((-1, [], Some (Wrap ''scan stdout: '' err)),
                s\<lparr>broken := Some (Wrap ''shell session desynchronized: scan stdout: '' err)\<rparr>, w1)
      | Some (ScanEOF, w1) \<Rightarrow>
          Some ((-1, [], Some (ErrorString ''unexpected end of stdout'')),
                s\<lparr>broken := Some (ErrorString ''shell session desynchronized: unexpected end of stdout'')\<rparr>, w1)
      | Some (Line line, w1) \<Rightarrow>
          if HasPrefix line marker then marker_found p (drop (length marker) line) sendErr s w1
          else if sendErr \<noteq> None then scan_loop p k marker pendingEmpty sendErr s w1
          else (case (if pendingEmpty then sendLine k [] w1 else (None, w1)) of
             (Some err, w2) \<Rightarrow>
               scan_loop p k marker pendingEmpty (Some (desynchronized err))
                 (s\<lparr>broken := Some (desynchronized err)\<rparr>) w2
           | (None, w2) \<Rightarrow>
               if line = [] then scan_loop p k marker True None s w2
               else (case sendLine k line w2 of
                  (Some err, w3) \<Rightarrow>
                    scan_loop p k marker False (Some (desynchronized err))
                      (s\<lparr>broken := Some (desynchronized err)\<rparr>) w3
                | (None, w3) \<Rightarrow> scan_loop p k marker False None s w3)))"

text \<open>\<open>ExecuteStream\<close> between the lock and the close of the channel.\<close>

definition execute_locked ::
  "'w streams \<Rightarrow> 'w caller \<Rightarrow> string \<Rightarrow> bashShell \<Rightarrow> 'w \<Rightarrow> (executed \<times> bashShell \<times> 'w) option" where
  "execute_locked p k command s w =
     (case broken s of
        Some err \<Rightarrow> Some ((-1, [], Some err), s, w)
      | None \<Rightarrow>
          (let (s1, w1) = reader_runs p s w;
               s2 = resetStderr s1;
               (t, w2) = UnixNano k w1;
               marker = marker_text t;
               (s3, w3) = reader_runs p s2 w2;
               s4 = s3\<lparr>stderrMarker := marker, stderrDone := OpenChan\<rparr>
           in case callErr k w3 of
                Some err \<Rightarrow> Some ((-1, [], Some (Wrap ''context: '' err)), s4, w3)
              | None \<Rightarrow>
                  (case writeStdin p (script_text command marker) w3 of
                     (Some err, w4) \<Rightarrow>
                       (let e = Wrap ''shell session desynchronized: write command: '' err
                        in Some ((-1, [], Some e), s4\<lparr>broken := Some e\<rparr>, w4))
                   | (None, w4) \<Rightarrow> scan_loop p k marker False None s4 w4)))"

definition ExecuteStream ::
  "'w streams \<Rightarrow> 'w caller \<Rightarrow> string \<Rightarrow> bashShell \<Rightarrow> 'w \<Rightarrow> (executed \<times> bashShell \<times> 'w) option" where
  "ExecuteStream p k command s w =
     (case execute_locked p k command s w of
        None \<Rightarrow> None
      | Some (res, s1, w1) \<Rightarrow> Some (res, s1, closeStdoutCh k w1))"

definition CloseShell :: "'w streams \<Rightarrow> 'w commander \<Rightarrow> 'w \<Rightarrow> (go_error option \<times> 'w) option" where
  "CloseShell p cmd w =
     (let (res, w1) = writeStdin p (''exit'' @ [nl]) w;
          writeErr = (case res of None \<Rightarrow> None | Some err \<Rightarrow> Some (Wrap ''write exit: '' err))
      in case cmd_Wait cmd w1 of
           None \<Rightarrow> None
         | Some (waitErr, w2) \<Rightarrow>
             Some (case (writeErr, waitErr) of
                     (Some we, Some wt) \<Rightarrow> Some (Wrap (error_text we @ ''; wait: '') wt)
                   | (Some we, None) \<Rightarrow> Some we
                   | (None, wt) \<Rightarrow> wt, w2))"

section \<open>The reader\<close>

text \<open>An occurrence that was found stays the first one when text is added at the end.\<close>

lemma Index_append: "Index s m = Some i \<Longrightarrow> Index (s @ r) m = Some i"
proof (induction s arbitrary: i)
  case Nil
  then have "m = []" and "i = 0" by (auto split: if_splits)
  then show ?case by (cases r) simp_all
next
  case (Cons x s)
  show ?case
  proof (cases "prefix m (x # s)")
    case True
    then have "prefix m ((x # s) @ r)" by (rule prefix_prefix)
    then show ?thesis using True Cons.prems by simp
  next
    case False
    with Cons.prems obtain j where j: "Index s m = Some j" "i = Suc j" by auto
    from False have "\<not> prefix m (x # s @ r)"
    proof (rule contrapos_nn)
      assume "prefix m (x # s @ r)"
      moreover have "prefix (x # s) (x # s @ r)" by simp
      moreover have "length m \<le> length (x # s)" using Index_Some_D [OF j(1)] by simp
      ultimately show "prefix m (x # s)" by (rule prefix_length_prefix)
    qed
    then show ?thesis using j Cons.IH by simp
  qed
qed

text \<open>
  The marker comes right after the text \<open>pre\<close> and nowhere before. While a part of it is missing
  the reader only collects; with the chunk that completes it, it takes it out and signals.
\<close>

lemma marker_not_yet:
  assumes "Index (pre @ m) m = Some (length pre)" and "prefix b (pre @ m)" and "length b < length (pre @ m)"
  shows "Index b m = None"
proof (cases "Index b m")
  case (Some i)
  obtain r where r: "pre @ m = b @ r" using assms(2) by (auto simp: prefix_def)
  have "Index (pre @ m) m = Some i" unfolding r using Some by (rule Index_append)
  then have "i = length pre" using assms(1) by simp
  moreover have "i + length m \<le> length b" using Index_Some_D [OF Some] by simp
  ultimately show ?thesis using assms(3) by simp
qed simp

lemma read_chunk_waiting:
  assumes "stderrMarker s = m" and "m \<noteq> []" and "Index (pre @ m) m = Some (length pre)"
    and "stderrBuf s @ chunk @ rest = pre @ m @ [nl]" and "length (stderrBuf s @ chunk) < length (pre @ m)"
  shows "read_chunk chunk s = s\<lparr>stderrBuf := stderrBuf s @ chunk\<rparr>"
proof -
  have "prefix (stderrBuf s @ chunk) ((pre @ m) @ [nl])" using assms(4) by (metis append_assoc prefixI)
  then have "prefix (stderrBuf s @ chunk) (pre @ m)"
    using assms(5) by (metis less_imp_le prefixI prefix_length_prefix)
  from marker_not_yet [OF assms(3) this assms(5)] have "Index (stderrBuf s @ chunk) m = None" .
  then show ?thesis using assms(1,2) by (cases s) (simp add: read_chunk_def checkStderrMarker_def)
qed

lemma read_chunk_completes:
  assumes "stderrMarker s = m" and "m \<noteq> []" and "Index (pre @ m) m = Some (length pre)"
    and "stderrBuf s @ chunk @ rest = pre @ m @ [nl]" and "length (pre @ m) \<le> length (stderrBuf s @ chunk)"
    and "stderrDone s = OpenChan" and "length (stderrBuf s) < length (pre @ m)"
  shows "read_chunk chunk s = s\<lparr>stderrBuf := pre, stderrMarker := [], stderrDone := ClosedChan\<rparr> \<and>
    (rest = [] \<or> rest = [nl])"
proof -
  have "prefix (pre @ m) (stderrBuf s @ chunk)"
  proof (rule prefix_length_prefix)
    show "prefix (pre @ m) (pre @ m @ [nl])" by (simp add: prefix_def)
    show "prefix (stderrBuf s @ chunk) (pre @ m @ [nl])" using assms(4) by (metis append_assoc prefixI)
  qed (rule assms(5))
  then obtain y where y: "stderrBuf s @ chunk = pre @ m @ y" by (auto simp: prefix_def)
  have "Index (stderrBuf s @ chunk) m = Some (length pre)"
    unfolding y using Index_append [OF assms(3)] by simp
  moreover have yr: "y @ rest = [nl]" using y assms(4) by (metis append_assoc same_append_eq)
  moreover from yr have "y = [] \<or> y = [nl]" by (auto simp: append_eq_Cons_conv)
  moreover have "chunk \<noteq> []" using assms(5,7) by auto
  ultimately show ?thesis
    using assms(1,2,6) y by (cases s) (auto simp: read_chunk_def checkStderrMarker_def nth_append)
qed

text \<open>After the signal the reader only collects, until the next command.\<close>

lemma read_chunk_idle: "stderrMarker s = [] \<Longrightarrow> read_chunk c s = s\<lparr>stderrBuf := stderrBuf s @ c\<rparr>"
  by (simp add: read_chunk_def checkStderrMarker_def)

lemma readStderr_idle:
  "stderrMarker s = [] \<Longrightarrow> readStderr cs s = s\<lparr>stderrBuf := stderrBuf s @ concat cs\<rparr>"
  by (induction cs arbitrary: s) (simp_all add: readStderr_def read_chunk_idle)

lemma readStderr_Cons [simp]: "readStderr (c # cs) s = readStderr cs (read_chunk c s)"
  by (simp add: readStderr_def)

lemma readStderr_Nil [simp]: "readStderr [] s = s"
  by (simp add: readStderr_def)

lemma read_chunk_broken [simp]: "broken (read_chunk c s) = broken s"
  by (simp add: read_chunk_def checkStderrMarker_def Let_def split: option.splits)

lemma readStderr_broken [simp]: "broken (readStderr cs s) = broken s"
  by (induction cs arbitrary: s) simp_all

text \<open>
  Whatever arrives, no channel is closed twice and none is closed that was never made: a marker
  that is set always comes with an open channel.
\<close>

definition reader_ok :: "bashShell \<Rightarrow> bool" where
  "reader_ok s \<longleftrightarrow> (stderrMarker s \<noteq> [] \<longrightarrow> stderrDone s = OpenChan) \<and> stderrDone s \<noteq> PanickedChan"

lemma reader_ok_new [simp]: "reader_ok new_bashShell"
  by (simp add: reader_ok_def new_bashShell_def)

lemma reader_ok_update [simp]:
  "reader_ok (s\<lparr>broken := b\<rparr>) = reader_ok s" "reader_ok (s\<lparr>stderrBuf := t\<rparr>) = reader_ok s"
  "reader_ok (s\<lparr>stderrMarker := m, stderrDone := OpenChan\<rparr>)"
  by (auto simp: reader_ok_def)

lemma reader_ok_chunk [intro]: "reader_ok s \<Longrightarrow> reader_ok (read_chunk c s)"
  by (auto simp: reader_ok_def read_chunk_def checkStderrMarker_def Let_def split: option.splits)

lemma reader_ok_chunks [intro]: "reader_ok s \<Longrightarrow> reader_ok (readStderr cs s)"
  by (induction cs arbitrary: s) auto

lemma reader_ok_runs: "reader_ok s \<Longrightarrow> reader_runs p s w = (s', w') \<Longrightarrow> reader_ok s'"
  by (auto simp: reader_runs_def split: prod.splits)

lemma reader_ok_await:
  assumes "await_stderr p s w = Some r" and "reader_ok s"
  shows "reader_ok (fst r)"
proof -
  have "reader_ok s \<longrightarrow> reader_ok (fst r)"
  proof (rule await_stderr.raw_induct [where P = "\<lambda>p s w r. reader_ok s \<longrightarrow> reader_ok (fst r)", OF _ assms(1)])
    fix f and p :: "'a streams" and s :: bashShell and w :: 'a and r
    assume IH: "\<And>p s w r. f p s w = Some r \<Longrightarrow> reader_ok s \<longrightarrow> reader_ok (fst r)"
      and run: "(if stderrDone s = ClosedChan then Some (s, w)
            else case nextChunk p w of None \<Rightarrow> None | Some (chunk, w1) \<Rightarrow> f p (read_chunk chunk s) w1) = Some r"
    show "reader_ok s \<longrightarrow> reader_ok (fst r)"
    proof (cases "stderrDone s = ClosedChan")
      case False
      with run obtain chunk w1 where "f p (read_chunk chunk s) w1 = Some r"
        by (auto split: option.splits prod.splits)
      from IH [OF this] show ?thesis by auto
    qed (use run in auto)
  qed
  with assms(2) show ?thesis by blast
qed

lemma await_closed:
  assumes "await_stderr p s w = Some r"
  shows "stderrDone (fst r) = ClosedChan \<and> broken (fst r) = broken s"
proof (rule await_stderr.raw_induct [where P = "\<lambda>p s w r. stderrDone (fst r) = ClosedChan \<and> broken (fst r) = broken s",
    OF _ assms])
  fix f and p :: "'a streams" and s :: bashShell and w :: 'a and r
  assume IH: "\<And>p s w r. f p s w = Some r \<Longrightarrow> stderrDone (fst r) = ClosedChan \<and> broken (fst r) = broken s"
    and run: "(if stderrDone s = ClosedChan then Some (s, w)
          else case nextChunk p w of None \<Rightarrow> None | Some (chunk, w1) \<Rightarrow> f p (read_chunk chunk s) w1) = Some r"
  show "stderrDone (fst r) = ClosedChan \<and> broken (fst r) = broken s"
  proof (cases "stderrDone s = ClosedChan")
    case False
    with run obtain chunk w1 where "f p (read_chunk chunk s) w1 = Some r"
      by (auto split: option.splits prod.splits)
    from IH [OF this] show ?thesis by simp
  qed (use run in auto)
qed

text \<open>
  A rule for the loop: \<open>I\<close> is kept while lines are read and sent and when a line is not taken,
  and gives \<open>Q\<close> of the result where the loop ends.
\<close>

lemma scan_loop_world_rule:
  assumes "scan_loop p k m pe se s w = Some r" and "I se s w"
    and read: "\<And>se s w x w1. I se s w \<Longrightarrow> scanStdout p w = Some (x, w1) \<Longrightarrow> I se s w1"
    and sent: "\<And>s w l w1. I None s w \<Longrightarrow> sendLine k l w = (None, w1) \<Longrightarrow> I None s w1"
    and unsent: "\<And>s w l e w1. I None s w \<Longrightarrow> sendLine k l w = (Some e, w1) \<Longrightarrow>
      I (Some (desynchronized e)) (s\<lparr>broken := Some (desynchronized e)\<rparr>) w1"
    and stopped: "\<And>se s e b w. I se s w \<Longrightarrow> Q ((-1, [], Some e), s\<lparr>broken := Some b\<rparr>, w)"
    and marker: "\<And>se s ec w r. I se s w \<Longrightarrow> marker_found p ec se s w = Some r \<Longrightarrow> Q r"
  shows "Q r"
proof -
  have "p = p \<and> k = k \<longrightarrow> I se s w \<longrightarrow> Q r"
  proof (rule scan_loop.raw_induct [where P = "\<lambda>p' k' m pe se s w r. p' = p \<and> k' = k \<longrightarrow> I se s w \<longrightarrow> Q r",
      OF _ assms(1)], goal_cases)
    case (1 f p' k' m pe se s w r)
    show ?case
    proof (intro impI, elim conjE)
      assume p': "p' = p" "k' = k" and I: "I se s w"
      have IH: "f p k m pe se s w = Some r \<Longrightarrow> I se s w \<longrightarrow> Q r" for m pe se s w r using 1(1) by blast
      note run = 1(2) [unfolded p']
      obtain x w1 where sc: "scanStdout p w = Some (x, w1)" using run by (cases "scanStdout p w") auto
      have I1: "I se s w1" by (rule read [OF I sc])
      show "Q r"
      proof (cases x)
        case (Line line)
        show ?thesis
        proof (cases "HasPrefix line m")
          case True
          then have "marker_found p (drop (length m) line) se s w1 = Some r" using run sc Line by simp
          then show ?thesis using marker I1 by blast
        next
          case False
          note body = run [unfolded sc Line option.case prod.case scanned.case if_not_P [OF False]]
          show ?thesis
          proof (cases "se = None")
            case se: True
            obtain e w2 where pe: "(if pe then sendLine k [] w1 else (None, w1)) = (e, w2)" by fastforce
            show ?thesis
            proof (cases e)
              case (Some err)
              then have "f p k m pe (Some (desynchronized err)) (s\<lparr>broken := Some (desynchronized err)\<rparr>) w2 = Some r"
                using body pe se by simp
              moreover have "sendLine k [] w1 = (Some err, w2)" using pe Some by (simp split: if_splits)
              ultimately show ?thesis using IH unsent I1 se by blast
            next
              case None
              have I2: "I None s w2" using pe None I1 se sent [of s w1 "[]" w2] by (cases pe) auto
              show ?thesis
              proof (cases "line = []")
                case True
                then have "f p k m True None s w2 = Some r" using body pe se None by simp
                from IH [OF this] I2 show ?thesis by blast
              next
                case False
                obtain e' w3 where sl: "sendLine k line w2 = (e', w3)" by fastforce
                with False have "f p k m False (map_option desynchronized e')
                    (case e' of None \<Rightarrow> s | Some err \<Rightarrow> s\<lparr>broken := Some (desynchronized err)\<rparr>) w3 = Some r"
                  using body pe se None by (cases e') simp_all
                from IH [OF this] I2 sl sent unsent show ?thesis by (cases e') auto
              qed
            qed
          next
            case False
            then have "f p k m pe se s w1 = Some r" using body by simp
            from IH [OF this] I1 show ?thesis by blast
          qed
        qed
      qed (use run sc stopped [OF I1] in auto)
    qed
  qed
  with assms(2) show ?thesis by blast
qed

lemma scan_loop_rule:
  assumes "scan_loop p k m pe se s w = Some r" and "I se s"
    and "\<And>s e. I None s \<Longrightarrow> I (Some (desynchronized e)) (s\<lparr>broken := Some (desynchronized e)\<rparr>)"
    and "\<And>se s e b w. I se s \<Longrightarrow> Q ((-1, [], Some e), s\<lparr>broken := Some b\<rparr>, w)"
    and "\<And>se s ec w r. I se s \<Longrightarrow> marker_found p ec se s w = Some r \<Longrightarrow> Q r"
  shows "Q r"
  by (rule scan_loop_world_rule [where I = "\<lambda>se s w. I se s", OF assms(1,2)]) (use assms(3-5) in blast)+

text \<open>The same for a whole command: a reported exit code means that both markers have been seen.\<close>

lemma marker_found_reader:
  assumes "marker_found p ec se s w = Some (res, s', w')" and "reader_ok s"
  shows "reader_ok s' \<and> (snd (snd res) = None \<longrightarrow> stderrDone s' = ClosedChan \<and> broken s' = broken s)"
proof (cases "Atoi ec")
  case (Inl e)
  then show ?thesis using assms by (auto simp: marker_found_def)
next
  case (Inr v)
  then obtain s1 w1 where await: "await_stderr p s w = Some (s1, w1)"
    using assms(1) by (cases "await_stderr p s w") (auto simp: marker_found_def)
  have s1: "reader_ok s1" "stderrDone s1 = ClosedChan" "broken s1 = broken s"
    using reader_ok_await [OF await assms(2)] await_closed [OF await] by simp_all
  then have "stderrMarker s1 = []" by (auto simp: reader_ok_def)
  moreover obtain cs w2 where "readyChunks p w1 = (cs, w2)" by (cases "readyChunks p w1")
  ultimately show ?thesis
    using assms(1) Inr await s1
    by (auto simp: marker_found_def reader_runs_def readStderr_idle split: option.splits)
qed

lemma scan_loop_reader:
  assumes "scan_loop p k m pe None s w = Some (res, s', w')" and "reader_ok s" and "broken s = None"
  shows "reader_ok s' \<and> (snd (snd res) = None \<longrightarrow> stderrDone s' = ClosedChan \<and> broken s' = None)"
proof -
  let ?I = "\<lambda>se s. reader_ok s \<and> (se = None \<longrightarrow> broken s = None)"
  have "case (res, s', w') of (res, s', w') \<Rightarrow>
      reader_ok s' \<and> (snd (snd res) = None \<longrightarrow> stderrDone s' = ClosedChan \<and> broken s' = None)"
  proof (rule scan_loop_rule [where I = ?I and Q = "\<lambda>(res, s', w').
      reader_ok s' \<and> (snd (snd res) = None \<longrightarrow> stderrDone s' = ClosedChan \<and> broken s' = None)", OF assms(1)])
    fix se s ec w r
    assume I: "?I se s" and "marker_found p ec se s w = Some r"
    moreover obtain res s' w' where r: "r = (res, s', w')" by (cases r)
    ultimately have mk: "marker_found p ec se s w = Some (res, s', w')" by simp
    have "snd (snd res) = None \<longrightarrow> se = None"
      using mk by (cases se) (auto simp: marker_found_def Let_def split: sum.splits option.splits prod.splits)
    then show "case r of (res, s', w') \<Rightarrow>
        reader_ok s' \<and> (snd (snd res) = None \<longrightarrow> stderrDone s' = ClosedChan \<and> broken s' = None)"
      using marker_found_reader [OF mk] I r by auto
  qed (use assms in auto)
  then show ?thesis by simp
qed

lemma ExecuteStream_reader:
  assumes "ExecuteStream p k cmd s w = Some (res, s', w')" and "reader_ok s"
  shows "reader_ok s' \<and> (snd (snd res) = None \<longrightarrow> stderrDone s' = ClosedChan \<and> broken s' = None)"
proof (cases "broken s")
  case (Some e)
  then show ?thesis using assms by (auto simp: ExecuteStream_def execute_locked_def)
next
  case None
  obtain s1 w1 where r1: "reader_runs p s w = (s1, w1)" by fastforce
  obtain t w2 where t: "UnixNano k w1 = (t, w2)" by fastforce
  obtain s3 w3 where r3: "reader_runs p (resetStderr s1) w2 = (s3, w3)" by fastforce
  have b: "broken s1 = broken s" "broken s3 = broken s"
    using r1 r3 by (auto simp: reader_runs_def resetStderr_def split: prod.splits)
  have ok1: "reader_ok s1" by (rule reader_ok_runs [OF assms(2) r1])
  have ok3: "reader_ok s3" by (rule reader_ok_runs [OF _ r3]) (simp add: resetStderr_def ok1)
  let ?s4 = "s3\<lparr>stderrMarker := marker_text t, stderrDone := OpenChan\<rparr>"
  obtain w4 where run: "execute_locked p k cmd s w = Some (res, s', w4)"
    using assms(1) by (auto simp: ExecuteStream_def split: option.splits)
  show ?thesis
  proof (cases "callErr k w3")
    case (Some e)
    then show ?thesis using run None r1 t r3 by (auto simp: execute_locked_def)
  next
    case nc: None
    obtain we w5 where wr: "writeStdin p (script_text cmd (marker_text t)) w3 = (we, w5)" by fastforce
    show ?thesis
    proof (cases we)
      case (Some e)
      then show ?thesis using run None r1 t r3 nc wr by (auto simp: execute_locked_def Let_def)
    next
      case ok: None
      then have "scan_loop p k (marker_text t) False None ?s4 w5 = Some (res, s', w4)"
        using run None r1 t r3 nc wr by (simp add: execute_locked_def Let_def)
      from scan_loop_reader [OF this] None b show ?thesis by simp
    qed
  qed
qed

end
