(* ===== verification/Event_Stream.thy ===== *)
theory Event_Stream
  imports Bash_Shell
begin

text \<open>
  \<open>writeSSE\<close> of \<open>runner/handler.go\<close>: an event as one line of JSON in a stream of server-sent
  events, with the string encoding of \<open>encoding/json\<close>; and a reader of such streams, which shows
  that nothing that a command prints can be taken for another event.
\<close>

section \<open>JSON strings\<close>

definition byte_in :: "nat \<Rightarrow> nat \<Rightarrow> char \<Rightarrow> bool" where
  "byte_in lo hi c \<longleftrightarrow> lo \<le> of_char c \<and> of_char c \<le> hi"

definition cont :: "char \<Rightarrow> bool" where "cont c \<longleftrightarrow> byte_in 128 191 c"

text \<open>The length of the encoded rune in front, for a first byte of 128 or more; 0 if it is not valid.\<close>

definition rune_len :: "string \<Rightarrow> nat" where
  "rune_len s =
     (case s of
        a # b # r \<Rightarrow>
          if byte_in 194 223 a \<and> cont b then 2
          else (case r of
            c # r2 \<Rightarrow>
              if cont c \<and> (byte_in 224 224 a \<and> byte_in 160 191 b \<or> byte_in 225 236 a \<and> cont b \<or>
                  byte_in 237 237 a \<and> byte_in 128 159 b \<or> byte_in 238 239 a \<and> cont b) then 3
              else (case r2 of
                d # _ \<Rightarrow>
                  if cont c \<and> cont d \<and> (byte_in 240 240 a \<and> byte_in 144 191 b \<or>
                      byte_in 241 243 a \<and> cont b \<or> byte_in 244 244 a \<and> byte_in 128 143 b) then 4 else 0
              | [] \<Rightarrow> 0)
          | [] \<Rightarrow> 0)
      | _ \<Rightarrow> 0)"

definition bs :: char where "bs = CHR 0x5C"
definition quote :: char where "quote = CHR 0x22"

text \<open>A byte below 128: the letter behind a backslash, four hexadecimal digits, or itself.\<close>

definition json_ascii :: "char \<Rightarrow> string" where
  "json_ascii c =
     (if c = bs \<or> c = quote then [bs, c]
      else if c = CHR 0x08 then [bs, CHR ''b'']
      else if c = CHR 0x0C then [bs, CHR ''f'']
      else if c = CHR 0x0A then [bs, CHR ''n'']
      else if c = CHR 0x0D then [bs, CHR ''r'']
      else if c = CHR 0x09 then [bs, CHR ''t'']
      else if byte_in 0 31 c \<or> c \<in> set ''<>&''
      then [bs, CHR ''u'', CHR ''0'', CHR ''0'', hex_digit (of_char c div 16), hex_digit (of_char c mod 16)]
      else [c])"

function json_text :: "string \<Rightarrow> string" where
  "json_text [] = []"
| "json_text (c # cs) =
     (if byte_in 0 127 c then json_ascii c @ json_text cs
      else case rune_len (c # cs) of
        0 \<Rightarrow> bs # ''ufffd'' @ json_text cs
      | Suc n \<Rightarrow>
          (if take 3 (c # cs) = [CHR 0xE2, CHR 0x80, CHR 0xA8] then bs # ''u2028''
           else if take 3 (c # cs) = [CHR 0xE2, CHR 0x80, CHR 0xA9] then bs # ''u2029''
           else take (Suc n) (c # cs)) @ json_text (drop n cs))"
  by pat_completeness auto
termination
  by (relation "measure length") auto

definition json_string :: "string \<Rightarrow> string" where
  "json_string s = quote # json_text s @ [quote]"

section \<open>Events\<close>

record sseEvent =
  EventType :: string
  EventData :: string
  EventExitCode :: "int option"

definition json_event :: "sseEvent \<Rightarrow> string" where
  "json_event ev =
     CHR ''{'' # json_string ''type'' @ '':'' @ json_string (EventType ev) @
     (if EventData ev = [] then [] else '','' @ json_string ''data'' @ '':'' @ json_string (EventData ev)) @
     (case EventExitCode ev of None \<Rightarrow> [] | Some n \<Rightarrow> '','' @ json_string ''exitCode'' @ '':'' @ show_int n) @ ''}''"

definition writeSSE :: "sseEvent \<Rightarrow> string" where
  "writeSSE ev = ''data: '' @ json_event ev @ [nl, nl]"

section \<open>A reader\<close>

text \<open>
  The runes of a string that \<open>json_string\<close> has written: a byte stands for itself, an escape for
  the byte or rune that it names.
\<close>

definition hex_byte :: "char \<Rightarrow> char \<Rightarrow> nat" where
  "hex_byte a b =
     (let v = \<lambda>c. (if is_digit c then of_char c - 48 else of_char c - 87) in 16 * v a + v b)"

fun read_string :: "string \<Rightarrow> (string \<times> string) option" where
  "read_string [] = None"
| "read_string (c # s) =
     (if c = quote then Some ([], s)
      else if c \<noteq> bs then map_option (apfst ((#) c)) (read_string s)
      else case s of
        [] \<Rightarrow> None
      | e # s1 \<Rightarrow>
          if e = CHR ''u'' then
            (case s1 of
               a # b # x # y # s2 \<Rightarrow>
                 if [a, b] = ''00'' then map_option (apfst ((#) (char_of (hex_byte x y)))) (read_string s2)
                 else if [a, b, x, y] = ''2028'' then
                   map_option (apfst ((@) [CHR 0xE2, CHR 0x80, CHR 0xA8])) (read_string s2)
                 else if [a, b, x, y] = ''2029'' then
                   map_option (apfst ((@) [CHR 0xE2, CHR 0x80, CHR 0xA9])) (read_string s2)
                 else None
             | _ \<Rightarrow> None)
          else
            (case map_of [(bs, bs), (quote, quote), (CHR ''b'', CHR 0x08), (CHR ''f'', CHR 0x0C),
                (CHR ''n'', CHR 0x0A), (CHR ''r'', CHR 0x0D), (CHR ''t'', CHR 0x09)] e of
               None \<Rightarrow> None
             | Some d \<Rightarrow> map_option (apfst ((#) d)) (read_string s1)))"

definition strip :: "string \<Rightarrow> string \<Rightarrow> string option" where
  "strip p s = (if HasPrefix s p then Some (drop (length p) s) else None)"

definition event_head :: string where
  "event_head = ''data: {'' @ json_string ''type'' @ '':'' @ [quote]"

definition data_head :: string where "data_head = '','' @ json_string ''data'' @ '':'' @ [quote]"

definition code_head :: string where "code_head = '','' @ json_string ''exitCode'' @ '':''"

definition read_data :: "string \<Rightarrow> (string \<times> string) option" where
  "read_data s = (case strip data_head s of None \<Rightarrow> Some ([], s) | Some s1 \<Rightarrow> read_string s1)"

definition read_code :: "string \<Rightarrow> (int option \<times> string) option" where
  "read_code s =
     (case strip code_head s of
        None \<Rightarrow> Some (None, s)
      | Some s1 \<Rightarrow>
          (case Atoi (takeWhile (\<lambda>c. c \<noteq> CHR ''}'') s1) of
             Inl e \<Rightarrow> None | Inr n \<Rightarrow> Some (Some n, dropWhile (\<lambda>c. c \<noteq> CHR ''}'') s1)))"

definition read_event :: "string \<Rightarrow> (sseEvent \<times> string) option" where
  "read_event s =
     do { s1 \<leftarrow> strip event_head s;
          (ty, s2) \<leftarrow> read_string s1;
          (data, s3) \<leftarrow> read_data s2;
          (code, s4) \<leftarrow> read_code s3;
          s5 \<leftarrow> strip (''}'' @ [nl, nl]) s4;
          Some (\<lparr>EventType = ty, EventData = data, EventExitCode = code\<rparr>, s5) }"

text \<open>At most \<open>n\<close> events.\<close>

fun read_events :: "nat \<Rightarrow> string \<Rightarrow> sseEvent list option" where
  "read_events n [] = Some []"
| "read_events 0 s = None"
| "read_events (Suc n) s =
     (case read_event s of None \<Rightarrow> None | Some (ev, s1) \<Rightarrow> map_option ((#) ev) (read_events n s1))"

text \<open>Text that is valid UTF-8.\<close>

function utf8_valid :: "string \<Rightarrow> bool" where
  "utf8_valid [] = True"
| "utf8_valid (c # cs) =
     (if byte_in 0 127 c then utf8_valid cs
      else case rune_len (c # cs) of 0 \<Rightarrow> False | Suc n \<Rightarrow> utf8_valid (drop n cs))"
  by pat_completeness auto
termination
  by (relation "measure length") auto

definition demo_event :: sseEvent where
  "demo_event = \<lparr>EventType = ''stdout'', EventData = [CHR ''<'', nl, quote, bs, CHR 0xC3, CHR 0xA9], EventExitCode = Some (-1)\<rparr>"

section \<open>Reading back\<close>

definition quiet :: "char \<Rightarrow> bool" where "quiet c \<longleftrightarrow> c \<noteq> quote \<and> c \<noteq> bs"

lemma bs_quote [simp]: "bs \<noteq> quote" "quote \<noteq> bs" "bs \<noteq> CHR ''u''" "quote \<noteq> CHR ''u''"
  by (simp_all add: bs_def quote_def)

lemma read_string_quiet:
  "list_all quiet u \<Longrightarrow> read_string (u @ t) = map_option (apfst ((@) u)) (read_string t)"
proof (induction u)
  case Nil
  show ?case by (cases "read_string t") (simp_all add: apfst_def map_prod_def split_beta)
next
  case (Cons c u)
  then show ?case by (cases "read_string t") (simp_all add: quiet_def apfst_def map_prod_def split_beta)
qed

lemma hex_digit_value:
  assumes "n < 16"
  shows "(if is_digit (hex_digit n) then of_char (hex_digit n) - 48 else of_char (hex_digit n) - 87) = n"
proof -
  have "list_all (\<lambda>n. (if is_digit (hex_digit n) then of_char (hex_digit n) - 48 else of_char (hex_digit n) - 87) = n) [0..<16]"
    by (simp add: upt_rec hex_digit_def char_class_defs)
  then show ?thesis using assms by (simp add: list_all_iff)
qed

lemma hex_byte_of_char:
  "char_of (hex_byte (hex_digit (of_char c div 16)) (hex_digit (of_char c mod 16))) = c"
proof -
  let ?n = "of_char c :: nat"
  have "hex_byte (hex_digit (?n div 16)) (hex_digit (?n mod 16)) = 16 * (?n div 16) + ?n mod 16"
    using hex_digit_value [OF of_char_div_16 [of c]] hex_digit_value [of "?n mod 16"]
    by (simp add: hex_byte_def Let_def)
  then show ?thesis by simp
qed

lemma read_string_ascii: "read_string (json_ascii c @ t) = map_option (apfst ((#) c)) (read_string t)"
proof (cases "c \<in> {bs, quote, CHR 0x08, CHR 0x0C, CHR 0x0A, CHR 0x0D, CHR 0x09}")
  case True
  then show ?thesis by (auto simp: json_ascii_def bs_def quote_def)
next
  case False
  show ?thesis
  proof (cases "byte_in 0 31 c \<or> c \<in> set ''<>&''")
    case True
    then have "json_ascii c = [bs, CHR ''u'', CHR ''0'', CHR ''0'', hex_digit (of_char c div 16), hex_digit (of_char c mod 16)]"
      using False by (simp add: json_ascii_def)
    then show ?thesis by (simp add: hex_byte_of_char)
  next
    case plain: False
    then have "json_ascii c = [c]" using False by (auto simp: json_ascii_def)
    then show ?thesis using False by simp
  qed
qed

lemma byte_high: "byte_in lo hi c \<Longrightarrow> 128 \<le> lo \<Longrightarrow> byte_in 128 255 c"
  unfolding byte_in_def using of_char_less_256 [of c] by linarith

lemma rune_bytes:
  assumes "rune_len s = Suc n"
  shows "list_all (byte_in 128 255) (take (Suc n) s) \<and> Suc n \<le> length s"
proof -
  from assms obtain a b r where s: "s = a # b # r"
    by (auto simp: rune_len_def split: list.splits)
  show ?thesis
  proof (cases "byte_in 194 223 a \<and> cont b")
    case True
    then have "n = 1" using assms s by (simp add: rune_len_def)
    then show ?thesis using True s by (auto simp: cont_def elim: byte_high)
  next
    case two: False
    then obtain c r2 where r: "r = c # r2" using assms s by (cases r) (auto simp: rune_len_def)
    show ?thesis
    proof (cases "cont c \<and> (byte_in 224 224 a \<and> byte_in 160 191 b \<or> byte_in 225 236 a \<and> cont b \<or>
        byte_in 237 237 a \<and> byte_in 128 159 b \<or> byte_in 238 239 a \<and> cont b)")
      case True
      then have "n = 2" using assms s r two by (auto simp: rune_len_def)
      then show ?thesis using True s r by (auto simp: cont_def elim: byte_high)
    next
      case three: False
      have len: "(case r2 of [] \<Rightarrow> 0 | d # _ \<Rightarrow>
          if cont c \<and> cont d \<and> (byte_in 240 240 a \<and> byte_in 144 191 b \<or>
              byte_in 241 243 a \<and> cont b \<or> byte_in 244 244 a \<and> byte_in 128 143 b) then 4 else 0) = Suc n"
        using assms unfolding rune_len_def s r list.case if_not_P [OF two] if_not_P [OF three] .
      then obtain d r3 where r2: "r2 = d # r3" by (cases r2) simp_all
      with len have "cont c \<and> cont d \<and> (byte_in 240 240 a \<and> byte_in 144 191 b \<or>
          byte_in 241 243 a \<and> cont b \<or> byte_in 244 244 a \<and> byte_in 128 143 b)" "n = 3"
        by (simp_all split: if_splits)
      then show ?thesis using s r r2 by (auto simp: cont_def elim: byte_high)
    qed
  qed
qed

lemma high_quiet: "byte_in 128 255 c \<Longrightarrow> quiet c \<and> c \<noteq> nl"
  by (auto simp: byte_in_def quiet_def quote_def bs_def nl_def)

lemma read_string_json: "utf8_valid s \<Longrightarrow> read_string (json_text s @ quote # t) = Some (s, t)"
proof (induction s rule: json_text.induct)
  case 1
  then show ?case by simp
next
  case (2 c cs)
  show ?case
  proof (cases "byte_in 0 127 c")
    case True
    then show ?thesis using 2 by (simp add: read_string_ascii)
  next
    case False
    then obtain n where n: "rune_len (c # cs) = Suc n" and valid: "utf8_valid (drop n cs)"
      using "2.prems" by (auto split: nat.splits)
    have IH: "read_string (json_text (drop n cs) @ quote # t) = Some (drop n cs, t)"
      by (rule "2.IH"(3) [OF False n valid])
    note len = rune_bytes [OF n]
    show ?thesis
    proof (cases "take 3 (c # cs) \<in> {[CHR 0xE2, CHR 0x80, CHR 0xA8], [CHR 0xE2, CHR 0x80, CHR 0xA9]}")
      case True
      then obtain z where z: "take 3 (c # cs) = [CHR 0xE2, CHR 0x80, z]" "z = CHR 0xA8 \<or> z = CHR 0xA9" by auto
      then obtain cs' where cs: "c = CHR 0xE2" "cs = CHR 0x80 # z # cs'"
        by (metis append_Cons append_take_drop_id list.inject)
      then have "n = 2" using n z(2) by (auto simp: rune_len_def cont_def byte_in_def)
      then have "read_string (json_text cs' @ quote # t) = Some (cs', t)" using IH cs by simp
      then show ?thesis using False n cs z(2) \<open>n = 2\<close> by (elim disjE) simp_all
    next
      case plain: False
      have other: "take 3 (c # cs) \<noteq> [CHR 0xE2, CHR 0x80, CHR 0xA8]" "take 3 (c # cs) \<noteq> [CHR 0xE2, CHR 0x80, CHR 0xA9]"
        using plain by blast+
      have "list_all quiet (take (Suc n) (c # cs))" using len high_quiet by (auto simp: list_all_iff)
      note copied = read_string_quiet [OF this, of "json_text (drop n cs) @ quote # t"]
      have "json_text (c # cs) = take (Suc n) (c # cs) @ json_text (drop n cs)"
        unfolding json_text.simps(2) if_not_P [OF False] n nat.case if_not_P [OF other(1)] if_not_P [OF other(2)] ..
      then have "read_string (json_text (c # cs) @ quote # t) = Some (take (Suc n) (c # cs) @ drop n cs, t)"
        using copied IH by (simp del: take_Suc_Cons json_text.simps read_string.simps)
      then show ?thesis by simp
    qed
  qed
qed

lemma json_literals:
  "json_string ''type'' = [quote] @ ''type'' @ [quote]" "json_string ''data'' = [quote] @ ''data'' @ [quote]"
  "json_string ''exitCode'' = [quote] @ ''exitCode'' @ [quote]"
  by code_simp+

lemma strip_append [simp]: "strip p (p @ s) = Some s"
  by (simp add: strip_def)

definition event_ok :: "sseEvent \<Rightarrow> bool" where
  "event_ok ev \<longleftrightarrow> utf8_valid (EventType ev) \<and> utf8_valid (EventData ev) \<and>
     (case EventExitCode ev of None \<Rightarrow> True | Some n \<Rightarrow> - (2 ^ 63) \<le> n \<and> n < 2 ^ 63)"

lemma show_int_no_brace: "CHR ''}'' \<notin> set (show_int n)"
proof -
  have "CHR ''}'' \<notin> set (show_nat m)" for m
    using show_nat_digits [of m] by (auto simp: list_all_iff char_class_defs)
  then show ?thesis by (simp add: show_int_def)
qed

lemma read_data_law:
  assumes "utf8_valid d" and "t = [] \<or> hd t = CHR ''}'' \<or> HasPrefix t code_head"
  shows "read_data ((if d = [] then [] else '','' @ json_string ''data'' @ '':'' @ json_string d) @ t) = Some (d, t)"
proof (cases "d = []")
  case True
  have "strip data_head t = None"
    using assms(2) by (cases t) (auto simp: strip_def data_head_def code_head_def json_literals prefix_def)
  then show ?thesis using True by (simp add: read_data_def)
next
  case False
  then have "(if d = [] then [] else '','' @ json_string ''data'' @ '':'' @ json_string d) @ t =
      data_head @ json_text d @ quote # t" by (simp add: data_head_def json_string_def)
  then show ?thesis using read_string_json [OF assms(1)] by (simp only: read_data_def strip_append option.case)
qed

lemma read_code_law:
  assumes "case x of None \<Rightarrow> True | Some n \<Rightarrow> - (2 ^ 63) \<le> n \<and> n < 2 ^ 63"
  shows "read_code ((case x of None \<Rightarrow> [] | Some n \<Rightarrow> '','' @ json_string ''exitCode'' @ '':'' @ show_int n) @ CHR ''}'' # t) =
    Some (x, CHR ''}'' # t)"
proof (cases x)
  case None
  then show ?thesis by (simp add: read_code_def strip_def code_head_def)
next
  case (Some n)
  then have "(case x of None \<Rightarrow> [] | Some n \<Rightarrow> '','' @ json_string ''exitCode'' @ '':'' @ show_int n) @ CHR ''}'' # t =
      code_head @ show_int n @ CHR ''}'' # t" by (simp add: code_head_def)
  moreover have "Atoi (show_int n) = Inr n" using assms Some by (intro Atoi_show_int) simp_all
  ultimately show ?thesis
    using Some takeWhile_neq_append [OF show_int_no_brace, of n t] dropWhile_neq_append [OF show_int_no_brace, of n t]
    by (simp only: read_code_def strip_append option.case sum.case)
qed

lemma read_event_writeSSE:
  assumes "event_ok ev"
  shows "read_event (writeSSE ev @ t) = Some (ev, t)"
proof -
  define code where "code = (case EventExitCode ev of None \<Rightarrow> [] | Some n \<Rightarrow> '','' @ json_string ''exitCode'' @ '':'' @ show_int n)
    @ CHR ''}'' # nl # nl # t"
  define data where "data = (if EventData ev = [] then [] else '','' @ json_string ''data'' @ '':'' @ json_string (EventData ev)) @ code"
  have shape: "writeSSE ev @ t = event_head @ json_text (EventType ev) @ quote # data"
    by (simp add: writeSSE_def json_event_def json_string_def event_head_def data_def code_def)
  have "read_string (json_text (EventType ev) @ quote # data) = Some (EventType ev, data)"
    using assms by (intro read_string_json) (simp add: event_ok_def)
  moreover have "read_data data = Some (EventData ev, code)"
    unfolding data_def
    by (rule read_data_law)
      (use assms in \<open>auto simp: event_ok_def code_def code_head_def prefix_def split: option.splits\<close>)
  moreover have "read_code code = Some (EventExitCode ev, CHR ''}'' # nl # nl # t)"
    unfolding code_def by (rule read_code_law) (use assms in \<open>simp add: event_ok_def\<close>)
  moreover have "strip (''}'' @ [nl, nl]) (CHR ''}'' # nl # nl # t) = Some t" by (simp add: strip_def)
  ultimately show ?thesis unfolding shape by (simp add: read_event_def)
qed

lemma nl_not_in_ascii: "nl \<notin> set (json_ascii c)"
proof -
  have "hex_digit n \<noteq> nl" if "n < 16" for n
    using is_hex_lower_hex_digit [OF that] by (auto simp: char_class_defs nl_def)
  note hex = this [THEN not_sym]
  have "nl \<notin> {hex_digit (of_char c div 16), hex_digit (of_char c mod 16)}"
    using hex [OF of_char_div_16 [of c]] hex [of "of_char c mod 16"] by simp
  moreover have "nl \<notin> set [bs, quote, CHR ''b'', CHR ''f'', CHR ''n'', CHR ''r'', CHR ''t'', CHR ''u'', CHR ''0'']"
    by (simp add: nl_def bs_def quote_def)
  moreover have "c \<noteq> CHR 0x0A \<Longrightarrow> nl \<noteq> c" by (auto simp: nl_def)
  ultimately show ?thesis by (auto simp: json_ascii_def)
qed

lemma nl_not_in_json: "nl \<notin> set (json_text s)"
proof (induction s rule: json_text.induct)
  case (2 c cs)
  show ?case
  proof (cases "byte_in 0 127 c")
    case True
    then show ?thesis using 2 nl_not_in_ascii by simp
  next
    case False
    show ?thesis
    proof (cases "rune_len (c # cs)")
      case 0
      then show ?thesis using False 2 by (simp add: bs_def nl_def)
    next
      case (Suc n)
      have "nl \<notin> set (take (Suc n) (c # cs))"
        using rune_bytes [OF Suc] high_quiet by (auto simp: list_all_iff)
      moreover have "nl \<notin> set (bs # ''u2028'')" "nl \<notin> set (bs # ''u2029'')" by (simp_all add: bs_def nl_def)
      ultimately show ?thesis using False Suc "2.IH"(3) [OF False Suc]
        by (simp del: take_Suc_Cons)
    qed
  qed
qed simp

text \<open>
  C39: what a command prints stays inside its event. Whatever bytes it prints, an event is one line
  and the blank line after it; and a reader of the stream gets back the events that were written,
  with their texts as they were, for any texts in UTF-8.
\<close>

theorem event_stream_roundtrip:
  assumes "\<And>ev. ev \<in> set evs \<Longrightarrow> event_ok ev" and "length evs \<le> n"
  shows "nl \<notin> set (json_event any) \<and> read_events n (concat (map writeSSE evs)) = Some evs"
proof
  have "nl \<notin> set (json_string t)" for t using nl_not_in_json [of t] by (simp add: json_string_def quote_def nl_def)
  then show "nl \<notin> set (json_event any)"
    using nl_not_in_show_int by (simp add: json_event_def split: option.splits) (simp add: nl_def)
  show "read_events n (concat (map writeSSE evs)) = Some evs"
    using assms
  proof (induction evs arbitrary: n)
    case (Cons ev evs)
    then obtain m where m: "n = Suc m" "length evs \<le> m" by (cases n) auto
    have "writeSSE ev @ concat (map writeSSE evs) \<noteq> []" by (simp add: writeSSE_def)
    then obtain c cs where c: "writeSSE ev @ concat (map writeSSE evs) = c # cs" by (cases "writeSSE ev @ concat (map writeSSE evs)") auto
    have "read_event (c # cs) = Some (ev, concat (map writeSSE evs))"
      unfolding c [symmetric] by (rule read_event_writeSSE) (rule Cons.prems, simp)
    moreover have "read_events m (concat (map writeSSE evs)) = Some evs" using Cons m by simp
    ultimately show ?case using m c by simp
  qed simp
qed

theorem event_stream_roundtrip_witness:
  "read_events 2 (concat (map writeSSE [demo_event, demo_event])) = Some [demo_event, demo_event]"
proof -
  have "event_ok demo_event" by code_simp
  then show ?thesis using event_stream_roundtrip [of "[demo_event, demo_event]" 2 demo_event] by simp
qed

end
