(* ===== verification/Runner_Registration.thy ===== *)
theory Runner_Registration
  imports Runner_Identity Event_Stream
begin

text \<open>
  \<open>runner/register.go\<close>: a runner registers with the broker until it is told 201, and deregisters
  once when it shuts down.
\<close>

section \<open>Registration\<close>

text \<open>
  \<open>httpPost\<close> gives the status of the answer. \<open>retry_wait\<close> is the \<open>select\<close> between the context and
  the timer: the error of the context if that is what it takes.
\<close>

record 'w registerDeps =
  brokerURL :: string
  identity :: Identity
  httpPost :: "string \<Rightarrow> string \<Rightarrow> string \<Rightarrow> 'w \<Rightarrow> (go_error + nat) \<times> 'w"
  retry_wait :: "'w \<Rightarrow> go_error option \<times> 'w"
  reg_logf :: "string \<Rightarrow> 'w \<Rightarrow> 'w"

definition registerRetryInterval :: string where "registerRetryInterval = ''3s''"

text \<open>The body of the request, and \<open>json.Marshal\<close> of it under the names of its tags.\<close>

record register_body =
  BodyRunnerID :: string
  BodyPrivateHost :: string

definition json_register_body :: "register_body \<Rightarrow> string" where
  "json_register_body b =
     ''{'' @ json_string ''runnerId'' @ '':'' @ json_string (BodyRunnerID b) @ '','' @
     json_string ''privateHost'' @ '':'' @ json_string (BodyPrivateHost b) @ ''}''"

definition register_payload :: "Identity \<Rightarrow> string" where
  "register_payload i =
     json_register_body \<lparr>BodyRunnerID = IdentityRunnerID i, BodyPrivateHost = IdentityPrivateHost i\<rparr>"

definition register_url :: "'w registerDeps \<Rightarrow> string" where
  "register_url d = brokerURL d @ ''/internal/runners/register''"

text \<open>One request and its line in the log: whether it was answered with 201.\<close>

definition register_once :: "'w registerDeps \<Rightarrow> 'w \<Rightarrow> bool \<times> 'w" where
  "register_once d w =
     (case httpPost d (register_url d) ''application/json'' (register_payload (identity d)) w of
        (Inr code, w1) \<Rightarrow>
          if code = 201
          then (True, reg_logf d (''registered with broker: id='' @ IdentityRunnerID (identity d) @ '' host='' @
                        IdentityPrivateHost (identity d)) w1)
          else (False, reg_logf d (''broker registration returned '' @ show_nat code @ '', retrying in '' @
                        registerRetryInterval) w1)
      | (Inl err, w1) \<Rightarrow>
          (False, reg_logf d (''broker registration failed: '' @ error_text err @ '', retrying in '' @
                    registerRetryInterval) w1))"

partial_function (option) register :: "'w registerDeps \<Rightarrow> 'w \<Rightarrow> (go_error option \<times> 'w) option" where
  [code]: "register d w =
     (case register_once d w of
        (created, w1) \<Rightarrow>
          if created then Some (None, w1)
          else (case retry_wait d w1 of
             (Some err, w2) \<Rightarrow> Some (Some err, w2)
           | (None, w2) \<Rightarrow> register d w2))"

section \<open>Deregistration\<close>

record 'w deregisterDeps =
  dereg_brokerURL :: string
  dereg_runnerID :: string
  dereg_newRequest :: "string \<Rightarrow> go_error option"
  httpDo :: "string \<Rightarrow> 'w \<Rightarrow> (go_error + nat) \<times> 'w"
  dereg_logf :: "string \<Rightarrow> 'w \<Rightarrow> 'w"

definition deregister_url :: "'w deregisterDeps \<Rightarrow> string" where
  "deregister_url d = dereg_brokerURL d @ ''/internal/runners/'' @ dereg_runnerID d"

definition deregister :: "'w deregisterDeps \<Rightarrow> 'w \<Rightarrow> go_error option \<times> 'w" where
  "deregister d w =
     (case dereg_newRequest d (deregister_url d) of
        Some err \<Rightarrow> (Some (Wrap ''create deregister request: '' err), w)
      | None \<Rightarrow>
          (case httpDo d (deregister_url d) w of
             (Inl err, w1) \<Rightarrow> (Some (Wrap ''deregister request: '' err), w1)
           | (Inr code, w1) \<Rightarrow>
               if code \<noteq> 204 then (Some (ErrorString (''deregister returned status '' @ show_nat code)), w1)
               else (None, dereg_logf d (''deregistered from broker: id='' @ dereg_runnerID d) w1)))"

text \<open>\<open>defaultHTTPPost\<close>: building the request can fail; otherwise the client does it.\<close>

definition defaultHTTPPost ::
  "(string \<Rightarrow> go_error option) \<Rightarrow> (string \<Rightarrow> string \<Rightarrow> string \<Rightarrow> 'w \<Rightarrow> (go_error + nat) \<times> 'w) \<Rightarrow>
   string \<Rightarrow> string \<Rightarrow> string \<Rightarrow> 'w \<Rightarrow> (go_error + nat) \<times> 'w" where
  "defaultHTTPPost newRequest doPost url contentType payload w =
     (case newRequest url of Some err \<Rightarrow> (Inl err, w) | None \<Rightarrow> doPost url contentType payload w)"

section \<open>When registration returns\<close>

text \<open>One round that goes on to the next: no 201 and no end of the context.\<close>

definition retry_round :: "'w registerDeps \<Rightarrow> 'w \<Rightarrow> 'w option" where
  "retry_round d w =
     (case register_once d w of
        (True, w1) \<Rightarrow> None
      | (False, w1) \<Rightarrow> (case retry_wait d w1 of (Some err, w2) \<Rightarrow> None | (None, w2) \<Rightarrow> Some w2))"

fun retry_rounds :: "'w registerDeps \<Rightarrow> nat \<Rightarrow> 'w \<Rightarrow> 'w option" where
  "retry_rounds d 0 w = Some w"
| "retry_rounds d (Suc n) w = (case retry_round d w of None \<Rightarrow> None | Some w1 \<Rightarrow> retry_rounds d n w1)"

lemma register_unfold:
  "register d w =
     (case retry_round d w of
        Some w1 \<Rightarrow> register d w1
      | None \<Rightarrow> (case register_once d w of (True, w1) \<Rightarrow> Some (None, w1) | (False, w1) \<Rightarrow> Some (retry_wait d w1)))"
  by (subst register.simps) (simp add: retry_round_def split: prod.splits bool.splits option.splits)

lemma register_stops: "retry_rounds d n w = None \<Longrightarrow> register d w \<noteq> None"
proof (induction n arbitrary: w)
  case (Suc n)
  show ?case
  proof (cases "retry_round d w")
    case None
    then show ?thesis by (subst register_unfold) (simp split: prod.splits bool.splits)
  next
    case (Some w1)
    then show ?thesis using Suc by (subst register_unfold) simp
  qed
qed simp

lemma register_rule:
  assumes "register d w = Some r" and "I w"
    and again: "\<And>w w1. I w \<Longrightarrow> retry_round d w = Some w1 \<Longrightarrow> I w1"
    and success: "\<And>w w1. I w \<Longrightarrow> register_once d w = (True, w1) \<Longrightarrow> Q (None, w1)"
    and ended: "\<And>w w1 e w2. I w \<Longrightarrow> register_once d w = (False, w1) \<Longrightarrow> retry_wait d w1 = (Some e, w2) \<Longrightarrow> Q (Some e, w2)"
  shows "Q r"
proof -
  have "d = d \<longrightarrow> I w \<longrightarrow> Q r"
  proof (rule register.raw_induct [where P = "\<lambda>d' w r. d' = d \<longrightarrow> I w \<longrightarrow> Q r", OF _ assms(1)], goal_cases)
    case (1 f d' w r)
    show ?case
    proof (intro impI)
      assume d': "d' = d" and I: "I w"
      note run = 1(2) [unfolded d']
      obtain ok w1 where once: "register_once d w = (ok, w1)" by fastforce
      show "Q r"
      proof (cases ok)
        case True
        then show ?thesis using run once success [OF I] by auto
      next
        case False
        obtain e w2 where wait: "retry_wait d w1 = (e, w2)" by fastforce
        show ?thesis
        proof (cases e)
          case None
          then have "f d w2 = Some r" using run once False wait by simp
          moreover have "retry_round d w = Some w2" using once False wait None by (simp add: retry_round_def)
          ultimately show ?thesis using 1(1) again [OF I] by blast
        next
          case (Some x)
          then show ?thesis using run once False wait ended [OF I] by auto
        qed
      qed
    qed
  qed
  with assms(2) show ?thesis by blast
qed

lemma register_rounds_end:
  assumes "register d w \<noteq> None"
  shows "\<exists>n. retry_rounds d n w = None"
proof -
  from assms obtain r where r: "register d w = Some r" by blast
  have "d = d \<longrightarrow> (\<exists>n. retry_rounds d n w = None)"
  proof (rule register.raw_induct [where P = "\<lambda>d' w r. d' = d \<longrightarrow> (\<exists>n. retry_rounds d n w = None)", OF _ r], goal_cases)
    case (1 f d' w r)
    show ?case
    proof
      assume d': "d' = d"
      show "\<exists>n. retry_rounds d n w = None"
      proof (cases "retry_round d w")
        case None
        then have "retry_rounds d 1 w = None" by simp
        then show ?thesis by blast
      next
        case (Some w1)
        then have "f d w1 = Some r"
          using 1(2) d' by (auto simp: retry_round_def split: prod.splits bool.splits option.splits)
        with 1(1) obtain n where "retry_rounds d n w1 = None" by blast
        then have "retry_rounds d (Suc n) w = None" using Some by simp
        then show ?thesis by blast
      qed
    qed
  qed
  then show ?thesis by blast
qed

text \<open>
  \<open>register\<close> blocks for exactly as long as there is a reason to. It returns if and only if the
  rounds in which the broker did not answer 201 and the context was not done come to an end, after
  any number of them.
\<close>

theorem register_returns_iff:
  "(\<exists>res w'. register d w = Some (res, w')) \<longleftrightarrow> (\<exists>n. retry_rounds d n w = None)"
  using register_stops [of d _ w] register_rounds_end [of d w] by (metis not_None_eq surj_pair)

end
