(* ===== verification/Json_Decode.thy ===== *)
theory Json_Decode
  imports Event_Stream
begin

text \<open>
  The decoder of \<open>encoding/json\<close>, as far as the handlers of the two programs use it: the grammar of
  JSON with the strings of Go, and the filling of a struct whose fields are strings. The texts of
  its errors are arguments.
\<close>

section \<open>Strings\<close>

definition hex_value :: "char \<Rightarrow> nat option" where
  "hex_value c =
     (if is_digit c then Some (of_char c - 48)
      else if in_range (CHR ''a'') (CHR ''f'') c then Some (of_char c - 87)
      else if in_range (CHR ''A'') (CHR ''F'') c then Some (of_char c - 55)
      else None)"

text \<open>The four digits behind \<open>\u\<close>, and what follows them.\<close>

definition four_hex :: "string \<Rightarrow> (nat \<times> string) option" where
  "four_hex s =
     (case s of
        a # b # c # d # r \<Rightarrow>
          do { u \<leftarrow> hex_value a; v \<leftarrow> hex_value b; x \<leftarrow> hex_value c; y \<leftarrow> hex_value d;
               Some (((u * 16 + v) * 16 + x) * 16 + y, r) }
      | _ \<Rightarrow> None)"

definition encode_rune :: "nat \<Rightarrow> string" where
  "encode_rune r =
     (if r < 128 then [char_of r]
      else if r < 2048 then [char_of (192 + r div 64), char_of (128 + r mod 64)]
      else if r < 65536 then [char_of (224 + r div 4096), char_of (128 + r div 64 mod 64), char_of (128 + r mod 64)]
      else [char_of (240 + r div 262144), char_of (128 + r div 4096 mod 64), char_of (128 + r div 64 mod 64),
            char_of (128 + r mod 64)])"

text \<open>U+FFFD, which stands for what is not a valid rune.\<close>

definition replacement :: string where "replacement = [CHR 0xEF, CHR 0xBF, CHR 0xBD]"

text \<open>
  The rune of an escape: two surrogates that belong together are one rune, and any other surrogate
  is replaced.
\<close>

definition escaped_rune :: "string \<Rightarrow> (string \<times> string) option" where
  "escaped_rune s =
     (case four_hex s of
        None \<Rightarrow> None
      | Some (r, s1) \<Rightarrow>
          if r < 55296 \<or> 57344 \<le> r then Some (encode_rune r, s1)
          else (case (if take 2 s1 = [bs, CHR ''u''] then four_hex (drop 2 s1) else None) of
             None \<Rightarrow> Some (replacement, s1)
           | Some (r2, s2) \<Rightarrow>
               if r < 56320 \<and> 56320 \<le> r2 \<and> r2 < 57344
               then Some (encode_rune ((r - 55296) * 1024 + (r2 - 56320) + 65536), s2)
               else Some (replacement, s1)))"

lemma four_hex_length: "four_hex s = Some (r, t) \<Longrightarrow> length t < length s"
  by (auto simp: four_hex_def split: list.splits)

lemma escaped_rune_length: "escaped_rune s = Some (r, t) \<Longrightarrow> length t < length s"
  by (auto simp: escaped_rune_def dest!: four_hex_length split: option.splits if_splits prod.splits)

definition single_escapes :: "(char \<times> char) list" where
  "single_escapes =
     [(quote, quote), (bs, bs), (CHR ''/'', CHR ''/''), (CHR ''b'', CHR 0x08), (CHR ''f'', CHR 0x0C),
      (CHR ''n'', CHR 0x0A), (CHR ''r'', CHR 0x0D), (CHR ''t'', CHR 0x09)]"

text \<open>The string up to its closing quote, and what follows it.\<close>

function unquote :: "string \<Rightarrow> (string \<times> string) option" where
  "unquote [] = None"
| "unquote (c # s) =
     (if c = quote then Some ([], s)
      else if byte_in 0 31 c then None
      else if c = bs then
        (case s of
           [] \<Rightarrow> None
         | e # s1 \<Rightarrow>
             (case (if e = CHR ''u'' then escaped_rune s1 else map_option (\<lambda>d. ([d], s1)) (map_of single_escapes e)) of
                None \<Rightarrow> None
              | Some (r, s2) \<Rightarrow>
                  if length s2 \<le> length s1 then map_option (apfst ((@) r)) (unquote s2) else None))
      else if byte_in 0 127 c then map_option (apfst ((#) c)) (unquote s)
      else (case rune_len (c # s) of
         0 \<Rightarrow> map_option (apfst ((@) replacement)) (unquote s)
       | Suc n \<Rightarrow> map_option (apfst ((@) (c # take n s))) (unquote (drop n s))))"
  by pat_completeness auto
termination
  by (relation "measure length") auto

lemma bs_not_control [simp]: "\<not> byte_in 0 31 bs" "\<not> byte_in 0 31 quote"
  by (simp_all add: byte_in_def bs_def quote_def)

lemma unquote_step:
  assumes "unquote (c # s) = Some (t, r)"
  shows "r = s \<or> (\<exists>s' t'. unquote s' = Some (t', r) \<and> length s' \<le> length s)"
proof (cases "c = quote \<or> byte_in 0 31 c \<or> c = bs")
  case True
  show ?thesis
  proof (cases "c = bs")
    case c: True
    then obtain e s1 where s: "s = e # s1" using assms by (cases s) auto
    with assms c show ?thesis by (auto split: option.splits if_splits) (use le_SucI in blast)+
  next
    case False
    with True assms show ?thesis by (cases "c = quote") auto
  qed
next
  case False
  with assms show ?thesis
    by (auto split: if_splits nat.splits)
qed

lemma unquote_length: "unquote s = Some (t, r) \<Longrightarrow> length r < length s"
proof (induction s arbitrary: t rule: length_induct)
  case (1 s)
  then obtain c s' where s: "s = c # s'" by (cases s) auto
  from unquote_step [OF "1.prems" [unfolded s]]
  show ?case
  proof (elim disjE exE conjE)
    fix u t' assume u: "unquote u = Some (t', r)" "length u \<le> length s'"
    with "1.IH" s have "length r < length u" by simp
    with u(2) s show ?thesis by simp
  qed (simp add: s)
qed

section \<open>Values\<close>

datatype json_value =
    JNull
  | JBool bool
  | JNumber string
  | JString string
  | JArray "json_value list"
  | JObject "(string \<times> json_value) list"

definition json_space :: "char \<Rightarrow> bool" where
  "json_space c \<longleftrightarrow> c \<in> {CHR 0x20, CHR 0x09, CHR 0x0A, CHR 0x0D}"

definition skip_space :: "string \<Rightarrow> string" where
  "skip_space s = dropWhile json_space s"

lemma skip_space_length: "length (skip_space s) \<le> length s"
  by (simp add: skip_space_def length_dropWhile_le)

text \<open>At least one digit.\<close>

definition some_digits :: "string \<Rightarrow> (string \<times> string) option" where
  "some_digits s = (if takeWhile is_digit s = [] then None else Some (takeWhile is_digit s, dropWhile is_digit s))"

text \<open>The input behind a token, after any white space.\<close>

definition token :: "char \<Rightarrow> string \<Rightarrow> string option" where
  "token c s = strip [c] (skip_space s)"

lemma strip_length: "strip p s = Some r \<Longrightarrow> length s = length p + length r"
  by (auto simp: strip_def prefix_def split: if_splits)

lemma token_length: "token c s = Some r \<Longrightarrow> length r < length s"
  using strip_length [of "[c]" "skip_space s" r] skip_space_length [of s] by (simp add: token_def)

definition number_whole :: "string \<Rightarrow> (string \<times> string) option" where
  "number_whole s = (case strip ''0'' s of Some r \<Rightarrow> Some (''0'', r) | None \<Rightarrow> some_digits s)"

definition number_fraction :: "string \<Rightarrow> (string \<times> string) option" where
  "number_fraction s =
     (case strip ''.'' s of Some r \<Rightarrow> map_option (apfst ((@) ''.'')) (some_digits r) | None \<Rightarrow> Some ([], s))"

definition number_exponent :: "string \<Rightarrow> (string \<times> string) option" where
  "number_exponent s =
     (if s \<noteq> [] \<and> hd s \<in> set ''eE'' then
        (let sign = (if tl s \<noteq> [] \<and> hd (tl s) \<in> set ''+-'' then take 1 (tl s) else [])
         in map_option (apfst ((@) (hd s # sign))) (some_digits (drop (length sign) (tl s))))
      else Some ([], s))"

definition read_number :: "string \<Rightarrow> (string \<times> string) option" where
  "read_number s =
     (let sign = (if s \<noteq> [] \<and> hd s = CHR ''-'' then ''-'' else [])
      in do { (whole, s1) \<leftarrow> number_whole (drop (length sign) s);
              (frac, s2) \<leftarrow> number_fraction s1;
              (exponent, s3) \<leftarrow> number_exponent s2;
              Some (sign @ whole @ frac @ exponent, s3) })"

definition read_word :: "string \<Rightarrow> (json_value \<times> string) option" where
  "read_word s =
     (case strip ''null'' s of Some r \<Rightarrow> Some (JNull, r) | None \<Rightarrow>
     (case strip ''true'' s of Some r \<Rightarrow> Some (JBool True, r) | None \<Rightarrow>
     (case strip ''false'' s of Some r \<Rightarrow> Some (JBool False, r) | None \<Rightarrow>
     map_option (apfst JNumber) (read_number s))))"

text \<open>
  A value, the elements of an array and the members of an object, from where they start to behind
  their end. \<open>depth\<close> is the number of arrays and objects that may still be opened. That the rest of
  an input is shorter than the input always holds (\<open>parse_shorter\<close>); it is tested because only so
  can the definitions be seen to end.
\<close>

definition max_nesting :: int where "max_nesting = 10000"

function parse_value :: "int \<Rightarrow> string \<Rightarrow> (json_value \<times> string) option"
  and parse_elements :: "int \<Rightarrow> string \<Rightarrow> (json_value list \<times> string) option"
  and parse_members :: "int \<Rightarrow> string \<Rightarrow> ((string \<times> json_value) list \<times> string) option" where
  "parse_value depth s =
     (case token quote s of Some r \<Rightarrow> map_option (apfst JString) (unquote r) | None \<Rightarrow>
     (case token (CHR ''['') s of
        Some r \<Rightarrow>
          if depth \<le> 0 \<or> length s \<le> length r then None
          else (case token (CHR '']'') r of
             Some r1 \<Rightarrow> Some (JArray [], r1)
           | None \<Rightarrow> map_option (apfst JArray) (parse_elements (depth - 1) r))
      | None \<Rightarrow>
     (case token (CHR ''{'') s of
        Some r \<Rightarrow>
          if depth \<le> 0 \<or> length s \<le> length r then None
          else (case token (CHR ''}'') r of
             Some r1 \<Rightarrow> Some (JObject [], r1)
           | None \<Rightarrow> map_option (apfst JObject) (parse_members (depth - 1) r))
      | None \<Rightarrow> read_word (skip_space s))))"
| "parse_elements depth s =
     (case parse_value depth s of
        None \<Rightarrow> None
      | Some (v, r) \<Rightarrow>
          (case token (CHR '','') r of
             Some r1 \<Rightarrow>
               if length r1 < length s then map_option (apfst ((#) v)) (parse_elements depth r1) else None
           | None \<Rightarrow> (case token (CHR '']'') r of Some r1 \<Rightarrow> Some ([v], r1) | None \<Rightarrow> None)))"
| "parse_members depth s =
     (case Option.bind (token quote s) unquote of
        None \<Rightarrow> None
      | Some (k, r) \<Rightarrow>
          (case token (CHR '':'') r of
             None \<Rightarrow> None
           | Some r1 \<Rightarrow>
               if length s \<le> length r1 then None
               else (case parse_value depth r1 of
                  None \<Rightarrow> None
                | Some (v, r2) \<Rightarrow>
                    (case token (CHR '','') r2 of
                       Some r3 \<Rightarrow>
                         if length r3 < length s then map_option (apfst ((#) (k, v))) (parse_members depth r3) else None
                     | None \<Rightarrow> (case token (CHR ''}'') r2 of Some r3 \<Rightarrow> Some ([(k, v)], r3) | None \<Rightarrow> None)))))"
  by pat_completeness auto
termination
  by (relation "measure (\<lambda>x. case x of Inl (d, s) \<Rightarrow> 2 * length s | Inr (Inl (d, s)) \<Rightarrow> 2 * length s + 1
      | Inr (Inr (d, s)) \<Rightarrow> 2 * length s + 1)") auto

lemma some_digits_length: "some_digits s = Some (d, r) \<Longrightarrow> length r < length s"
  by (cases s) (auto simp: some_digits_def less_Suc_eq_le length_dropWhile_le split: if_splits)

lemma read_number_length: "read_number s = Some (n, r) \<Longrightarrow> length r < length s"
proof -
  have w: "length r < length s" if "number_whole s = Some (n, r)" for n r s
    using that by (auto simp: number_whole_def dest: strip_length some_digits_length split: option.splits)
  have f: "length r \<le> length s" if "number_fraction s = Some (n, r)" for n r s
    using that by (auto simp: number_fraction_def dest!: strip_length some_digits_length split: option.splits)
  have x: "length r \<le> length s" if "number_exponent s = Some (n, r)" for n r s
    using that by (auto simp: number_exponent_def Let_def dest!: some_digits_length split: if_splits)
  assume "read_number s = Some (n, r)"
  then obtain k a s1 b s2 c where "number_whole (drop k s) = Some (a, s1)" "number_fraction s1 = Some (b, s2)"
      "number_exponent s2 = Some (c, r)"
    by (auto simp: read_number_def Let_def)
  from w [OF this(1)] f [OF this(2)] x [OF this(3)] show ?thesis by simp
qed

lemma read_word_length: "read_word s = Some (v, r) \<Longrightarrow> length r < length s"
  by (auto simp: read_word_def dest!: strip_length read_number_length split: option.splits)

lemma parse_shorter:
  "parse_value d s = Some (v, r) \<Longrightarrow> length r < length s"
  "parse_elements d s = Some (vs, r) \<Longrightarrow> length r < length s"
  "parse_members d s = Some (ms, r) \<Longrightarrow> length r < length s"
proof (induction d s and d s and d s arbitrary: v r and vs r and ms r rule: parse_value_parse_elements_parse_members.induct)
  case (1 d s)
  show ?case
  proof (cases "token quote s")
    case q: (Some t)
    then show ?thesis using "1.prems" token_length [OF q] by (auto dest!: unquote_length)
  next
    case q: None
    show ?thesis
    proof (cases "token (CHR ''['') s")
      case a: (Some t)
      note t = token_length [OF a]
      show ?thesis
      proof (cases "token (CHR '']'') t")
        case (Some u)
        then show ?thesis using "1.prems" q a t token_length [OF Some] by (auto split: if_splits)
      next
        case None
        then obtain vs where "parse_elements (d - 1) t = Some (vs, r)" "\<not> (d \<le> 0 \<or> length s \<le> length t)"
          using "1.prems" q a by (auto split: if_splits)
        with "1.IH"(2) [OF q a _ None] t show ?thesis by auto
      qed
    next
      case a: None
      show ?thesis
      proof (cases "token (CHR ''{'') s")
        case o: (Some t)
        note t = token_length [OF o]
        show ?thesis
        proof (cases "token (CHR ''}'') t")
          case (Some u)
          then show ?thesis using "1.prems" q a o t token_length [OF Some] by (auto split: if_splits)
        next
          case None
          then obtain ms where "parse_members (d - 1) t = Some (ms, r)" "\<not> (d \<le> 0 \<or> length s \<le> length t)"
            using "1.prems" q a o by (auto split: if_splits)
          with "1.IH"(1) [OF q a o _ None] t show ?thesis by auto
        qed
      next
        case None
        then have "read_word (skip_space s) = Some (v, r)" using "1.prems" q a by simp
        from read_word_length [OF this] skip_space_length [of s] show ?thesis by simp
      qed
    qed
  qed
next
  case (2 d s)
  then obtain v1 r1 where v: "parse_value d s = Some (v1, r1)" by (cases "parse_value d s") auto
  note r1 = "2.IH"(1) [OF v]
  show ?case
  proof (cases "token (CHR '','') r1")
    case (Some t)
    note t = token_length [OF Some]
    then have "length t < length s" using r1 by simp
    with "2.prems" v Some obtain ws where "parse_elements d t = Some (ws, r)" by (auto split: if_splits)
    with "2.IH"(2) [OF v refl Some] \<open>length t < length s\<close> show ?thesis by simp
  next
    case None
    with "2.prems" v r1 show ?thesis by (auto split: option.splits dest!: token_length)
  qed
next
  case (3 d s)
  then obtain q k r0 where k: "token quote s = Some q" "unquote q = Some (k, r0)"
    by (cases "Option.bind (token quote s) unquote") auto
  then have bind: "Option.bind (token quote s) unquote = Some (k, r0)" by simp
  have r0: "length r0 < length s" using token_length [OF k(1)] unquote_length [OF k(2)] by simp
  from "3.prems" bind obtain r1 where c: "token (CHR '':'') r0 = Some r1" by (cases "token (CHR '':'') r0") auto
  have r1: "\<not> length s \<le> length r1" using token_length [OF c] r0 by simp
  from "3.prems" bind c r1 obtain v1 r2 where v: "parse_value d r1 = Some (v1, r2)" by (cases "parse_value d r1") auto
  have r2: "length r2 < length s" using "3.IH"(1) [OF bind refl c r1 v] r1 by simp
  show ?case
  proof (cases "token (CHR '','') r2")
    case (Some t)
    note t = token_length [OF Some]
    then have "length t < length s" using r2 by simp
    with "3.prems" bind c r1 v Some obtain ws where "parse_members d t = Some (ws, r)" by (auto split: if_splits)
    with "3.IH"(2) [OF bind refl c r1 v refl Some] \<open>length t < length s\<close> show ?thesis by simp
  next
    case None
    with "3.prems" bind c r1 v r2 show ?thesis by (auto split: option.splits dest!: token_length)
  qed
qed
section \<open>Filling a struct\<close>

text \<open>
  Keys are compared exactly and, when no field has that name, with the case folded: of the runes that
  are not ASCII, only the long s and the Kelvin sign fold to a letter of a name.
\<close>

definition lower :: "char \<Rightarrow> char" where
  "lower c = (if in_range (CHR ''A'') (CHR ''Z'') c then char_of ((of_char c :: nat) + 32) else c)"

fun fold_name :: "string \<Rightarrow> string" where
  "fold_name [] = []"
| "fold_name (c # s) =
     (if c = CHR 0xC5 \<and> take 1 s = [CHR 0xBF] then CHR ''s'' # fold_name (drop 1 s)
      else if c = CHR 0xE2 \<and> take 2 s = [CHR 0x84, CHR 0xAA] then CHR ''k'' # fold_name (drop 2 s)
      else lower c # fold_name s)"

definition struct_field :: "string list \<Rightarrow> string \<Rightarrow> string option" where
  "struct_field names k =
     (if k \<in> set names then Some k else find (\<lambda>f. fold_name f = fold_name k) names)"

text \<open>
  A string is put into the field of its key, \<open>null\<close> leaves it; any other value is an error that is
  kept while the rest is filled in. Keys without a field are passed over, and later members win.
\<close>

fun fill_field :: "string list \<Rightarrow> string \<times> json_value \<Rightarrow> (string \<Rightarrow> string) \<times> bool \<Rightarrow> (string \<Rightarrow> string) \<times> bool" where
  "fill_field names (k, v) (vals, bad) =
     (case struct_field names k of
        None \<Rightarrow> (vals, bad)
      | Some f \<Rightarrow> (case v of JString t \<Rightarrow> (vals(f := t), bad) | JNull \<Rightarrow> (vals, bad) | _ \<Rightarrow> (vals, True)))"

text \<open>
  What \<open>Decode\<close> makes of the first value of a body, for a struct of strings: what follows the value
  is not looked at.
\<close>

definition decode_strings :: "(string \<Rightarrow> string) \<Rightarrow> string list \<Rightarrow> string \<Rightarrow> go_error + (string \<Rightarrow> string)" where
  "decode_strings error_for names b =
     (case parse_value max_nesting b of
        Some (JNull, _) \<Rightarrow> Inr (\<lambda>_. [])
      | Some (JObject ms, _) \<Rightarrow>
          (case fold (fill_field names) ms (\<lambda>_. [], False) of
             (vals, bad) \<Rightarrow> if bad then Inl (ErrorString (error_for b)) else Inr vals)
      | _ \<Rightarrow> Inl (ErrorString (error_for b)))"

section \<open>Reading what the encoder has written\<close>

text \<open>The encoder replaces what is not UTF-8, so this is what a reader gets.\<close>

function valid_text :: "string \<Rightarrow> string" where
  "valid_text [] = []"
| "valid_text (c # s) =
     (if byte_in 0 127 c then c # valid_text s
      else case rune_len (c # s) of
        0 \<Rightarrow> replacement @ valid_text s
      | Suc n \<Rightarrow> c # take n s @ valid_text (drop n s))"
  by pat_completeness auto
termination
  by (relation "measure length") auto

lemma valid_text_ascii: "list_all (byte_in 0 127) (valid_text s) \<Longrightarrow> valid_text s = s \<and> list_all (byte_in 0 127) s"
proof (induction s rule: valid_text.induct)
  case (2 c s)
  show ?case
  proof (cases "byte_in 0 127 c")
    case True
    then show ?thesis using 2 by simp
  next
    case False
    then show ?thesis using "2.prems" by (cases "rune_len (c # s)") (simp_all add: replacement_def byte_in_def)
  qed
qed simp

lemma hex_value_digit: "n < 16 \<Longrightarrow> hex_value (hex_digit n) = Some n"
proof -
  have "list_all (\<lambda>n. hex_value (hex_digit n) = Some n) [0..<16]"
    by (simp add: upt_rec hex_value_def hex_digit_def char_class_defs)
  then show "n < 16 \<Longrightarrow> hex_value (hex_digit n) = Some n" by (simp add: list_all_iff)
qed

lemma escaped_byte:
  assumes "byte_in 0 127 c"
  shows "escaped_rune (CHR ''0'' # CHR ''0'' # hex_digit (of_char c div 16) # hex_digit (of_char c mod 16) # t) = Some ([c], t)"
proof -
  let ?n = "of_char c :: nat"
  have zero: "hex_value (CHR ''0'') = Some 0" by (simp add: hex_value_def char_class_defs)
  have "?n < 128" using assms by (simp add: byte_in_def)
  moreover have "?n div 16 * 16 + ?n mod 16 = ?n" by simp
  ultimately show ?thesis
    using hex_value_digit [OF of_char_div_16 [of c]] hex_value_digit [of "?n mod 16"]
    by (simp add: escaped_rune_def four_hex_def zero encode_rune_def)
qed

lemma unquote_escape:
  assumes "e \<noteq> CHR ''u''" and "map_of single_escapes e = Some d"
  shows "unquote (bs # e # t) = map_option (apfst ((#) d)) (unquote t)"
  using assms by (simp add: apfst_def map_prod_def cong: option.case_cong)

lemma unquote_ascii:
  assumes "byte_in 0 127 c"
  shows "unquote (json_ascii c @ t) = map_option (apfst ((#) c)) (unquote t)"
proof (cases "c \<in> {bs, quote, CHR 0x08, CHR 0x0C, CHR 0x0A, CHR 0x0D, CHR 0x09}")
  case True
  then have "\<exists>e. json_ascii c = [bs, e] \<and> e \<noteq> CHR ''u'' \<and> map_of single_escapes e = Some c"
    by (auto simp: json_ascii_def single_escapes_def bs_def quote_def)
  then obtain e where e: "json_ascii c = [bs, e]" "e \<noteq> CHR ''u''" "map_of single_escapes e = Some c" by blast
  show ?thesis unfolding e(1) using unquote_escape [OF e(2,3), of t] by (simp del: unquote.simps)
next
  case False
  show ?thesis
  proof (cases "byte_in 0 31 c \<or> c \<in> set ''<>&''")
    case True
    then have "json_ascii c = [bs, CHR ''u'', CHR ''0'', CHR ''0'', hex_digit (of_char c div 16), hex_digit (of_char c mod 16)]"
      using False by (simp add: json_ascii_def)
    moreover have "(@) [c] = (#) c" by (simp add: fun_eq_iff)
    ultimately show ?thesis using escaped_byte [OF assms, of t] by simp
  next
    case plain: False
    then have "json_ascii c = [c]" using False by (auto simp: json_ascii_def)
    then show ?thesis using False plain assms by simp
  qed
qed
lemma unquote_high:
  assumes "\<not> byte_in 0 127 c" and "rune_len (c # s) = Suc n"
  shows "unquote (c # s) = map_option (apfst ((@) (c # take n s))) (unquote (drop n s))"
proof -
  have "c \<noteq> quote" "\<not> byte_in 0 31 c" "c \<noteq> bs" using assms(1) by (auto simp: byte_in_def quote_def bs_def)
  then show ?thesis using assms by simp
qed

lemma rune_len_prefix:
  assumes "rune_len s = Suc n"
  shows "rune_len (take (Suc n) s @ t) = Suc n"
proof -
  from assms obtain a b r where s: "s = a # b # r" by (auto simp: rune_len_def split: list.splits)
  let ?two = "byte_in 194 223 a \<and> cont b"
  let ?lead3 = "byte_in 224 224 a \<and> byte_in 160 191 b \<or> byte_in 225 236 a \<and> cont b \<or>
    byte_in 237 237 a \<and> byte_in 128 159 b \<or> byte_in 238 239 a \<and> cont b"
  let ?lead4 = "byte_in 240 240 a \<and> byte_in 144 191 b \<or> byte_in 241 243 a \<and> cont b \<or> byte_in 244 244 a \<and> byte_in 128 143 b"
  have len: "rune_len (a # b # r') =
      (if ?two then 2 else case r' of [] \<Rightarrow> 0 | c # r2 \<Rightarrow>
        (if cont c \<and> ?lead3 then 3 else case r2 of [] \<Rightarrow> 0 | d # _ \<Rightarrow> (if cont c \<and> cont d \<and> ?lead4 then 4 else 0)))" for r'
    by (simp add: rune_len_def split: list.split)
  show ?thesis
  proof (cases ?two)
    case True
    then have "n = 1" using assms s by (simp add: rune_len_def)
    then show ?thesis using True s by (simp add: rune_len_def)
  next
    case two: False
    note len = len [unfolded if_not_P [OF two]]
    from assms obtain c r2 where r: "r = c # r2" unfolding s len by (cases r) auto
    show ?thesis
    proof (cases "cont c \<and> ?lead3")
      case True
      have "n = 2" using assms unfolding s len r list.case if_P [OF True] by simp
      then have "take (Suc n) s @ t = a # b # c # t" using s r by simp
      then show ?thesis unfolding \<open>n = 2\<close> by (simp only: len list.case if_P [OF True])
    next
      case three: False
      from assms obtain d r3 where r2: "r2 = d # r3" unfolding s len r list.case if_not_P [OF three] by (cases r2) auto
      have four: "cont c \<and> cont d \<and> ?lead4" and n: "n = 3"
        using assms unfolding s len r r2 list.case if_not_P [OF three] by (simp_all split: if_splits)
      have "take (Suc n) s @ t = a # b # c # d # t" using s r r2 n by simp
      then show ?thesis unfolding n by (simp only: len list.case if_not_P [OF three] if_P [OF four])
    qed
  qed
qed

lemma rune_chars:
  "char_of (239::nat) = CHR 0xEF" "char_of (191::nat) = CHR 0xBF" "char_of (189::nat) = CHR 0xBD"
  "char_of (226::nat) = CHR 0xE2" "char_of (128::nat) = CHR 0x80" "char_of (168::nat) = CHR 0xA8"
  "char_of (169::nat) = CHR 0xA9"
  by code_simp+

lemma escaped_literals:
  "escaped_rune (''fffd'' @ t) = Some (replacement, t)"
  "escaped_rune (''2028'' @ t) = Some ([CHR 0xE2, CHR 0x80, CHR 0xA8], t)"
  "escaped_rune (''2029'' @ t) = Some ([CHR 0xE2, CHR 0x80, CHR 0xA9], t)"
  by (simp_all add: escaped_rune_def four_hex_def hex_value_def char_class_defs encode_rune_def replacement_def rune_chars)

lemma unquote_u: "escaped_rune s = Some (r, t) \<Longrightarrow> unquote (bs # CHR ''u'' # s) = map_option (apfst ((@) r)) (unquote t)"
  using escaped_rune_length [of s r t] by simp

lemma unquote_json_text: "unquote (json_text s @ quote # t) = Some (valid_text s, t)"
proof (induction s rule: json_text.induct)
  case 1
  then show ?case by simp
next
  case (2 c s)
  show ?case
  proof (cases "byte_in 0 127 c")
    case True
    then show ?thesis using 2 by (simp add: unquote_ascii del: unquote.simps)
  next
    case False
    show ?thesis
    proof (cases "rune_len (c # s)")
      case 0
      have "json_text (c # s) @ quote # t = bs # CHR ''u'' # ''fffd'' @ json_text s @ quote # t" using False 0 by simp
      then show ?thesis
        using False 0 "2.IH"(2) [OF False 0] unquote_u [OF escaped_literals(1), of "json_text s @ quote # t"]
        by (simp del: unquote.simps json_text.simps)
    next
      case (Suc n)
      note IH = "2.IH"(3) [OF False Suc]
      have valid: "valid_text (c # s) = c # take n s @ valid_text (drop n s)" using False Suc by simp
      let ?rest = "json_text (drop n s) @ quote # t"
      show ?thesis
      proof (cases "take 3 (c # s) \<in> {[CHR 0xE2, CHR 0x80, CHR 0xA8], [CHR 0xE2, CHR 0x80, CHR 0xA9]}")
        case True
        then obtain z where z: "take 3 (c # s) = [CHR 0xE2, CHR 0x80, z]" "z = CHR 0xA8 \<or> z = CHR 0xA9" by auto
        then obtain s' where s: "c = CHR 0xE2" "s = CHR 0x80 # z # s'"
          by (metis append_Cons append_take_drop_id list.inject)
        then have n: "n = 2" using Suc z(2) by (auto simp: rune_len_def cont_def byte_in_def)
        have written: "json_text (c # s) @ quote # t =
            bs # CHR ''u'' # (if z = CHR 0xA8 then ''2028'' else ''2029'') @ ?rest"
          using False Suc s z by auto
        have "unquote (json_text (c # s) @ quote # t) = map_option (apfst ((@) [CHR 0xE2, CHR 0x80, z])) (unquote ?rest)"
          unfolding written
          using z(2) unquote_u [OF escaped_literals(2), of ?rest] unquote_u [OF escaped_literals(3), of ?rest]
          by (auto simp del: unquote.simps)
        then show ?thesis using IH valid s n by simp
      next
        case plain: False
        then have "json_text (c # s) @ quote # t = c # take n s @ ?rest" using False Suc by auto
        moreover have "rune_len (c # take n s @ ?rest) = Suc n" using rune_len_prefix [OF Suc, of ?rest] by simp
        moreover have "take n (take n s @ ?rest) = take n s" "drop n (take n s @ ?rest) = ?rest"
          using rune_bytes [OF Suc] by simp_all
        ultimately show ?thesis using unquote_high [OF False, of "take n s @ ?rest" n] IH valid
          by (simp del: unquote.simps json_text.simps)
      qed
    qed
  qed
qed
lemma token_here [simp]: "\<not> json_space c \<Longrightarrow> token c (c # s) = Some s"
  by (simp add: token_def skip_space_def strip_def)

lemma token_other [simp]: "\<not> json_space x \<Longrightarrow> x \<noteq> c \<Longrightarrow> token c (x # s) = None"
  by (simp add: token_def skip_space_def strip_def)

lemma not_space [simp]:
  "\<not> json_space quote" "\<not> json_space (CHR ''{'')" "\<not> json_space (CHR ''}'')" "\<not> json_space (CHR '','')"
  "\<not> json_space (CHR '':'')" "quote \<noteq> CHR ''{''" "CHR ''{'' \<noteq> quote" "quote \<noteq> CHR ''}''" "CHR ''}'' \<noteq> quote"
  "quote \<noteq> CHR ''[''" "CHR ''{'' \<noteq> CHR ''[''"
  by (simp_all add: json_space_def quote_def)

declare parse_value.simps [simp del] parse_elements.simps [simp del] parse_members.simps [simp del]

lemma parse_string: "parse_value d (json_string v @ t) = Some (JString (valid_text v), t)"
  by (simp add: parse_value.simps json_string_def unquote_json_text del: unquote.simps)

text \<open>An object of strings, as \<open>json.Marshal\<close> writes a struct of them.\<close>

definition json_member :: "string \<times> string \<Rightarrow> string" where
  "json_member m = json_string (fst m) @ '':'' @ json_string (snd m)"

definition json_object :: "(string \<times> string) list \<Rightarrow> string" where
  "json_object ms = ''{'' @ Join (map json_member ms) '','' @ ''}''"

definition valid_member :: "string \<times> string \<Rightarrow> string \<times> json_value" where
  "valid_member m = (valid_text (fst m), JString (valid_text (snd m)))"

lemma parse_json_members:
  "ms \<noteq> [] \<Longrightarrow> parse_members d (Join (map json_member ms) '','' @ CHR ''}'' # t) = Some (map valid_member ms, t)"
proof (induction ms)
  case (Cons m ms)
  define rest where "rest = (if ms = [] then [] else CHR '','' # Join (map json_member ms) '','') @ CHR ''}'' # t"
  have shape: "Join (map json_member (m # ms)) '','' @ CHR ''}'' # t =
      quote # json_text (fst m) @ quote # CHR '':'' # json_string (snd m) @ rest"
    by (cases ms) (simp_all add: json_member_def json_string_def rest_def)
  have next_member: "parse_members d (Join (map json_member ms) '','' @ CHR ''}'' # t) = Some (map valid_member ms, t)"
    if "ms \<noteq> []" using Cons.IH that .
  show ?case
  proof (cases "ms = []")
    case True
    then have "rest = CHR ''}'' # t" by (simp add: rest_def)
    then show ?thesis unfolding shape using True
      by (subst parse_members.simps) (simp add: unquote_json_text parse_string valid_member_def del: unquote.simps)
  next
    case False
    then have "rest = CHR '','' # Join (map json_member ms) '','' @ CHR ''}'' # t" by (simp add: rest_def)
    then show ?thesis unfolding shape using next_member [OF False]
      by (subst parse_members.simps) (simp add: unquote_json_text parse_string valid_member_def del: unquote.simps)
  qed
qed simp

lemma parse_json_object:
  assumes "ms \<noteq> []" and "0 < d"
  shows "parse_value d (json_object ms @ t) = Some (JObject (map valid_member ms), t)"
proof -
  obtain m ms' where ms: "ms = m # ms'" using assms(1) by (cases ms) auto
  have "token (CHR ''}'') (Join (map json_member ms) '','' @ CHR ''}'' # t) = None"
    unfolding ms by (cases ms') (simp_all add: json_member_def json_string_def)
  then show ?thesis
    using parse_json_members [OF assms(1), of "d - 1" t] assms(2) by (subst parse_value.simps) (simp add: json_object_def)
qed

lemma decode_object:
  assumes "ms \<noteq> []" and "\<forall>m\<in>set ms. fst m \<in> set names \<and> valid_text (fst m) = fst m" and "distinct (map fst ms)"
  shows "\<exists>vals. decode_strings error_for names (json_object ms @ t) = Inr vals \<and> (\<forall>(k, v) \<in> set ms. vals k = valid_text v)"
proof -
  have fill: "fold (fill_field names) (map valid_member ms) (vals, False) =
      (\<lambda>k. case map_of (rev ms) k of None \<Rightarrow> vals k | Some v \<Rightarrow> valid_text v, False)"
    if "\<forall>m\<in>set ms. fst m \<in> set names \<and> valid_text (fst m) = fst m" for vals ms
    using that
  proof (induction ms arbitrary: vals)
    case (Cons m ms)
    obtain k v where m: "m = (k, v)" by (cases m)
    have "fill_field names (valid_member m) (vals, False) = (vals(k := valid_text v), False)"
      using Cons.prems m by (simp add: valid_member_def struct_field_def)
    then show ?case using Cons m by (auto simp: fun_eq_iff map_add_def split: option.splits)
  qed simp
  have "decode_strings error_for names (json_object ms @ t) =
      Inr (\<lambda>k. case map_of (rev ms) k of None \<Rightarrow> [] | Some v \<Rightarrow> valid_text v)"
    using parse_json_object [OF assms(1), of max_nesting t] fill [OF assms(2), of "\<lambda>_. []"]
    by (simp add: decode_strings_def max_nesting_def)
  moreover have "map_of (rev ms) k = Some v" if "(k, v) \<in> set ms" for k v
    using that assms(3) by (simp add: rev_map [symmetric])
  ultimately show ?thesis by auto
qed

section \<open>The body of a command request\<close>

text \<open>\<open>executeRequest\<close> of \<open>runner/handler.go\<close> has one field.\<close>

definition decode_executeRequest :: "(string \<Rightarrow> string) \<Rightarrow> string \<Rightarrow> go_error + string" where
  "decode_executeRequest error_for b =
     (case decode_strings error_for [''command''] b of Inl err \<Rightarrow> Inl err | Inr vals \<Rightarrow> Inr (vals ''command''))"

lemma valid_name:
  "valid_text ''command'' = ''command''" "valid_text ''runnerId'' = ''runnerId''"
  "valid_text ''privateHost'' = ''privateHost''"
  by (simp_all add: byte_in_def)

lemma decode_executeRequest_object:
  "decode_executeRequest error_for (json_object [(''command'', cmd)] @ t) = Inr (valid_text cmd)"
  using decode_object [of "[(''command'', cmd)]" "[''command'']" error_for t] valid_name(1)
  by (auto simp: decode_executeRequest_def)

lemma valid_text_id: "utf8_valid s \<Longrightarrow> valid_text s = s"
proof (induction s rule: valid_text.induct)
  case (2 c s)
  show ?case
  proof (cases "byte_in 0 127 c")
    case True
    then show ?thesis using 2 by simp
  next
    case False
    then obtain n where n: "rune_len (c # s) = Suc n" and "utf8_valid (drop n s)"
      using "2.prems" by (auto split: nat.splits)
    with "2.IH"(3) [OF False n] False show ?thesis by simp
  qed
qed simp

end
