(* ===== verification/Runner_Broker.thy ===== *)
theory Runner_Broker
  imports Runner_Registration Json_Decode Handler_Properties
begin

text \<open>
  A runner and its broker together: the requests of \<open>runner/register.go\<close> arrive at the handlers of
  \<open>broker/handler/handler.go\<close>, over a network that may lose requests and answers, with other
  runners and brokers at work on the store.
\<close>

section \<open>The body of a registration\<close>

text \<open>What the broker's \<open>ShouldBindJSON\<close> decodes before it looks at the required fields.\<close>

definition decode_registerRequest :: "(string \<Rightarrow> string) \<Rightarrow> string \<Rightarrow> go_error + registerRequest" where
  "decode_registerRequest error_for b =
     (case decode_strings error_for [''runnerId'', ''privateHost''] b of
        Inl err \<Rightarrow> Inl err
      | Inr vals \<Rightarrow> Inr \<lparr>RequestRunnerID = vals ''runnerId'', RequestPrivateHost = vals ''privateHost''\<rparr>)"

lemma decode_payload:
  "decode_registerRequest error_for (register_payload i) =
     Inr \<lparr>RequestRunnerID = valid_text (IdentityRunnerID i), RequestPrivateHost = valid_text (IdentityPrivateHost i)\<rparr>"
proof -
  let ?ms = "[(''runnerId'', IdentityRunnerID i), (''privateHost'', IdentityPrivateHost i)]"
  have "register_payload i = json_object ?ms @ []"
    by (simp add: register_payload_def json_register_body_def json_object_def json_member_def)
  then show ?thesis
    using decode_object [of ?ms "[''runnerId'', ''privateHost'']" error_for "[]"] valid_name(2,3)
    by (auto simp: decode_registerRequest_def)
qed

text \<open>A host or an ID that the broker accepts is ASCII, so it is the one that was sent.\<close>

lemma ascii_classes: "is_host_char c \<Longrightarrow> byte_in 0 127 c" "is_hex_lower c \<Longrightarrow> byte_in 0 127 c"
  by (auto simp: is_host_char_def char_class_defs byte_in_def)

lemma accepted_as_sent:
  "runnerHostRe (valid_text s) \<Longrightarrow> valid_text s = s" "runnerIDRe (valid_text s) \<Longrightarrow> valid_text s = s"
proof -
  assume "runnerHostRe (valid_text s)"
  then have "list_all (byte_in 0 127) (valid_text s)" using ascii_classes(1) by (auto simp: runnerHostRe_def list_all_iff)
  then show "valid_text s = s" using valid_text_ascii by blast
next
  assume "runnerIDRe (valid_text s)"
  then have "list_all (byte_in 0 127) (valid_text s)" using ascii_classes(2) by (auto simp: runnerIDRe_def list_all_iff)
  then show "valid_text s = s" using valid_text_ascii by blast
qed

section \<open>The network between them\<close>

text \<open>
  \<open>error_for\<close> is the text of a decoding error. A request that is answered has been handled, with the
  body that was sent; one that is not may have been.
\<close>

locale broker_link = shared_broker s st for s :: "'w BrokerService" and st :: "'w \<Rightarrow> runners" +
  fixes h :: "'w Handler" and ctxErr :: "'w ctx" and d :: "'w registerDeps" and u :: "'w deregisterDeps"
    and error_for :: "string \<Rightarrow> string"
  assumes served: "svc h = broker_Service s ctxErr"
    and posted: "httpPost d (register_url d) ''application/json'' payload w = (Inr code, w') \<Longrightarrow>
      \<exists>c c'. json c = decode_registerRequest error_for payload \<and> PostRegister h c w = (c', w') \<and> status c' = code"
    and unanswered: "httpPost d (register_url d) ''application/json'' payload w = (Inl e, w') \<Longrightarrow> others (st w) (st w')"
    and paused: "retry_wait d w = (r, w') \<Longrightarrow> others (st w) (st w')"
    and deleted: "httpDo u (deregister_url u) w = (Inr code, w') \<Longrightarrow>
      \<exists>c c'. params c ''runnerId'' = dereg_runnerID u \<and> DeleteRunner h c w = (c', w') \<and> status c' = code"
    and logs: "st (reg_logf d line w) = st w" "st (dereg_logf u line w) = st w"
begin

definition is_registered :: "'w \<Rightarrow> 'w \<Rightarrow> bool" where
  "is_registered w w' \<longleftrightarrow>
     runnerHostRe (IdentityPrivateHost (identity d)) \<and> runnerIDRe (IdentityRunnerID (identity d)) \<and>
     (\<exists>t. others (st w) t \<and> t (IdentityRunnerID (identity d)) = None \<and>
        st w' = t(IdentityRunnerID (identity d) \<mapsto>
          new_runner (IdentityRunnerID (identity d)) (IdentityPrivateHost (identity d))))"

lemma once:
  assumes "register_once d w = (ok, w')"
  shows "others (st w) (st w') \<and> (ok \<longrightarrow> is_registered w w')"
proof -
  obtain res w1 where post: "httpPost d (register_url d) ''application/json'' (register_payload (identity d)) w = (res, w1)"
    by fastforce
  have w': "st w' = st w1" "ok \<longleftrightarrow> res = Inr 201"
    using assms post by (auto simp: register_once_def logs split: sum.splits if_splits)
  show ?thesis
  proof (cases res)
    case (Inl e)
    then show ?thesis using unanswered post w' by simp
  next
    case (Inr code)
    then obtain c c' where c: "json c = decode_registerRequest error_for (register_payload (identity d))"
        "PostRegister h c w = (c', w1)" "status c' = code"
      using posted post by blast
    note result = post_register [OF c(2) served]
    have "is_registered w w'" if "code = 201"
    proof -
      let ?id = "IdentityRunnerID (identity d)" and ?host = "IdentityPrivateHost (identity d)"
      from result c(1,3) that have ok: "runnerHostRe (valid_text ?host)" "runnerIDRe (valid_text ?id)"
        and added: "\<exists>t. others (st w) t \<and> t (valid_text ?id) = None \<and>
          st w1 = t(valid_text ?id \<mapsto> new_runner (valid_text ?id) (valid_text ?host))"
        by (auto simp: decode_payload)
      from ok added show ?thesis
        unfolding is_registered_def w'(1) accepted_as_sent(1) [OF ok(1)] accepted_as_sent(2) [OF ok(2)] by blast
    qed
    then show ?thesis using result w' Inr by auto
  qed
qed

lemma register_result:
  assumes "register d w = Some (res, w')"
  shows "others (st w) (st w') \<and> (res = None \<longrightarrow> is_registered w w') \<and>
    (\<forall>e. res = Some e \<longrightarrow> (\<exists>w1. retry_wait d w1 = (Some e, w')))"
proof -
  have "case (res, w') of (res, w') \<Rightarrow> others (st w) (st w') \<and> (res = None \<longrightarrow> is_registered w w') \<and>
    (\<forall>e. res = Some e \<longrightarrow> (\<exists>w1. retry_wait d w1 = (Some e, w')))"
  proof (rule register_rule [where I = "\<lambda>v. others (st w) (st v)", OF assms])
    show "others (st w) (st w2)" if "others (st w) (st v)" and "retry_round d v = Some w2" for v w2
    proof -
      from that(2) obtain w1 where "register_once d v = (False, w1)" "retry_wait d w1 = (None, w2)"
        by (auto simp: retry_round_def split: prod.splits bool.splits option.splits)
      then have "others (st v) (st w1)" "others (st w1) (st w2)" using once paused by blast+
      with that(1) show ?thesis by (blast intro: others_trans)
    qed
    show "case (None, w1) of (res, w') \<Rightarrow> others (st w) (st w') \<and> (res = None \<longrightarrow> is_registered w w') \<and>
        (\<forall>e. res = Some e \<longrightarrow> (\<exists>w1. retry_wait d w1 = (Some e, w')))"
      if "others (st w) (st v)" and "register_once d v = (True, w1)" for v w1
    proof -
      have "others (st v) (st w1)" "is_registered v w1" using once [OF that(2)] by simp_all
      with that(1) have "others (st w) (st w1)" "is_registered w w1"
        unfolding is_registered_def by (blast intro: others_trans)+
      then show ?thesis by simp
    qed
    show "case (Some e, w2) of (res, w') \<Rightarrow> others (st w) (st w') \<and> (res = None \<longrightarrow> is_registered w w') \<and>
        (\<forall>e. res = Some e \<longrightarrow> (\<exists>w1. retry_wait d w1 = (Some e, w')))"
      if "others (st w) (st v)" and "register_once d v = (False, w1)" and "retry_wait d w1 = (Some e, w2)" for v w1 e w2
    proof -
      have "others (st v) (st w1)" "others (st w1) (st w2)" using once [OF that(2)] paused [OF that(3)] by simp_all
      with that(1) have "others (st w) (st w2)" by (blast intro: others_trans)
      with that(3) show ?thesis by auto
    qed
  qed (rule others_refl)
  then show ?thesis by simp
qed

lemma deregister_result:
  assumes "deregister u w = (None, w')"
  shows "\<exists>t. others (st w) t \<and> st w' = t(dereg_runnerID u := None)"
proof -
  obtain w1 where del: "httpDo u (deregister_url u) w = (Inr 204, w1)" and w': "st w' = st w1"
    using assms by (auto simp: deregister_def logs split: option.splits sum.splits prod.splits if_splits)
  from deleted [OF del] obtain c c' where c: "params c ''runnerId'' = dereg_runnerID u" "DeleteRunner h c w = (c', w1)"
      "status c' = 204" by blast
  have "Delete (repo s) (dereg_runnerID u) w = (None, w1)"
    using c by (auto simp: DeleteRunner_def served broker_Service_def DeregisterRunner_def writeError_def gin_JSON_def
        split: option.splits prod.splits)
  from delete_ok [OF this] w' show ?thesis by auto
qed

end

section \<open>A link in memory\<close>

definition demo_identity :: Identity where
  "demo_identity = \<lparr>IdentityRunnerID = replicate 32 (CHR ''0''), IdentityPrivateHost = ''h0''\<rparr>"

definition mem_register :: "noisy registerDeps" where
  "mem_register =
     \<lparr>brokerURL = ''http://broker'', identity = demo_identity,
      httpPost = \<lambda>url ct payload w.
        (case PostRegister noisy_handler (blank_request\<lparr>json := decode_registerRequest id payload\<rparr>) w of (c', w') \<Rightarrow> (Inr (status c'), w')),
      retry_wait = \<lambda>w. (None, w), reg_logf = \<lambda>line w. w\<rparr>"

definition mem_deregister :: "noisy deregisterDeps" where
  "mem_deregister =
     \<lparr>dereg_brokerURL = ''http://broker'', dereg_runnerID = replicate 32 (CHR ''0''), dereg_newRequest = \<lambda>url. None,
      httpDo = \<lambda>url w. (case DeleteRunner noisy_handler (blank_request\<lparr>params := \<lambda>k. replicate 32 (CHR ''0'')\<rparr>) w of
        (c', w') \<Rightarrow> (Inr (status c'), w')),
      dereg_logf = \<lambda>line w. w\<rparr>"

lemma mem_broker_link:
  "broker_link (noisy_service ''tokyo'' []) noisy_store noisy_handler (\<lambda>w. None) mem_register mem_deregister id"
proof (intro broker_link.intro noisy_service_shared broker_link_axioms.intro, goal_cases)
  case 1
  show ?case by (simp add: noisy_handler_def)
next
  case (2 payload w code w')
  then show ?case
    by - (rule exI [of _ "blank_request\<lparr>json := decode_registerRequest id payload\<rparr>"], auto simp: mem_register_def split: prod.splits)
next
  case (5 w code w')
  then show ?case
    by - (rule exI [of _ "blank_request\<lparr>params := \<lambda>k. replicate 32 (CHR ''0'')\<rparr>"],
      auto simp: mem_deregister_def split: prod.splits)
qed (auto simp: mem_register_def mem_deregister_def others_refl split: prod.splits)

interpretation mem_link:
  broker_link "noisy_service ''tokyo'' []" noisy_store noisy_handler "\<lambda>w. None" mem_register mem_deregister id
  by (rule mem_broker_link)

section \<open>The runner in the store\<close>

text \<open>
  C25: a runner that has registered is in the store. The body that it sends is decoded by the broker
  to the ID and the host that it has, or refused. When \<open>register\<close> returns without an error, the
  runner was not in the store before and has been added, idle and under its own ID and host, in one
  step; a lost answer cannot make it count as registered, and with an error it was the context that
  ended it. When \<open>deregister\<close> returns without an error the runner has been taken out. In all cases
  the store has only seen steps that the abstract store allows.
\<close>

theorem runner_registers_itself:
  assumes "broker_link s st h ctxErr d u error_for" and "register d w = Some (res, w1)"
    and "dereg_runnerID u = IdentityRunnerID (identity d)" and "others (st w1) (st w2)" and "deregister u w2 = (res2, w3)"
  shows "others (st w) (st w1) \<and>
    (case res of
       None \<Rightarrow> runnerIDRe (IdentityRunnerID (identity d)) \<and> runnerHostRe (IdentityPrivateHost (identity d)) \<and>
         (\<exists>t. others (st w) t \<and> t (IdentityRunnerID (identity d)) = None \<and>
            st w1 = t(IdentityRunnerID (identity d) \<mapsto>
              new_runner (IdentityRunnerID (identity d)) (IdentityPrivateHost (identity d))))
     | Some e \<Rightarrow> \<exists>v. retry_wait d v = (Some e, w1)) \<and>
    (res2 = None \<longrightarrow> st w3 (IdentityRunnerID (identity d)) = None \<and> others (st w) (st w3))"
proof -
  note reg = broker_link.register_result [OF assms(1,2)]
  have "st w3 (IdentityRunnerID (identity d)) = None \<and> others (st w) (st w3)" if r: "res2 = None"
  proof -
    obtain t where t: "others (st w2) t" "st w3 = t(IdentityRunnerID (identity d) := None)"
      using broker_link.deregister_result [OF assms(1)] assms(3,5) r by metis
    have "others t (st w3)" unfolding t(2) by (rule others_step [of _ "Deleted (IdentityRunnerID (identity d))"]) simp
    then show ?thesis using reg assms(4) t by (simp add: t(2)) (meson others_trans)
  qed
  then show ?thesis using reg by (auto simp: broker_link.is_registered_def [OF assms(1)] split: option.splits)
qed

theorem runner_registers_itself_witness:
  "\<exists>w1 w3. register mem_register noisy_idle = Some (None, w1) \<and> deregister mem_deregister w1 = (None, w3) \<and>
     (\<exists>t. noisy_store w1 = t(replicate 32 (CHR ''0'') \<mapsto> new_runner (replicate 32 (CHR ''0'')) ''h0'')) \<and>
     noisy_store w3 (replicate 32 (CHR ''0'')) = None"
proof -
  have "map_option fst (register mem_register noisy_idle) = Some None" by code_simp
  then obtain w1 where reg: "register mem_register noisy_idle = Some (None, w1)" by auto
  have "map_option (\<lambda>(r, w). fst (deregister mem_deregister w)) (register mem_register noisy_idle) = Some None" by code_simp
  then obtain w3 where dereg: "deregister mem_deregister w1 = (None, w3)" using reg by (cases "deregister mem_deregister w1") auto
  have ids: "dereg_runnerID mem_deregister = IdentityRunnerID (identity mem_register)"
    by (simp add: mem_deregister_def mem_register_def demo_identity_def)
  from runner_registers_itself [OF mem_broker_link reg ids others_refl dereg]
  show ?thesis using reg dereg by (auto simp: mem_register_def demo_identity_def)
qed

section \<open>Who the runner is\<close>







end
