(* ===== verification/Shell_Manager.thy ===== *)
theory Shell_Manager
  imports Bash_Shell
begin

text \<open>
  \<open>runner/shell_manager.go\<close>: the shells of the visitors, by shell ID. A shell is a handle of a
  type \<open>'h\<close> into the world, as an interface value is. The operations are given as the code has
  them, each with the sections that hold the mutex as functions of their own; \<open>manager_step\<close> is
  the system in which any number of calls interleave at these sections.
\<close>

section \<open>The operations\<close>

text \<open>\<open>Shell\<close> of \<open>runner/handler.go\<close>: closing waits for the process, which may never end.\<close>

record ('h, 'w) Shell =
  shell_ExecuteStream :: "'h \<Rightarrow> 'w caller \<Rightarrow> string \<Rightarrow> 'w \<Rightarrow> (executed \<times> 'w) option"
  shell_Close :: "'h \<Rightarrow> 'w \<Rightarrow> (go_error option \<times> 'w) option"

record ('h, 'w) ShellManager =
  shells :: "string \<rightharpoonup> 'h"
  genID :: "'w \<Rightarrow> (go_error + string) \<times> 'w"
  newShell :: "'w \<Rightarrow> (go_error + 'h) \<times> 'w"

text \<open>\<open>rand.Read\<close> fills the slice and never fails, and the code does not look at its results.\<close>

definition generateID :: "(nat \<Rightarrow> 'w \<Rightarrow> string \<times> 'w) \<Rightarrow> 'w \<Rightarrow> (go_error + string) \<times> 'w" where
  "generateID randRead w = (let (b, w1) = randRead 16 w in (Inr (EncodeToString b), w1))"

definition NewShellManager ::
  "(nat \<Rightarrow> 'w \<Rightarrow> string \<times> 'w) \<Rightarrow> ('w \<Rightarrow> (go_error + 'h) \<times> 'w) \<Rightarrow> ('h, 'w) ShellManager" where
  "NewShellManager randRead newDefaultShell =
     \<lparr>shells = Map.empty, genID = generateID randRead, newShell = newDefaultShell\<rparr>"

text \<open>The section of \<open>Create\<close> that holds the mutex: \<open>False\<close> when the ID is taken.\<close>

definition publish :: "string \<Rightarrow> 'h \<Rightarrow> ('h, 'w) ShellManager \<Rightarrow> bool \<times> ('h, 'w) ShellManager" where
  "publish ident sh m =
     (if shells m ident \<noteq> None then (False, m) else (True, m\<lparr>shells := (shells m)(ident \<mapsto> sh)\<rparr>))"

definition Create ::
  "('h, 'w) Shell \<Rightarrow> ('h, 'w) ShellManager \<Rightarrow> 'w \<Rightarrow>
   ((go_error + string \<times> 'h) \<times> ('h, 'w) ShellManager \<times> 'w) option" where
  "Create ops m w =
     (case genID m w of
        (Inl err, w1) \<Rightarrow> Some (Inl err, m, w1)
      | (Inr ident, w1) \<Rightarrow>
          (case newShell m w1 of
             (Inl err, w2) \<Rightarrow> Some (Inl (Wrap ''create shell: '' err), m, w2)
           | (Inr sh, w2) \<Rightarrow>
               (case publish ident sh m of
                  (False, m1) \<Rightarrow>
                    (case shell_Close ops sh w2 of
                       None \<Rightarrow> None
                     | Some (_, w3) \<Rightarrow>
                         Some (Inl (ErrorString (''create shell: duplicate shell id '' @ Quote ident)), m1, w3))
                | (True, m1) \<Rightarrow> Some (Inr (ident, sh), m1, w2))))"

definition Get :: "('h, 'w) ShellManager \<Rightarrow> string \<Rightarrow> go_error + 'h" where
  "Get m ident = (case shells m ident of None \<Rightarrow> Inl (Sentinel ErrShellNotFound) | Some sh \<Rightarrow> Inr sh)"

text \<open>The section of \<open>Delete\<close> that holds the mutex.\<close>

definition take_shell :: "string \<Rightarrow> ('h, 'w) ShellManager \<Rightarrow> 'h option \<times> ('h, 'w) ShellManager" where
  "take_shell ident m =
     (case shells m ident of None \<Rightarrow> (None, m) | Some sh \<Rightarrow> (Some sh, m\<lparr>shells := (shells m)(ident := None)\<rparr>))"

definition DeleteShell ::
  "('h, 'w) Shell \<Rightarrow> ('h, 'w) ShellManager \<Rightarrow> string \<Rightarrow> 'w \<Rightarrow>
   (go_error option \<times> ('h, 'w) ShellManager \<times> 'w) option" where
  "DeleteShell ops m ident w =
     (case take_shell ident m of
        (None, m1) \<Rightarrow> Some (Some (Sentinel ErrShellNotFound), m1, w)
      | (Some sh, m1) \<Rightarrow>
          (case shell_Close ops sh w of None \<Rightarrow> None | Some (res, w1) \<Rightarrow> Some (res, m1, w1)))"

text \<open>The loop of \<open>CloseAll\<close>, with the first error so far.\<close>

fun close_each :: "('h, 'w) Shell \<Rightarrow> 'h list \<Rightarrow> go_error option \<Rightarrow> 'w \<Rightarrow> (go_error option \<times> 'w) option" where
  "close_each ops [] firstErr w = Some (firstErr, w)"
| "close_each ops (sh # shs) firstErr w =
     (case shell_Close ops sh w of
        None \<Rightarrow> None
      | Some (err, w1) \<Rightarrow>
          close_each ops shs (if err \<noteq> None \<and> firstErr = None then err else firstErr) w1)"

text \<open>\<open>range\<close> over a map visits every key once, in an order that \<open>order\<close> chooses.\<close>

definition CloseAll ::
  "((string \<rightharpoonup> 'h) \<Rightarrow> string list) \<Rightarrow> ('h, 'w) Shell \<Rightarrow> ('h, 'w) ShellManager \<Rightarrow> 'w \<Rightarrow>
   (go_error option \<times> ('h, 'w) ShellManager \<times> 'w) option" where
  "CloseAll order ops m w =
     (let taken = shells m; m1 = m\<lparr>shells := Map.empty\<rparr>
      in case close_each ops (map (\<lambda>ident. the (taken ident)) (order taken)) None w of
           None \<Rightarrow> None
         | Some (err, w1) \<Rightarrow> Some (err, m1, w1))"

section \<open>Interleaved calls\<close>

text \<open>
  A shell is \<open>born\<close> when bash is started; it is \<open>flying\<close> until \<open>Create\<close> has published it,
  then in the table, then \<open>leaving\<close> from the moment a call has taken it out until that call has
  closed it. \<open>dead\<close> lists the closed ones in order.
\<close>

record 'h manager_state =
  table :: "string \<rightharpoonup> 'h"
  flying :: "'h set"
  leaving :: "'h set"
  dead :: "'h list"
  born :: "'h set"

inductive manager_step :: "'h manager_state \<Rightarrow> 'h manager_state \<Rightarrow> bool" where
  start: "h \<notin> born s \<Longrightarrow> manager_step s (s\<lparr>flying := insert h (flying s), born := insert h (born s)\<rparr>)"
| published: "h \<in> flying s \<Longrightarrow> table s ident = None \<Longrightarrow>
    manager_step s (s\<lparr>table := (table s)(ident \<mapsto> h), flying := flying s - {h}\<rparr>)"
| refused: "h \<in> flying s \<Longrightarrow> table s ident \<noteq> None \<Longrightarrow>
    manager_step s (s\<lparr>flying := flying s - {h}, leaving := insert h (leaving s)\<rparr>)"
| taken: "table s ident = Some h \<Longrightarrow>
    manager_step s (s\<lparr>table := (table s)(ident := None), leaving := insert h (leaving s)\<rparr>)"
| all_taken: "manager_step s (s\<lparr>table := Map.empty, leaving := leaving s \<union> ran (table s)\<rparr>)"
| closed: "h \<in> leaving s \<Longrightarrow> manager_step s (s\<lparr>leaving := leaving s - {h}, dead := dead s @ [h]\<rparr>)"

inductive_simps manager_step_iff: "manager_step s t"

definition manager_init :: "'h manager_state" where
  "manager_init = \<lparr>table = Map.empty, flying = {}, leaving = {}, dead = [], born = {}\<rparr>"

text \<open>Every shell that was started is in exactly one place, and in it once.\<close>

definition accounted :: "'h manager_state \<Rightarrow> bool" where
  "accounted s \<longleftrightarrow>
     inj_on (table s) (dom (table s)) \<and> distinct (dead s) \<and>
     ran (table s) \<inter> (flying s \<union> leaving s \<union> set (dead s)) = {} \<and>
     flying s \<inter> (leaving s \<union> set (dead s)) = {} \<and> leaving s \<inter> set (dead s) = {} \<and>
     born s = ran (table s) \<union> flying s \<union> leaving s \<union> set (dead s)"

lemma accounted_init: "accounted manager_init"
  by (simp add: accounted_def manager_init_def)

lemma inj_on_map_upd: "inj_on f (dom f) \<Longrightarrow> h \<notin> ran f \<Longrightarrow> inj_on (f(k \<mapsto> h)) (dom (f(k \<mapsto> h)))"
  by (auto simp: inj_on_def ran_def)

lemma ran_remove: "inj_on f (dom f) \<Longrightarrow> f k = Some h \<Longrightarrow> ran (f(k := None)) = ran f - {h}"
  by (auto simp: ran_def inj_on_def dom_def) (metis option.inject)+

lemma accounted_step:
  assumes "manager_step s t" and "accounted s"
  shows "accounted t"
  using assms
proof (cases rule: manager_step.cases)
  case (start h)
  then show ?thesis using assms(2) by (auto simp: accounted_def)
next
  case (published h ident)
  then have "h \<notin> ran (table s)" using assms(2) by (auto simp: accounted_def)
  then have "inj_on (table t) (dom (table t))" using published assms(2) inj_on_map_upd [of "table s" h ident]
    by (simp add: accounted_def)
  moreover have "ran (table t) = insert h (ran (table s))" using published by simp
  ultimately show ?thesis using published assms(2) by (auto simp: accounted_def)
next
  case (refused h ident)
  then show ?thesis using assms(2) by (auto simp: accounted_def)
next
  case (taken ident h)
  have "ran (table t) = ran (table s) - {h}" 
    using ran_remove [of "table s" ident h] taken assms(2) by (simp add: accounted_def)
  moreover have "h \<in> ran (table s)" using taken by (auto simp: ran_def)
  moreover have "inj_on (table t) (dom (table t))" using taken assms(2) by (auto simp: accounted_def inj_on_def)
  ultimately show ?thesis using taken assms(2) by (auto simp: accounted_def)
next
  case all_taken
  then show ?thesis using assms(2) by (auto simp: accounted_def)
next
  case (closed h)
  then show ?thesis using assms(2) by (auto simp: accounted_def)
qed

lemma accounted_steps: "manager_step\<^sup>*\<^sup>* s t \<Longrightarrow> accounted s \<Longrightarrow> accounted t"
  by (induction rule: rtranclp_induct) (auto intro: accounted_step)

section \<open>The operations are runs of the system\<close>

text \<open>Between calls nothing is flying or leaving.\<close>

definition state_of ::
  "('w \<Rightarrow> 'h set) \<Rightarrow> ('w \<Rightarrow> 'h list) \<Rightarrow> ('h, 'w) ShellManager \<Rightarrow> 'w \<Rightarrow> 'h manager_state" where
  "state_of started ended m w =
     \<lparr>table = shells m, flying = {}, leaving = {}, dead = ended w, born = started w\<rparr>"

text \<open>
  \<open>started w\<close> are the shells that were ever started and \<open>ended w\<close> those that were closed, in
  order. Starting a shell gives a new one; closing ends it, whatever the call reports.
\<close>

locale shell_world =
  fixes ops :: "('h, 'w) Shell" and order :: "(string \<rightharpoonup> 'h) \<Rightarrow> string list"
    and started :: "'w \<Rightarrow> 'h set" and ended :: "'w \<Rightarrow> 'h list"
    and fresh :: "'w \<Rightarrow> (go_error + 'h) \<times> 'w" and ids :: "'w \<Rightarrow> (go_error + string) \<times> 'w"
  assumes starting: "fresh w = (res, w') \<Longrightarrow> ended w' = ended w \<and>
      (case res of
         Inl e \<Rightarrow> started w' = started w
       | Inr h \<Rightarrow> h \<notin> started w \<and> started w' = insert h (started w))"
    and naming: "ids w = (named, w') \<Longrightarrow> ended w' = ended w \<and> started w' = started w"
    and ending: "shell_Close ops h w = Some (err, w') \<Longrightarrow> ended w' = ended w @ [h] \<and> started w' = started w"
    and range_order: "finite (dom m) \<Longrightarrow> distinct (order m) \<and> set (order m) = dom m"
begin

abbreviation snap :: "('h, 'w) ShellManager \<Rightarrow> 'w \<Rightarrow> 'h manager_state" where
  "snap \<equiv> state_of started ended"

lemma Create_steps:
  assumes "Create ops m w = Some (res, m', w')" and "genID m = ids" and "newShell m = fresh"
  shows "manager_step\<^sup>*\<^sup>* (snap m w) (snap m' w')"
proof -
  obtain r1 w1 where n: "ids w = (r1, w1)" by fastforce
  note names = naming [OF n]
  show ?thesis
  proof (cases r1)
    case (Inl e)
    then show ?thesis using assms n names by (simp add: Create_def state_of_def)
  next
    case (Inr ident)
    obtain r2 w2 where f: "fresh w1 = (r2, w2)" by fastforce
    note new = starting [OF f]
    show ?thesis
    proof (cases r2)
      case (Inl e)
      then show ?thesis using assms n names f new Inr by (simp add: Create_def state_of_def)
    next
      case sh: (Inr h)
      let ?s1 = "(snap m w)\<lparr>flying := insert h (flying (snap m w)), born := insert h (born (snap m w))\<rparr>"
      have s1: "manager_step (snap m w) ?s1"
        by (rule manager_step.start) (use new names sh in \<open>simp add: state_of_def\<close>)
      show ?thesis
      proof (cases "shells m ident")
        case None
        have "manager_step ?s1 (?s1\<lparr>table := (table ?s1)(ident \<mapsto> h), flying := flying ?s1 - {h}\<rparr>)"
          by (rule manager_step.published) (simp_all add: state_of_def None)
        moreover have "?s1\<lparr>table := (table ?s1)(ident \<mapsto> h), flying := flying ?s1 - {h}\<rparr> = snap m' w'"
          using assms n names f new Inr sh None by (auto simp: Create_def publish_def state_of_def)
        ultimately show ?thesis using s1 by simp
      next
        case (Some h')
        let ?s2 = "?s1\<lparr>flying := flying ?s1 - {h}, leaving := insert h (leaving ?s1)\<rparr>"
        have s2: "manager_step ?s1 ?s2"
          by (rule manager_step.refused [where ident = ident]) (simp_all add: state_of_def Some)
        obtain e w3 where c: "shell_Close ops h w2 = Some (e, w3)"
          using assms n f Inr sh Some by (cases "shell_Close ops h w2") (auto simp: Create_def publish_def)
        have "manager_step ?s2 (?s2\<lparr>leaving := leaving ?s2 - {h}, dead := dead ?s2 @ [h]\<rparr>)"
          by (rule manager_step.closed) simp
        moreover have "?s2\<lparr>leaving := leaving ?s2 - {h}, dead := dead ?s2 @ [h]\<rparr> = snap m' w'"
          using assms n names f new Inr sh Some c ending [OF c]
          by (auto simp: Create_def publish_def state_of_def)
        ultimately show ?thesis using s1 s2 by simp
      qed
    qed
  qed
qed

lemma Delete_steps:
  assumes "DeleteShell ops m ident w = Some (res, m', w')"
  shows "manager_step\<^sup>*\<^sup>* (snap m w) (snap m' w')"
proof (cases "shells m ident")
  case None
  then show ?thesis using assms by (simp add: DeleteShell_def take_shell_def)
next
  case (Some h)
  let ?s1 = "(snap m w)\<lparr>table := (table (snap m w))(ident := None), leaving := insert h (leaving (snap m w))\<rparr>"
  have s1: "manager_step (snap m w) ?s1" by (rule manager_step.taken) (simp add: state_of_def Some)
  obtain e w1 where c: "shell_Close ops h w = Some (e, w1)"
    using assms Some by (cases "shell_Close ops h w") (auto simp: DeleteShell_def take_shell_def)
  have "manager_step ?s1 (?s1\<lparr>leaving := leaving ?s1 - {h}, dead := dead ?s1 @ [h]\<rparr>)"
    by (rule manager_step.closed) simp
  moreover have "?s1\<lparr>leaving := leaving ?s1 - {h}, dead := dead ?s1 @ [h]\<rparr> = snap m' w'"
    using assms Some c ending [OF c] by (auto simp: DeleteShell_def take_shell_def state_of_def)
  ultimately show ?thesis using s1 by simp
qed

lemma close_each_ends:
  assumes "close_each ops hs firstErr w = Some (res, w')"
  shows "ended w' = ended w @ hs \<and> started w' = started w"
  using assms
proof (induction hs arbitrary: firstErr w)
  case (Cons h hs)
  then obtain e w1 where c: "shell_Close ops h w = Some (e, w1)" by (cases "shell_Close ops h w") auto
  with Cons.prems obtain fe where "close_each ops hs fe w1 = Some (res, w')" by auto
  from Cons.IH [OF this] ending [OF c] show ?case by simp
qed simp

lemma closing_steps:
  "distinct hs \<Longrightarrow> leaving s = set hs \<Longrightarrow> manager_step\<^sup>*\<^sup>* s (s\<lparr>leaving := {}, dead := dead s @ hs\<rparr>)"
proof (induction hs arbitrary: s)
  case Nil
  then have "s\<lparr>leaving := {}, dead := dead s @ []\<rparr> = s" by (cases s) simp
  then show ?case by simp
next
  case (Cons h hs)
  let ?t = "s\<lparr>leaving := leaving s - {h}, dead := dead s @ [h]\<rparr>"
  have "manager_step s ?t" using Cons.prems by (intro manager_step.closed) simp
  moreover have "manager_step\<^sup>*\<^sup>* ?t (?t\<lparr>leaving := {}, dead := dead ?t @ hs\<rparr>)"
    by (rule Cons.IH) (use Cons.prems in auto)
  ultimately show ?case by (simp add: converse_rtranclp_into_rtranclp)
qed

lemma CloseAll_steps:
  assumes "CloseAll order ops m w = Some (res, m', w')" and "finite (dom (shells m))"
    and "inj_on (shells m) (dom (shells m))"
  shows "manager_step\<^sup>*\<^sup>* (snap m w) (snap m' w') \<and> shells m' = Map.empty \<and>
    set (ended w') = set (ended w) \<union> ran (shells m) \<and> started w' = started w"
proof -
  let ?hs = "map (\<lambda>ident. the (shells m ident)) (order (shells m))"
  have order: "distinct (order (shells m))" "set (order (shells m)) = dom (shells m)"
    using range_order [OF assms(2)] by auto
  have hs: "set ?hs = ran (shells m)" using order(2) by (force simp: ran_def dom_def image_iff)
  have "inj_on (\<lambda>ident. the (shells m ident)) (dom (shells m))"
    using assms(3) by (auto simp: inj_on_def dom_def)
  then have "distinct ?hs" using order by (simp add: distinct_map)
  obtain w1 where "close_each ops ?hs None w = Some (res, w1)" and m': "m' = m\<lparr>shells := Map.empty\<rparr>" "w' = w1"
    using assms(1) by (cases "close_each ops ?hs None w") (auto simp: CloseAll_def Let_def)
  then have ends: "ended w' = ended w @ ?hs" "started w' = started w" using close_each_ends by blast+
  let ?s1 = "(snap m w)\<lparr>table := Map.empty, leaving := leaving (snap m w) \<union> ran (table (snap m w))\<rparr>"
  have "manager_step (snap m w) ?s1" by (rule manager_step.all_taken)
  moreover have "manager_step\<^sup>*\<^sup>* ?s1 (?s1\<lparr>leaving := {}, dead := dead ?s1 @ ?hs\<rparr>)"
    by (rule closing_steps [OF \<open>distinct ?hs\<close>]) (simp add: state_of_def hs del: set_map)
  moreover have "?s1\<lparr>leaving := {}, dead := dead ?s1 @ ?hs\<rparr> = snap m' w'"
    using m' ends by (simp add: state_of_def)
  ultimately show ?thesis using m' ends hs by (simp add: converse_rtranclp_into_rtranclp del: set_map)
qed

end

end
