(* ===== verification/Command_Class.thy ===== *)
theory Command_Class
  imports Go_Strings
begin

text \<open>
  \<open>runner/validate.go\<close>: the class of a command in the audit log. The two tables are lists
  here; the code only asks whether a key is in one, or looks for any key that fits.
\<close>

section \<open>The tables\<close>

definition whitelistedExactCommands :: "string list" where
  "whitelistedExactCommands =
    [''pwd'', ''date'', ''whoami'', ''env'', ''id'',
     ''ip -4 -o addr show eth1 | awk '{print $4}'' @ [CHR 0x27],
     ''uptime'', ''df'', ''free'', ''ps'', ''history'',
     ''home-manager switch --rollback'',
     ''home-manager generations'',
     ''nix develop --command sh -c \"figlet 'Nix' | cowsay -n | lolcat -f\"'']"

definition whitelistedPrefixCommands :: "string list" where
  "whitelistedPrefixCommands =
    [''cd'', ''echo'', ''cat'', ''head'', ''tail'', ''grep'', ''ls'', ''uname'', ''wc'', ''file'',
     ''du'', ''stat'', ''realpath'', ''printf'', ''which'', ''tree'']"

text \<open>The regular expression matches one of its bytes anywhere, or a dollar with a parenthesis.\<close>

definition meta_bytes :: string where
  "meta_bytes = '';|&<>'' @ [CHR 0x09, CHR 0x0A, CHR 0x0D, CHR 0x60]"

definition shellMetaChars :: "string \<Rightarrow> bool" where
  "shellMetaChars s \<longleftrightarrow> list_ex (\<lambda>c. c \<in> set meta_bytes) s \<or> sublist ''$('' s"

section \<open>The class\<close>

definition classifyCommand :: "string \<Rightarrow> string" where
  "classifyCommand cmd =
     (let t = TrimSpace cmd
      in if t \<in> set whitelistedExactCommands then ''whitelisted''
         else if \<not> shellMetaChars t then
           (if list_ex (\<lambda>p. t = p \<or> HasPrefix t (p @ '' '')) whitelistedPrefixCommands
            then ''whitelisted''
            else if HasPrefix t ''nix run nixpkgs#'' then ''whitelisted''
            else ''unclassified'')
         else ''unclassified'')"

section \<open>What is trimmed\<close>

text \<open>
  Text that begins and ends with printable ASCII survives trimming wherever it stands: no white
  space rune holds a printable ASCII byte.
\<close>

definition printable :: "char \<Rightarrow> bool" where
  "printable c \<longleftrightarrow> 32 < (of_char c :: nat) \<and> (of_char c :: nat) < 127"

lemma space_runes_not_printable: "p \<in> set space_runes \<Longrightarrow> c \<in> set p \<Longrightarrow> \<not> printable c"
  by (auto simp: space_runes_def ascii_space_def printable_def)

lemma strip_one_keeps:
  assumes "\<And>p c. p \<in> set ps \<Longrightarrow> c \<in> set p \<Longrightarrow> \<not> printable c"
    and "strip_one ps (a @ c # b) = Some r" and "printable c"
  shows "\<exists>a'. r = a' @ c # b"
  using assms
proof (induction ps)
  case (Cons p ps)
  show ?case
  proof (cases "p \<noteq> [] \<and> take (length p) (a @ c # b) = p")
    case True
    have "length p \<le> length a"
    proof (rule ccontr)
      assume "\<not> length p \<le> length a"
      then have "c \<in> set (take (length p) (a @ c # b))" by (simp add: take_Cons')
      then have "c \<in> set p" using True by metis
      then show False using Cons.prems(1,3) by auto
    qed
    then have "r = drop (length p) a @ c # b" using True Cons.prems(2) by auto
    then show ?thesis by blast
  next
    case False
    then have "strip_one ps (a @ c # b) = Some r" using Cons.prems(2) by auto
    then show ?thesis using Cons.IH Cons.prems(1,3) by auto
  qed
qed simp

lemma trim_left_keeps:
  assumes "\<And>p c. p \<in> set ps \<Longrightarrow> c \<in> set p \<Longrightarrow> \<not> printable c" and "printable c"
  shows "\<exists>a'. trim_left ps (a @ c # b) = a' @ c # b"
  using assms
proof (induction ps "a @ c # b" arbitrary: a rule: trim_left.induct)
  case (1 ps a)
  show ?case
  proof (cases "strip_one ps (a @ c # b)")
    case None
    then show ?thesis by (auto simp: trim_left_id)
  next
    case (Some r)
    then obtain a' where r: "r = a' @ c # b"
      using strip_one_keeps [of ps a c b r] "1.prems" by blast
    then have "\<exists>a''. trim_left ps r = a'' @ c # b" using "1.hyps" [OF Some [unfolded r]] "1.prems" r by simp
    then show ?thesis using Some by (simp add: trim_left.simps [of ps "a @ c # b"])
  qed
qed

lemma TrimSpace_keeps:
  assumes "printable c" and "printable d"
  shows "\<exists>a' b'. TrimSpace (a @ c # m @ d # b) = a' @ c # m @ d # b'"
proof -
  obtain a' where a': "trim_left space_runes (a @ c # m @ d # b) = a' @ c # m @ d # b"
    using trim_left_keeps [of space_runes c a "m @ d # b"] space_runes_not_printable assms(1) by metis
  obtain b' where "trim_left (map rev space_runes) (rev b @ d # rev m @ c # rev a') = b' @ d # rev m @ c # rev a'"
    using trim_left_keeps [of "map rev space_runes" d "rev b" "rev m @ c # rev a'"]
      space_runes_not_printable assms(2) by (metis imageE set_map set_rev)
  then show ?thesis unfolding TrimSpace_def a' by (auto intro: exI [of _ "rev b'"])
qed

lemma TrimSpace_keeps_byte:
  assumes "printable c" and "c \<in> set s"
  shows "c \<in> set (TrimSpace s)"
proof -
  obtain a b where s: "s = a @ c # b" using assms(2) by (meson split_list)
  obtain a' where a': "trim_left space_runes s = a' @ c # b"
    using trim_left_keeps [of space_runes c a b] space_runes_not_printable assms(1) s by metis
  obtain b' where "trim_left (map rev space_runes) (rev b @ c # rev a') = b' @ c # rev a'"
    using trim_left_keeps [of "map rev space_runes" c "rev b" "rev a'"]
      space_runes_not_printable assms(1) by (metis imageE set_map set_rev)
  then show ?thesis unfolding TrimSpace_def a' by simp
qed

section \<open>Which commands are whitelisted\<close>

lemma exact_commands:
  assumes "t \<in> set whitelistedExactCommands"
  shows "c \<in> set ('';&<>'' @ [CHR 0x60, CHR 0x09, CHR 0x0A, CHR 0x0D]) \<Longrightarrow> c \<notin> set t"
    and "\<not> sublist ''$('' t"
    and "CHR ''|'' \<in> set t \<Longrightarrow> t = whitelistedExactCommands ! 5 \<or> t = whitelistedExactCommands ! 13"
proof -
  have "list_all (\<lambda>t. list_all (\<lambda>c. c \<notin> set t) ('';&<>'' @ [CHR 0x60, CHR 0x09, CHR 0x0A, CHR 0x0D]) \<and>
      \<not> sublist ''$('' t \<and>
      (CHR ''|'' \<in> set t \<longrightarrow> t = whitelistedExactCommands ! 5 \<or> t = whitelistedExactCommands ! 13))
    whitelistedExactCommands" by code_simp
  then show "c \<in> set ('';&<>'' @ [CHR 0x60, CHR 0x09, CHR 0x0A, CHR 0x0D]) \<Longrightarrow> c \<notin> set t"
    and "\<not> sublist ''$('' t"
    and "CHR ''|'' \<in> set t \<Longrightarrow> t = whitelistedExactCommands ! 5 \<or> t = whitelistedExactCommands ! 13"
    using assms unfolding list_all_iff by blast+
qed

lemma classify_meta:
  "shellMetaChars (TrimSpace cmd) \<Longrightarrow> TrimSpace cmd \<notin> set whitelistedExactCommands \<Longrightarrow>
   classifyCommand cmd = ''unclassified''"
  by (simp add: classifyCommand_def Let_def)

lemma shellMetaChars_byte: "c \<in> set meta_bytes \<Longrightarrow> c \<in> set t \<Longrightarrow> shellMetaChars t"
  by (auto simp: shellMetaChars_def list_ex_iff)

lemma meta_bytes_printable:
  "c \<in> set ('';|&<>'' @ [CHR 0x60]) \<Longrightarrow> c \<in> set meta_bytes \<and> printable c"
  by (auto simp: meta_bytes_def printable_def)

text \<open>
  No chain of commands passes as whitelisted. A command that holds a semicolon, an ampersand,
  a redirection, a backquote or a command substitution anywhere is unclassified; so is one with
  a line break or a tab between two printable bytes; and the only whitelisted pipelines are the
  two that the table spells out.
\<close>

theorem chained_commands_unclassified:
  "(c \<in> set ('';&<>'' @ [CHR 0x60]) \<and> c \<in> set cmd \<longrightarrow> classifyCommand cmd = ''unclassified'') \<and>
   (sublist ''$('' cmd \<longrightarrow> classifyCommand cmd = ''unclassified'') \<and>
   (cmd = a @ x # p @ k # q @ y # b \<and> printable x \<and> printable y \<and> k \<in> {CHR 0x09, CHR 0x0A, CHR 0x0D} \<longrightarrow>
     classifyCommand cmd = ''unclassified'') \<and>
   (CHR ''|'' \<in> set cmd \<and> classifyCommand cmd = ''whitelisted'' \<longrightarrow>
     TrimSpace cmd = whitelistedExactCommands ! 5 \<or> TrimSpace cmd = whitelistedExactCommands ! 13)"
proof (intro conjI impI; (elim conjE)?)
  assume c: "c \<in> set ('';&<>'' @ [CHR 0x60])" and "c \<in> set cmd"
  then have "c \<in> set meta_bytes" and t: "c \<in> set (TrimSpace cmd)"
    using meta_bytes_printable [of c] TrimSpace_keeps_byte by auto
  moreover have "TrimSpace cmd \<notin> set whitelistedExactCommands" using exact_commands(1) c t by auto
  ultimately show "classifyCommand cmd = ''unclassified''" by (blast intro: classify_meta shellMetaChars_byte)
next
  assume "sublist ''$('' cmd"
  then obtain a b where "cmd = a @ CHR ''$'' # [] @ CHR ''('' # b" by (auto simp: sublist_def)
  moreover have "printable (CHR ''$'')" and "printable (CHR ''('')" by (simp_all add: printable_def)
  ultimately obtain a' b' where "TrimSpace cmd = a' @ ''$('' @ b'"
    using TrimSpace_keeps [of "CHR ''$''" "CHR ''(''" a "[]" b] by auto
  then have "sublist ''$('' (TrimSpace cmd)" by (auto simp: sublist_def)
  then show "classifyCommand cmd = ''unclassified''"
    using exact_commands(2) by (blast intro: classify_meta [unfolded shellMetaChars_def])
next
  assume "cmd = a @ x # p @ k # q @ y # b" "printable x" "printable y" and k: "k \<in> {CHR 0x09, CHR 0x0A, CHR 0x0D}"
  then obtain a' b' where "TrimSpace cmd = a' @ x # (p @ k # q) @ y # b'"
    using TrimSpace_keeps [of x y a "p @ k # q" b] by auto
  then have "k \<in> set (TrimSpace cmd)" by simp
  moreover have "k \<in> set meta_bytes" using k by (auto simp: meta_bytes_def)
  ultimately show "classifyCommand cmd = ''unclassified''"
    using exact_commands(1) k by (intro classify_meta shellMetaChars_byte) auto
next
  assume "CHR ''|'' \<in> set cmd" and w: "classifyCommand cmd = ''whitelisted''"
  then have t: "CHR ''|'' \<in> set (TrimSpace cmd)" by (intro TrimSpace_keeps_byte) (simp_all add: printable_def)
  then have "shellMetaChars (TrimSpace cmd)"
    by (rule shellMetaChars_byte [rotated]) (simp add: meta_bytes_def)
  with w have "TrimSpace cmd \<in> set whitelistedExactCommands" using classify_meta by fastforce
  then show "TrimSpace cmd = whitelistedExactCommands ! 5 \<or> TrimSpace cmd = whitelistedExactCommands ! 13"
    using t by (rule exact_commands(3))
qed

theorem chained_commands_unclassified_witness:
  "classifyCommand ''ls; rm'' = ''unclassified'' \<and> classifyCommand ''echo $(id)'' = ''unclassified'' \<and>
   classifyCommand '' ls -la '' = ''whitelisted''"
proof -
  have "classifyCommand ''ls; rm'' = ''unclassified''"
    using chained_commands_unclassified [of "CHR '';''" "''ls; rm''"] by simp
  moreover have "classifyCommand ''echo $(id)'' = ''unclassified''"
    using chained_commands_unclassified [of _ "''echo $(id)''"] by (simp add: sublist_Cons_right)
  moreover have "classifyCommand '' ls -la '' = ''whitelisted''" by code_simp
  ultimately show ?thesis by blast
qed

end
