(* ===== verification/Runner_Handler.thy ===== *)
theory Runner_Handler
  imports Shell_Manager Command_Class Net_Addr Event_Stream
begin

text \<open>
  \<open>runner/handler.go\<close>: the HTTP handlers of a runner. As for the broker, a gin context is a
  record of what the handlers read of the request and of what they have written; what they call
  outside is a record of functions on the world.
\<close>

section \<open>The gin context and the outside\<close>

record shell_cookie =
  sc_name :: string
  sc_value :: string
  sc_maxAge :: int
  sc_path :: string
  sc_domain :: string
  sc_secure :: bool
  sc_httpOnly :: bool
  sc_sameSiteStrict :: bool

text \<open>
  The request: cookies and headers by name, what decoding its JSON body gives, and the bytes of
  its body or the error of reading them. The response: its body is an \<open>errorResponse\<close>, text with
  a content type, or the bytes of a stream. \<open>rg_log\<close> is what the handlers print to the log.
\<close>

datatype response_body = NoResponse | errorResponse string | DataResponse string string | StreamResponse string

record rgin =
  rg_cookie :: "string \<Rightarrow> string option"
  rg_header :: "string \<Rightarrow> string"
  rg_json :: "go_error + string"
  rg_body :: "go_error + string"
  rg_status :: nat
  rg_headers :: "string \<rightharpoonup> string"
  rg_set_cookies :: "shell_cookie list"
  rg_strict :: bool
  rg_response :: response_body
  rg_log :: "string list"

definition rg_JSON_error :: "nat \<Rightarrow> string \<Rightarrow> rgin \<Rightarrow> rgin" where
  "rg_JSON_error code msg c = c\<lparr>rg_status := code, rg_response := errorResponse msg\<rparr>"

definition rg_Header :: "string \<Rightarrow> string \<Rightarrow> rgin \<Rightarrow> rgin" where
  "rg_Header k v c = c\<lparr>rg_headers := (rg_headers c)(k \<mapsto> v)\<rparr>"

definition rg_SetCookie :: "string \<Rightarrow> string \<Rightarrow> int \<Rightarrow> string \<Rightarrow> string \<Rightarrow> bool \<Rightarrow> bool \<Rightarrow> rgin \<Rightarrow> rgin" where
  "rg_SetCookie name v maxAge path domain secure httpOnly c =
     c\<lparr>rg_set_cookies := rg_set_cookies c @
        [\<lparr>sc_name = name, sc_value = v, sc_maxAge = maxAge, sc_path = path, sc_domain = domain,
          sc_secure = secure, sc_httpOnly = httpOnly, sc_sameSiteStrict = rg_strict c\<rparr>]\<rparr>"

definition rg_Write :: "string \<Rightarrow> rgin \<Rightarrow> rgin" where
  "rg_Write bytes c =
     c\<lparr>rg_response := StreamResponse ((case rg_response c of StreamResponse b \<Rightarrow> b | _ \<Rightarrow> []) @ bytes)\<rparr>"

text \<open>
  \<open>exec_caller\<close> is the request's context with the channel that \<open>handleExecute\<close> makes, and
  \<open>exec_lines\<close> what its goroutine has received from it when the channel is closed and empty.
\<close>

record 'w outside =
  exec_caller :: "'w caller"
  exec_lines :: "'w \<Rightarrow> string list"
  now_text :: "'w \<Rightarrow> string"
  os_ReadFile :: "string \<Rightarrow> 'w \<Rightarrow> (go_error + string) \<times> 'w"
  os_WriteFile :: "string \<Rightarrow> string \<Rightarrow> 'w \<Rightarrow> go_error option \<times> 'w"
  os_Rename :: "string \<Rightarrow> string \<Rightarrow> 'w \<Rightarrow> go_error option \<times> 'w"
  os_Remove :: "string \<Rightarrow> 'w \<Rightarrow> go_error option \<times> 'w"
  os_Getpid :: int
  tmpCounter_Add :: "'w \<Rightarrow> nat \<times> 'w"

section \<open>Constants\<close>

definition shellIDCookie :: string where "shellIDCookie = ''shell_id''"
definition clientAddressHeader :: string where "clientAddressHeader = ''X-Bunshin-Client-Address''"
definition handlerUpdateClass :: string where "handlerUpdateClass = ''handler-update''"
definition handlerAppFilePath :: string where "handlerAppFilePath = ''/app/DaiKichijoji.pm''"
definition handlerAppMaxSize :: int where "handlerAppMaxSize = 2 ^ 20"
definition errMissingShellCookie :: string where "errMissingShellCookie = ''missing shell_id cookie''"
definition errMissingClientAddressHeader :: string where
  "errMissingClientAddressHeader = ''missing X-Bunshin-Client-Address header''"

section \<open>The audit log\<close>

definition audit_line :: "string \<Rightarrow> string \<Rightarrow> string \<Rightarrow> string \<Rightarrow> string \<Rightarrow> int option \<Rightarrow> go_error option \<Rightarrow> string" where
  "audit_line now shell remote class_name command exitCode err =
     now @ '' [AUDIT] shell='' @ shell @ '' remote='' @ remote @ '' class='' @ class_name @ '' command='' @ Quote command @
     (case exitCode of None \<Rightarrow> [] | Some n \<Rightarrow> '' exitCode='' @ show_int n) @
     (case err of None \<Rightarrow> [] | Some e \<Rightarrow> '' error='' @ error_text e)"

definition auditLog ::
  "'w outside \<Rightarrow> string \<Rightarrow> string \<Rightarrow> string \<Rightarrow> string \<Rightarrow> int option \<Rightarrow> go_error option \<Rightarrow> 'w \<Rightarrow> rgin \<Rightarrow> rgin" where
  "auditLog e shell remote class_name command exitCode err w c =
     c\<lparr>rg_log := rg_log c @ [audit_line (now_text e w) shell remote class_name command exitCode err @ [nl]]\<rparr>"

definition clientAddress :: "rgin \<Rightarrow> go_error + string" where
  "clientAddress c =
     (let v = rg_header c clientAddressHeader
      in if v = [] then Inl (ErrorString errMissingClientAddressHeader) else parseClientAddress v)"

section \<open>Shells\<close>

definition handleHealth :: "rgin \<Rightarrow> rgin" where
  "handleHealth c = c\<lparr>rg_status := 200, rg_response := DataResponse ''text/plain; charset=utf-8'' (''ok'' @ [nl])\<rparr>"

definition handleCreateShell ::
  "('h, 'w) Shell \<Rightarrow> ('h, 'w) ShellManager \<Rightarrow> rgin \<Rightarrow> 'w \<Rightarrow> (rgin \<times> ('h, 'w) ShellManager \<times> 'w) option" where
  "handleCreateShell ops sm c w =
     (case Create ops sm w of
        None \<Rightarrow> None
      | Some (Inl err, sm1, w1) \<Rightarrow> Some (rg_JSON_error 500 (error_text err) c, sm1, w1)
      | Some (Inr (ident, _), sm1, w1) \<Rightarrow>
          Some (rg_SetCookie shellIDCookie ident 0 ''/'' [] True True (c\<lparr>rg_strict := True\<rparr>)\<lparr>rg_status := 204\<rparr>, sm1, w1))"

definition handleDeleteShell ::
  "('h, 'w) Shell \<Rightarrow> ('h, 'w) ShellManager \<Rightarrow> rgin \<Rightarrow> 'w \<Rightarrow> (rgin \<times> ('h, 'w) ShellManager \<times> 'w) option" where
  "handleDeleteShell ops sm c w =
     (case rg_cookie c shellIDCookie of
        None \<Rightarrow> Some (rg_JSON_error 400 errMissingShellCookie c, sm, w)
      | Some ident \<Rightarrow>
          if ident = [] then Some (rg_JSON_error 400 errMissingShellCookie c, sm, w)
          else (case DeleteShell ops sm ident w of
             None \<Rightarrow> None
           | Some (Some err, sm1, w1) \<Rightarrow>
               if errors_Is err ErrShellNotFound then Some (rg_JSON_error 404 (error_text err) c, sm1, w1)
               else Some (rg_JSON_error 500 (error_text err) c, sm1, w1)
           | Some (None, sm1, w1) \<Rightarrow>
               Some (rg_SetCookie shellIDCookie [] (-1) ''/'' [] True True (c\<lparr>rg_strict := True\<rparr>)\<lparr>rg_status := 204\<rparr>, sm1, w1)))"

section \<open>Commands\<close>

text \<open>The \<open>binding:"required"\<close> of \<open>executeRequest\<close>, with the error of the validator.\<close>

definition bind_execute :: "rgin \<Rightarrow> go_error + string" where
  "bind_execute c =
     (case rg_json c of
        Inl err \<Rightarrow> Inl err
      | Inr command \<Rightarrow> if command = [] then Inl (ErrorString (field_required ''executeRequest'' ''Command'')) else Inr command)"

definition stdout_event :: "string \<Rightarrow> sseEvent" where
  "stdout_event line = \<lparr>EventType = ''stdout'', EventData = line, EventExitCode = None\<rparr>"

definition stderr_event :: "string \<Rightarrow> sseEvent" where
  "stderr_event t = \<lparr>EventType = ''stderr'', EventData = t, EventExitCode = None\<rparr>"

definition complete_event :: "int \<Rightarrow> sseEvent" where
  "complete_event n = \<lparr>EventType = ''complete'', EventData = [], EventExitCode = Some n\<rparr>"

text \<open>The goroutine has written an event for every line when \<open>done\<close> is closed.\<close>

definition relay_lines :: "string list \<Rightarrow> rgin \<Rightarrow> rgin" where
  "relay_lines ls c = fold (\<lambda>line. rg_Write (writeSSE (stdout_event line))) ls c"

definition stream_headers :: "rgin \<Rightarrow> rgin" where
  "stream_headers c =
     rg_Header ''Connection'' ''keep-alive'' (rg_Header ''Cache-Control'' ''no-cache''
       (rg_Header ''Content-Type'' ''text/event-stream'' c))"

definition handleExecute ::
  "'w outside \<Rightarrow> ('h, 'w) Shell \<Rightarrow> ('h, 'w) ShellManager \<Rightarrow> rgin \<Rightarrow> 'w \<Rightarrow> (rgin \<times> 'w) option" where
  "handleExecute e ops sm c w =
     (case rg_cookie c shellIDCookie of
        None \<Rightarrow> Some (rg_JSON_error 400 errMissingShellCookie c, w)
      | Some ident \<Rightarrow>
          if ident = [] then Some (rg_JSON_error 400 errMissingShellCookie c, w)
          else (case Get sm ident of
             Inl err \<Rightarrow> Some (rg_JSON_error 404 (error_text err) c, w)
           | Inr sh \<Rightarrow>
          (case bind_execute c of
             Inl err \<Rightarrow> Some (rg_JSON_error 400 (''invalid request: '' @ error_text err) c, w)
           | Inr command \<Rightarrow>
          (let class_name = classifyCommand command in
           case clientAddress c of
             Inl err \<Rightarrow> Some (rg_JSON_error 400 (error_text err) c, w)
           | Inr remote \<Rightarrow>
          (let c1 = stream_headers (auditLog e ident remote class_name command None None w c) in
           case shell_ExecuteStream ops sh (exec_caller e) command w of
             None \<Rightarrow> None
           | Some ((exitCode, stderr, execErr), w1) \<Rightarrow>
               (let c2 = relay_lines (exec_lines e w1) c1;
                    c3 = (if stderr \<noteq> [] then rg_Write (writeSSE (stderr_event stderr)) c2 else c2);
                    c4 = rg_Write (writeSSE (complete_event exitCode)) c3
                in Some (auditLog e ident remote class_name command (Some exitCode) execErr w1 c4, w1)))))))"

section \<open>The file of the demo handler\<close>

definition tmp_name :: "string \<Rightarrow> int \<Rightarrow> nat \<Rightarrow> string" where
  "tmp_name path pid n =
     path_Join (path_Dir path) (''.'' @ path_Base path @ ''.'' @ show_int pid @ ''.'' @ show_nat n @ ''.tmp'')"

definition writeHandlerAtomically :: "'w outside \<Rightarrow> string \<Rightarrow> string \<Rightarrow> 'w \<Rightarrow> go_error option \<times> 'w" where
  "writeHandlerAtomically e path data w =
     (let (n, w1) = tmpCounter_Add e w; tmp = tmp_name path (os_Getpid e) n
      in case os_WriteFile e tmp data w1 of
           (Some err, w2) \<Rightarrow> (Some err, w2)
         | (None, w2) \<Rightarrow>
             (case os_Rename e tmp path w2 of
                (Some err, w3) \<Rightarrow> (let (_, w4) = os_Remove e tmp w3 in (Some err, w4))
              | (None, w3) \<Rightarrow> (None, w3)))"

definition handleGetAppHandler :: "'w outside \<Rightarrow> rgin \<Rightarrow> 'w \<Rightarrow> rgin \<times> 'w" where
  "handleGetAppHandler e c w =
     (case os_ReadFile e handlerAppFilePath w of
        (Inl err, w1) \<Rightarrow> (rg_JSON_error 500 (error_text err) c, w1)
      | (Inr data, w1) \<Rightarrow>
          (c\<lparr>rg_status := 200, rg_response := DataResponse ''text/plain; charset=utf-8'' data\<rparr>, w1))"

text \<open>\<open>io.ReadAll\<close> of an \<open>http.MaxBytesReader\<close>: a body of more than \<open>limit\<close> bytes is an error.\<close>

definition ReadAllMax :: "int \<Rightarrow> go_error + string \<Rightarrow> go_error + string" where
  "ReadAllMax limit b =
     (case b of
        Inl err \<Rightarrow> Inl err
      | Inr bytes \<Rightarrow>
          if int (length bytes) \<le> limit then Inr bytes else Inl (ErrorString ''http: request body too large''))"

definition handlePutAppHandler :: "'w outside \<Rightarrow> rgin \<Rightarrow> 'w \<Rightarrow> rgin \<times> 'w" where
  "handlePutAppHandler e c w =
     (case clientAddress c of
        Inl err \<Rightarrow> (rg_JSON_error 400 (error_text err) c, w)
      | Inr remote \<Rightarrow>
          (case ReadAllMax handlerAppMaxSize (rg_body c) of
             Inl err \<Rightarrow> (rg_JSON_error 400 (''read body: '' @ error_text err) c, w)
           | Inr body \<Rightarrow>
               (case writeHandlerAtomically e handlerAppFilePath body w of
                  (Some err, w1) \<Rightarrow> (rg_JSON_error 500 (error_text err) c, w1)
                | (None, w1) \<Rightarrow>
                    (auditLog e [] remote handlerUpdateClass body None None w1 c\<lparr>rg_status := 204\<rparr>, w1))))"

section \<open>The routes\<close>

text \<open>
  The engine of \<open>newHandler\<close>: the handler of a route, 405 for a known path with another method
  (\<open>HandleMethodNotAllowed\<close>), 404 for anything else.
\<close>

datatype runner_route = Health | CreateShellRoute | DeleteShellRoute | ExecuteRoute | GetAppRoute | PutAppRoute

definition runner_routes :: "((string \<times> string) \<times> runner_route) list" where
  "runner_routes =
     [((''GET'', ''/health''), Health), ((''POST'', ''/api/shell''), CreateShellRoute),
      ((''DELETE'', ''/api/shell''), DeleteShellRoute), ((''POST'', ''/api/execute''), ExecuteRoute),
      ((''GET'', ''/api/app/handler''), GetAppRoute), ((''PUT'', ''/api/app/handler''), PutAppRoute)]"

definition newHandler ::
  "'w outside \<Rightarrow> ('h, 'w) Shell \<Rightarrow> string \<Rightarrow> string \<Rightarrow> ('h, 'w) ShellManager \<Rightarrow> rgin \<Rightarrow> 'w \<Rightarrow>
   (rgin \<times> ('h, 'w) ShellManager \<times> 'w) option" where
  "newHandler e ops verb path sm c w =
     (case map_of runner_routes (verb, path) of
        Some Health \<Rightarrow> Some (handleHealth c, sm, w)
      | Some CreateShellRoute \<Rightarrow> handleCreateShell ops sm c w
      | Some DeleteShellRoute \<Rightarrow> handleDeleteShell ops sm c w
      | Some ExecuteRoute \<Rightarrow>
          (case handleExecute e ops sm c w of None \<Rightarrow> None | Some (c1, w1) \<Rightarrow> Some (c1, sm, w1))
      | Some GetAppRoute \<Rightarrow> (let (c1, w1) = handleGetAppHandler e c w in Some (c1, sm, w1))
      | Some PutAppRoute \<Rightarrow> (let (c1, w1) = handlePutAppHandler e c w in Some (c1, sm, w1))
      | None \<Rightarrow>
          Some (c\<lparr>rg_status := (if list_ex (\<lambda>((v, q), r). q = path) runner_routes then 405 else 404)\<rparr>, sm, w))"

end
