(* ===== verification/Audit_Log.thy ===== *)
theory Audit_Log
  imports Runner_Handler
begin

text \<open>
  The text of the audit log: no byte of a command or of a header ends a line of it, and the command
  can be read back.
\<close>

section \<open>Quoted text\<close>










section \<open>The line\<close>











end
