(* ===== verification/Handler_File.thy ===== *)
theory Handler_File
  imports Audit_Log
begin

text \<open>
  The file of the demo handler: \<open>writeHandlerAtomically\<close> of \<open>runner/handler.go\<close>, with any number
  of requests at once. \<open>put_step\<close> is the system in which the calls of the writers interleave, down
  to the parts in which \<open>os.WriteFile\<close> writes its data; \<open>file_world\<close> is what the code relies on of
  the file system.
\<close>

section \<open>Names of the temporary files\<close>

lemma tmp_name_longer: "length path < length (tmp_name path pid n)"
proof (cases "LastIndexByte path (CHR ''/'')")
  case None
  then show ?thesis by (simp add: tmp_name_def path_Join_def path_Dir_def path_Base_def)
next
  case (Some i)
  then have i: "i < length path" using LastIndexByte_Some_D by blast
  then have "take i path = ''/'' \<Longrightarrow> i = 1" by (auto dest: arg_cong [of _ _ length])
  then show ?thesis using Some i by (auto simp: tmp_name_def path_Join_def path_Dir_def path_Base_def)
qed

lemma tmp_name_not_path [simp]: "tmp_name path pid n \<noteq> path" "path \<noteq> tmp_name path pid n"
  using tmp_name_longer [of path pid n] by auto

lemma show_nat_inj: "show_nat m = show_nat n \<Longrightarrow> m = n"
  by (metis digits_value_show_nat)

lemma tmp_name_inj [simp]: "tmp_name path pid m = tmp_name path pid n \<longleftrightarrow> m = n"
  by (auto simp: tmp_name_def path_Join_def dest: show_nat_inj)

section \<open>Writers\<close>

text \<open>
  A writer is known by the value it got from the counter. It has its data and, once the temporary
  file is open and truncated, the number of bytes that it has written. \<open>given\<close> are the data of all
  writers so far.
\<close>

record put_state =
  files :: "string \<rightharpoonup> string"
  counter :: nat
  writers :: "nat \<rightharpoonup> string \<times> nat option"
  given :: "string set"

text \<open>Writing at an offset leaves what is before and behind.\<close>

definition write_at :: "nat \<Rightarrow> string \<Rightarrow> string \<Rightarrow> string" where
  "write_at k chunk f = take k f @ chunk @ drop (k + length chunk) f"

inductive put_step :: "string \<Rightarrow> int \<Rightarrow> put_state \<Rightarrow> put_state \<Rightarrow> bool" for path :: string and pid :: int where
  arrives: "put_step path pid s
    (s\<lparr>counter := counter s + 1, writers := (writers s)(counter s + 1 \<mapsto> (data, None)), given := insert data (given s)\<rparr>)"
| opens: "writers s n = Some (data, None) \<Longrightarrow>
    put_step path pid s (s\<lparr>files := (files s)(tmp_name path pid n \<mapsto> []), writers := (writers s)(n \<mapsto> (data, Some 0))\<rparr>)"
| writes: "writers s n = Some (data, Some k) \<Longrightarrow> k + m \<le> length data \<Longrightarrow> files s (tmp_name path pid n) = Some f \<Longrightarrow>
    put_step path pid s
      (s\<lparr>files := (files s)(tmp_name path pid n \<mapsto> write_at k (take m (drop k data)) f),
         writers := (writers s)(n \<mapsto> (data, Some (k + m)))\<rparr>)"
| renames: "writers s n = Some (data, Some (length data)) \<Longrightarrow> files s (tmp_name path pid n) = Some f \<Longrightarrow>
    put_step path pid s
      (s\<lparr>files := (files s)(tmp_name path pid n := None, path \<mapsto> f), writers := (writers s)(n := None)\<rparr>)"
| removes: "writers s n = Some (data, Some (length data)) \<Longrightarrow>
    put_step path pid s (s\<lparr>files := (files s)(tmp_name path pid n := None), writers := (writers s)(n := None)\<rparr>)"
| leaves: "writers s n = Some w \<Longrightarrow> put_step path pid s (s\<lparr>writers := (writers s)(n := None)\<rparr>)"

text \<open>
  A writer's file holds what the writer has written of its data; the handler's file is the old one
  or holds the whole of what one writer was given.
\<close>

definition put_ok :: "string \<Rightarrow> int \<Rightarrow> string option \<Rightarrow> put_state \<Rightarrow> bool" where
  "put_ok path pid old s \<longleftrightarrow>
     (\<forall>n data st. writers s n = Some (data, st) \<longrightarrow> n \<le> counter s \<and> data \<in> given s \<and>
        (\<forall>k. st = Some k \<longrightarrow> k \<le> length data \<and> files s (tmp_name path pid n) = Some (take k data))) \<and>
     (files s path = old \<or> files s path \<in> Some ` given s)"

lemma put_okD:
  assumes "put_ok path pid old s" and "writers s n = Some (data, st)"
  shows "n \<le> counter s" and "data \<in> given s"
    and "st = Some k \<Longrightarrow> k \<le> length data \<and> files s (tmp_name path pid n) = Some (take k data)"
  using assms unfolding put_ok_def by blast+

lemma put_ok_start: "writers s = Map.empty \<Longrightarrow> put_ok path pid (files s path) s"
  by (simp add: put_ok_def)

lemma put_ok_step:
  assumes "put_step path pid s t" and "put_ok path pid old s"
  shows "put_ok path pid old t"
  using assms(1)
proof (cases rule: put_step.cases)
  case (arrives data)
  then show ?thesis using assms(2) unfolding put_ok_def by auto (metis le_SucI)+
next
  case (opens n data)
  then show ?thesis using assms(2) put_okD [OF assms(2) opens(2)] unfolding put_ok_def by auto
next
  case (writes n data k m f)
  have f: "f = take k data" "k \<le> length data" using put_okD(3) [OF assms(2) writes(2) refl] writes(4) by simp_all
  have "write_at k (take m (drop k data)) f = take (k + m) data"
    using f writes(3) by (simp add: write_at_def take_add)
  then show ?thesis using writes assms(2) put_okD [OF assms(2) writes(2)] unfolding put_ok_def by auto
next
  case (renames n data f)
  have "f = data" "data \<in> given s" using put_okD(2,3) [OF assms(2) renames(2)] renames(3) by simp_all
  then show ?thesis using renames assms(2) unfolding put_ok_def by auto
next
  case (removes n data)
  then show ?thesis using assms(2) unfolding put_ok_def by auto
next
  case (leaves n w)
  then show ?thesis using assms(2) unfolding put_ok_def by auto
qed

lemma put_ok_steps: "(put_step path pid)\<^sup>*\<^sup>* s t \<Longrightarrow> put_ok path pid old s \<Longrightarrow> put_ok path pid old t"
  by (induction rule: rtranclp_induct) (auto intro: put_ok_step)

lemma next_writer_free: "put_ok path pid old s \<Longrightarrow> writers s (counter s + 1) = None"
  using put_okD(1) [of path pid old s "counter s + 1"] by (cases "writers s (counter s + 1)") force+

section \<open>The code is a run of one writer\<close>

text \<open>
  \<open>fs\<close> is the content of the file system and \<open>count\<close> the atomic counter. A write that fails may
  have written a part; a rename replaces the target in one step or does nothing.
\<close>

locale file_world =
  fixes e :: "'w outside" and fs :: "'w \<Rightarrow> string \<rightharpoonup> string" and count :: "'w \<Rightarrow> nat"
  assumes adding: "tmpCounter_Add e w = (n, w') \<Longrightarrow> n = count w + 1 \<and> count w' = count w + 1 \<and> fs w' = fs w"
    and writing: "os_WriteFile e p data w = (err, w') \<Longrightarrow> count w' = count w \<and>
      (case err of
         None \<Rightarrow> fs w' = (fs w)(p \<mapsto> data)
       | Some x \<Rightarrow> fs w' = fs w \<or> (\<exists>k\<le>length data. fs w' = (fs w)(p \<mapsto> take k data)))"
    and renaming: "os_Rename e a b w = (err, w') \<Longrightarrow> count w' = count w \<and>
      fs w' = (if err = None then (fs w)(a := None, b := fs w a) else fs w)"
    and removing: "os_Remove e p w = (err, w') \<Longrightarrow> count w' = count w \<and>
      fs w' = (if err = None then (fs w)(p := None) else fs w)"
    and reading: "os_ReadFile e p w = (res, w') \<Longrightarrow> count w' = count w \<and> fs w' = fs w \<and>
      (case res of Inl x \<Rightarrow> True | Inr data \<Rightarrow> fs w p = Some data)"
begin

definition put_snap :: "(nat \<rightharpoonup> string \<times> nat option) \<Rightarrow> string set \<Rightarrow> 'w \<Rightarrow> put_state" where
  "put_snap ws gs w = \<lparr>files = fs w, counter = count w, writers = ws, given = gs\<rparr>"

lemma write_steps:
  assumes "writeHandlerAtomically e path data w = (err, w')" and "ws (count w + 1) = None"
  shows "(put_step path (os_Getpid e))\<^sup>*\<^sup>* (put_snap ws gs w) (put_snap ws (insert data gs) w')"
    and "err = None \<Longrightarrow> fs w' = (fs w)(path \<mapsto> data, tmp_name path (os_Getpid e) (count w + 1) := None)"
    and "err \<noteq> None \<Longrightarrow> q \<noteq> tmp_name path (os_Getpid e) (count w + 1) \<Longrightarrow> fs w' q = fs w q"
proof -
  let ?pid = "os_Getpid e" and ?n = "count w + 1" and ?gs = "insert data gs"
  let ?tmp = "tmp_name path ?pid ?n" and ?step = "put_step path (os_Getpid e)"
  obtain w1 where c: "tmpCounter_Add e w = (?n, w1)" using adding by (metis surj_pair)
  note w1 = adding [OF c]
  obtain e2 w2 where wr: "os_WriteFile e ?tmp data w1 = (e2, w2)" by fastforce
  note w2 = writing [OF wr]
  have s1: "?step (put_snap ws gs w) (put_snap (ws(?n \<mapsto> (data, None))) ?gs w1)"
    using put_step.arrives [of path ?pid "put_snap ws gs w" data] w1 by (simp add: put_snap_def)
  define at where "at k = \<lparr>files = (fs w)(?tmp \<mapsto> take k data), counter = ?n, writers = ws(?n \<mapsto> (data, Some k)), given = ?gs\<rparr>" for k
  have s2: "?step (put_snap (ws(?n \<mapsto> (data, None))) ?gs w1) (at 0)"
    using put_step.opens [of "put_snap (ws(?n \<mapsto> (data, None))) ?gs w1" ?n data path ?pid] w1
    by (simp add: put_snap_def at_def)
  have s3: "?step (at 0) (at k)" if "k \<le> length data" for k
    using put_step.writes [of "at 0" ?n data 0 k path ?pid "[]"] that by (simp add: at_def write_at_def)
  have upto: "?step\<^sup>*\<^sup>* (put_snap ws gs w) (at k)" if "k \<le> length data" for k
    using s1 s2 s3 [OF that] by (meson converse_rtranclp_into_rtranclp r_into_rtranclp)
  have gone: "(ws(?n \<mapsto> y))(?n := None) = ws" for y using assms(2) by (simp add: fun_upd_idem)
  note onward = rtranclp.rtrancl_into_rtrancl
  have "?step\<^sup>*\<^sup>* (put_snap ws gs w) (put_snap ws ?gs w') \<and>
      (err = None \<longrightarrow> fs w' = (fs w)(path \<mapsto> data, ?tmp := None)) \<and>
      (err \<noteq> None \<longrightarrow> q \<noteq> ?tmp \<longrightarrow> fs w' q = fs w q)"
  proof (cases e2)
    case (Some x)
    then have w': "w' = w2" "err = Some x" using assms(1) c wr by (auto simp: writeHandlerAtomically_def)
    consider "fs w2 = fs w" | k where "k \<le> length data" "fs w2 = (fs w)(?tmp \<mapsto> take k data)"
      using w1 w2 Some by auto
    then show ?thesis
    proof cases
      case 1
      have "?step (put_snap (ws(?n \<mapsto> (data, None))) ?gs w1) (put_snap ws ?gs w2)"
        using put_step.leaves [of "put_snap (ws(?n \<mapsto> (data, None))) ?gs w1" ?n "(data, None)" path ?pid] w1 w2 1 gone
        by (simp add: put_snap_def)
      with s1 have "?step\<^sup>*\<^sup>* (put_snap ws gs w) (put_snap ws ?gs w2)" by simp
      then show ?thesis using w' 1 by simp
    next
      case 2
      have "?step (at k) (put_snap ws ?gs w2)"
        using put_step.leaves [of "at k" ?n "(data, Some k)" path ?pid] w1 w2 2 gone by (simp add: put_snap_def at_def)
      then show ?thesis using upto [OF 2(1)] w' 2 by (auto intro: onward)
    qed
  next
    case None
    then have f2: "fs w2 = (fs w)(?tmp \<mapsto> data)" "count w2 = ?n" using w1 w2 by auto
    obtain e3 w3 where rn: "os_Rename e ?tmp path w2 = (e3, w3)" by fastforce
    note w3 = renaming [OF rn]
    show ?thesis
    proof (cases e3)
      case e3: None
      then have w': "w' = w3" "err = None" using assms(1) c wr rn None by (auto simp: writeHandlerAtomically_def)
      have f3: "fs w3 = (fs w)(path \<mapsto> data, ?tmp := None)" using w3 e3 f2 by (auto simp: fun_eq_iff)
      have "?step (at (length data)) (put_snap ws ?gs w3)"
        using put_step.renames [of "at (length data)" ?n data path ?pid data] w3 f2 f3 gone
        by (simp add: put_snap_def at_def fun_upd_twist)
      then show ?thesis using upto [of "length data"] w' f3 by (auto intro: onward)
    next
      case (Some x)
      obtain e4 w4 where rm: "os_Remove e ?tmp w3 = (e4, w4)" by fastforce
      note w4 = removing [OF rm]
      have w': "w' = w4" "err = Some x" using assms(1) c wr rn None Some rm by (auto simp: writeHandlerAtomically_def)
      have f3: "fs w3 = (fs w)(?tmp \<mapsto> data)" "count w3 = ?n" using w3 Some f2 by auto
      have "?step (at (length data)) (put_snap ws ?gs w4)"
      proof (cases e4)
        case None
        then show ?thesis
          using put_step.removes [of "at (length data)" ?n data path ?pid] f3 w4 gone by (simp add: put_snap_def at_def)
      next
        case (Some y)
        then show ?thesis
          using put_step.leaves [of "at (length data)" ?n "(data, Some (length data))" path ?pid] f3 w4 gone
          by (simp add: put_snap_def at_def)
      qed
      then show ?thesis using upto [of "length data"] w' f3 w4 by (auto intro: onward)
    qed
  qed
  then show "?step\<^sup>*\<^sup>* (put_snap ws gs w) (put_snap ws ?gs w')"
    and "err = None \<Longrightarrow> fs w' = (fs w)(path \<mapsto> data, ?tmp := None)"
    and "err \<noteq> None \<Longrightarrow> q \<noteq> ?tmp \<Longrightarrow> fs w' q = fs w q"
    by blast+
qed

end

section \<open>The demo handler's file\<close>

text \<open>
  A file system in memory with a counter; \<open>fault\<close> is the call that fails: 1 for a write after three
  bytes, 2 for a rename.
\<close>

definition mem_files :: "nat \<Rightarrow> ((string \<rightharpoonup> string) \<times> nat) outside" where
  "mem_files fault =
     \<lparr>exec_caller = \<lparr>callErr = \<lambda>w. None, sendOrDone = \<lambda>l w. (None, w), closeStdoutCh = \<lambda>w. w, UnixNano = \<lambda>w. (0, w)\<rparr>,
      exec_lines = \<lambda>w. [], now_text = \<lambda>w. ''now'',
      os_ReadFile = \<lambda>p (m, n). (case m p of None \<Rightarrow> Inl (ErrorString ''no file'') | Some d \<Rightarrow> Inr d, (m, n)),
      os_WriteFile = \<lambda>p d (m, n). (if fault = 1 then (Some (ErrorString ''disk full''), (m(p \<mapsto> take (min 3 (length d)) d), n))
                                   else (None, (m(p \<mapsto> d), n))),
      os_Rename = \<lambda>a b (m, n). (if fault = 2 then (Some (ErrorString ''denied''), (m, n)) else (None, (m(a := None, b := m a), n))),
      os_Remove = \<lambda>p (m, n). (None, (m(p := None), n)),
      os_Getpid = 7, tmpCounter_Add = \<lambda>(m, n). (n + 1, (m, n + 1))\<rparr>"

interpretation mem_fw: file_world "mem_files fault" fst snd
proof (unfold_locales, goal_cases)
  case (2 p data w err w')
  have "min 3 (length data) \<le> length data" by simp
  with 2 show ?case
    by (cases w) (auto simp: mem_files_def split: if_splits intro!: disjI2 exI [of _ "min 3 (length data)"])
qed (auto simp: mem_files_def split: if_splits option.splits)

text \<open>
  C27: the file of the demo handler is never half written. Take any number of PUT requests at once,
  from a moment when there were none: the code of one request, whatever the file system answers it,
  is one more writer of the system, and in every state that the system can get into, wherever each
  of the writers is, has failed or has stopped, the file is the one from the start or holds exactly
  what one of the requests sent.
\<close>

theorem handler_file_whole:
  assumes "file_world e fs count" and "writers s = Map.empty"
    and "(put_step path (os_Getpid e))\<^sup>*\<^sup>* s \<lparr>files = fs w, counter = count w, writers = ws, given = gs\<rparr>"
    and "writeHandlerAtomically e path data w = (err, w')"
  shows "(put_step path (os_Getpid e))\<^sup>*\<^sup>* s \<lparr>files = fs w', counter = count w', writers = ws, given = insert data gs\<rparr> \<and>
    (\<forall>t. (put_step path (os_Getpid e))\<^sup>*\<^sup>* s t \<longrightarrow> files t path = files s path \<or> files t path \<in> Some ` given t)"
proof -
  note ok = put_ok_steps [OF _ put_ok_start [OF assms(2)], of path "os_Getpid e"]
  have "ws (count w + 1) = None" using next_writer_free [OF ok [OF assms(3)]] by simp
  then have "(put_step path (os_Getpid e))\<^sup>*\<^sup>* \<lparr>files = fs w, counter = count w, writers = ws, given = gs\<rparr>
      \<lparr>files = fs w', counter = count w', writers = ws, given = insert data gs\<rparr>"
    using file_world.write_steps(1) [OF assms(1,4), of ws gs] by (simp add: file_world.put_snap_def [OF assms(1)])
  moreover have "files t path = files s path \<or> files t path \<in> Some ` given t"
    if "(put_step path (os_Getpid e))\<^sup>*\<^sup>* s t" for t
    using ok [OF that] by (simp add: put_ok_def)
  ultimately show ?thesis using assms(3) by (blast intro: rtranclp_trans)
qed

theorem handler_file_whole_witness:
  "\<exists>w1 w2. writeHandlerAtomically (mem_files 0) ''/app/x'' ''use'' (Map.empty, 0) = (None, w1) \<and>
     writeHandlerAtomically (mem_files 1) ''/app/x'' ''package'' w1 = (Some (ErrorString ''disk full''), w2) \<and>
     fst w2 ''/app/x'' \<in> {None, Some ''use'', Some ''package''}"
proof -
  let ?s = "\<lparr>files = Map.empty, counter = 0, writers = Map.empty, given = {}\<rparr>"
  obtain e1 w1 where one: "writeHandlerAtomically (mem_files 0) ''/app/x'' ''use'' (Map.empty, 0) = (e1, w1)"
    by (meson surj_pair)
  obtain e2 w2 where two: "writeHandlerAtomically (mem_files 1) ''/app/x'' ''package'' w1 = (e2, w2)"
    by (meson surj_pair)
  have pid: "os_Getpid (mem_files f) = 7" for f by (simp add: mem_files_def)
  have "(put_step ''/app/x'' 7)\<^sup>*\<^sup>* ?s \<lparr>files = fst w1, counter = snd w1, writers = Map.empty, given = {''use''}\<rparr>"
    using handler_file_whole [OF mem_fw.file_world_axioms [of 0] _ _ one, of ?s Map.empty "{}"] by (simp add: pid)
  with handler_file_whole [OF mem_fw.file_world_axioms [of 1] _ _ two, of ?s Map.empty "{''use''}"]
  have "fst w2 ''/app/x'' \<in> {None, Some ''use'', Some ''package''}" by (auto simp: pid)
  moreover have "e1 = None" using one by (auto simp: writeHandlerAtomically_def mem_files_def)
  moreover have "e2 = Some (ErrorString ''disk full'')"
    using two by (cases w1) (auto simp: writeHandlerAtomically_def mem_files_def)
  ultimately show ?thesis using one two by blast
qed

text \<open>A write that fails leaves its temporary file behind; only a rename that fails removes it.\<close>

lemma failed_write_leaves_file:
  "fst (snd (writeHandlerAtomically (mem_files 1) ''/app/x'' ''package'' (Map.empty, 0))) ''/app/.x.7.1.tmp'' = Some ''pac''"
  "fst (snd (writeHandlerAtomically (mem_files 2) ''/app/x'' ''package'' (Map.empty, 0))) ''/app/.x.7.1.tmp'' = None"
  by code_simp+

text \<open>
  C36: what was put is what is got. A PUT that answers 204 has logged its body, and GET then answers
  200 with it; with any other answer the file is as before. No other file changes but one temporary
  file, and that is gone after 204.
\<close>

theorem put_handler_get_handler:
  assumes "file_world e fs count" and "handlePutAppHandler e c w = (c1, w1)" and "rg_status c \<noteq> 204"
    and "handleGetAppHandler e c2 w1 = (c3, w2)"
  shows "\<exists>q. q \<noteq> handlerAppFilePath \<and> (\<forall>p. p \<noteq> handlerAppFilePath \<longrightarrow> p \<noteq> q \<longrightarrow> fs w1 p = fs w p) \<and>
    (if rg_status c1 = 204
     then \<exists>body remote. rg_body c = Inr body \<and> int (length body) \<le> handlerAppMaxSize \<and>
       fs w1 handlerAppFilePath = Some body \<and> fs w1 q = None \<and>
       rg_log c1 = rg_log c @ [audit_line (now_text e w1) [] remote handlerUpdateClass body None None @ [nl]] \<and>
       (rg_status c3 = 200 \<longrightarrow> rg_response c3 = DataResponse ''text/plain; charset=utf-8'' body)
     else fs w1 handlerAppFilePath = fs w handlerAppFilePath \<and> rg_log c1 = rg_log c)"
proof -
  let ?q = "tmp_name handlerAppFilePath (os_Getpid e) (count w + 1)"
  have refused: ?thesis if "w1 = w" "rg_status c1 \<noteq> 204" "rg_log c1 = rg_log c"
    using that by (intro exI [of _ ?q]) auto
  show ?thesis
  proof (cases "clientAddress c")
    case (Inl err)
    with assms(2) refused show ?thesis by (simp add: handlePutAppHandler_def rg_JSON_error_def) fastforce
  next
    case addr: (Inr remote)
    show ?thesis
    proof (cases "ReadAllMax handlerAppMaxSize (rg_body c)")
      case (Inl err)
      with addr assms(2) refused show ?thesis by (simp add: handlePutAppHandler_def rg_JSON_error_def) fastforce
    next
      case body: (Inr body)
      then have b: "rg_body c = Inr body" "int (length body) \<le> handlerAppMaxSize"
        by (auto simp: ReadAllMax_def split: sum.splits if_splits)
      obtain err w' where wr: "writeHandlerAtomically e handlerAppFilePath body w = (err, w')" by (meson surj_pair)
      have w1: "w1 = w'" using assms(2) addr body wr by (auto simp: handlePutAppHandler_def split: option.splits)
      note steps = file_world.write_steps [OF assms(1) wr, of Map.empty, simplified]
      show ?thesis
      proof (cases err)
        case None
        have c1: "c1 = auditLog e [] remote handlerUpdateClass body None None w1 c\<lparr>rg_status := 204\<rparr>"
          using assms(2) addr body wr None by (auto simp: handlePutAppHandler_def)
        have f: "fs w1 = (fs w)(handlerAppFilePath \<mapsto> body, ?q := None)" using steps(2) None w1 by simp
        have "rg_status c3 = 200 \<longrightarrow> rg_response c3 = DataResponse ''text/plain; charset=utf-8'' body"
          using assms(4) f
          by (auto simp: handleGetAppHandler_def rg_JSON_error_def split: prod.splits sum.splits
              dest: file_world.reading [OF assms(1)])
        then show ?thesis
          using c1 f b by (intro exI [of _ ?q]) (auto simp: auditLog_def)
      next
        case (Some x)
        then have "c1 = rg_JSON_error 500 (error_text x) c"
          using assms(2) addr body wr by (simp add: handlePutAppHandler_def)
        then show ?thesis using steps(3) Some w1 by (intro exI [of _ ?q]) (auto simp: rg_JSON_error_def)
      qed
    qed
  qed
qed

text \<open>A PUT of a small handler.\<close>

definition put_request :: "string \<Rightarrow> rgin" where
  "put_request body =
     \<lparr>rg_cookie = Map.empty, rg_header = \<lambda>k. if k = ''X-Bunshin-Client-Address'' then ''1.2.3.4:8'' else [],
      rg_json = Inr [], rg_body = Inr body, rg_status = 0, rg_headers = Map.empty, rg_set_cookies = [],
      rg_strict = False, rg_response = NoResponse, rg_log = []\<rparr>"

theorem put_handler_get_handler_witness:
  "\<exists>c1 w1 c3 w2. handlePutAppHandler (mem_files 0) (put_request ''1;'') (Map.empty, 0) = (c1, w1) \<and>
     handleGetAppHandler (mem_files 0) (put_request []) w1 = (c3, w2) \<and>
     rg_response c3 = DataResponse ''text/plain; charset=utf-8'' ''1;'' \<and> fst w1 handlerAppFilePath = Some ''1;''"
proof -
  obtain c1 w1 where put: "handlePutAppHandler (mem_files 0) (put_request ''1;'') (Map.empty, 0) = (c1, w1)"
    by (meson surj_pair)
  obtain c3 w2 where get: "handleGetAppHandler (mem_files 0) (put_request []) w1 = (c3, w2)" by (meson surj_pair)
  have addr: "clientAddress (put_request ''1;'') = Inr ''1.2.3.4:8''"
    by (simp add: clientAddress_def put_request_def clientAddressHeader_def) code_simp
  have s1: "rg_status c1 = 204"
    using put addr
    by (auto simp: handlePutAppHandler_def put_request_def ReadAllMax_def handlerAppMaxSize_def writeHandlerAtomically_def
        mem_files_def)
  have "rg_status (put_request ''1;'') \<noteq> 204" by (simp add: put_request_def)
  from put_handler_get_handler [OF mem_fw.file_world_axioms put this get] s1
  have f: "fst w1 handlerAppFilePath = Some ''1;''"
    and r: "rg_status c3 = 200 \<longrightarrow> rg_response c3 = DataResponse ''text/plain; charset=utf-8'' ''1;''"
    by (auto simp: put_request_def)
  from f have "rg_status c3 = 200" using get by (cases w1) (auto simp: handleGetAppHandler_def mem_files_def)
  with put get f r show ?thesis by blast
qed

end
