(* ===== verification/Runner_Main.thy ===== *)
theory Runner_Main
  imports Runner_Handler Runner_Registration
begin

text \<open>
  \<open>runner/main.go\<close>: the runner listens, finds out who it is, registers, serves until a signal
  comes, and shuts down. The parts that the code takes as function values are arguments.
\<close>

section \<open>Serving\<close>

text \<open>
  What happens while the server runs, in the order in which it takes effect: requests, an error of
  \<open>Serve\<close>, and a signal. \<open>ErrServerClosed\<close> is not sent to the channel. A handler that never
  returns, and a server to which nothing more happens, are \<open>None\<close>.
\<close>

datatype runner_event = Request string string rgin | Serve go_error | TerminationSignal

fun serve_until ::
  "'w outside \<Rightarrow> ('h, 'w) Shell \<Rightarrow> runner_event list \<Rightarrow> ('h, 'w) ShellManager \<Rightarrow> 'w \<Rightarrow>
   ((go_error + unit) \<times> ('h, 'w) ShellManager \<times> 'w) option" where
  "serve_until e ops [] sm w = None"
| "serve_until e ops (Request verb path c # evs) sm w =
     (case newHandler e ops verb path sm c w of
        None \<Rightarrow> None
      | Some (_, sm1, w1) \<Rightarrow> serve_until e ops evs sm1 w1)"
| "serve_until e ops (Serve err # evs) sm w =
     (if err = Sentinel ErrServerClosed then serve_until e ops evs sm w else Some (Inl err, sm, w))"
| "serve_until e ops (TerminationSignal # evs) sm w = Some (Inr (), sm, w)"

section \<open>run\<close>

text \<open>
  \<open>superviseFn\<close> runs in a goroutine: \<open>supervisor_done\<close> is the receive from \<open>supDone\<close> after
  \<open>supCancel\<close>. \<open>map_order\<close> is the order in which Go ranges over the map of the shells.
\<close>

record ('h, 'w) serverConfig =
  cfg_sm :: "('h, 'w) ShellManager"
  cfg_brokerURL :: string
  cfg_runnerID :: string

record ('h, 'w) server_env =
  srv_outside :: "'w outside"
  srv_shell :: "('h, 'w) Shell"
  map_order :: "(string \<rightharpoonup> 'h) \<Rightarrow> string list"
  supCancel :: "'w \<Rightarrow> 'w"
  supervisor_done :: "'w \<Rightarrow> 'w option"
  srv_Shutdown :: "'w \<Rightarrow> go_error option \<times> 'w"
  deregister_deps :: "string \<Rightarrow> string \<Rightarrow> 'w deregisterDeps"
  srv_log :: "string \<Rightarrow> 'w \<Rightarrow> 'w"

definition try_deregister :: "('h, 'w) server_env \<Rightarrow> ('h, 'w) serverConfig \<Rightarrow> 'w \<Rightarrow> 'w" where
  "try_deregister v cfg w =
     (if cfg_brokerURL cfg \<noteq> [] \<and> cfg_runnerID cfg \<noteq> []
      then case deregister (deregister_deps v (cfg_brokerURL cfg) (cfg_runnerID cfg)) w of
             (Some err, w1) \<Rightarrow> srv_log v (''WARNING: deregister from broker failed: '' @ error_text err) w1
           | (None, w1) \<Rightarrow> w1
      else w)"

definition log_error :: "('h, 'w) server_env \<Rightarrow> string \<Rightarrow> go_error option \<Rightarrow> 'w \<Rightarrow> 'w" where
  "log_error v what err w = (case err of None \<Rightarrow> w | Some e \<Rightarrow> srv_log v (what @ error_text e) w)"

definition shut_down ::
  "('h, 'w) server_env \<Rightarrow> ('h, 'w) serverConfig \<Rightarrow> ('h, 'w) ShellManager \<Rightarrow> 'w \<Rightarrow>
   (go_error option \<times> ('h, 'w) ShellManager \<times> 'w) option" where
  "shut_down v cfg sm w =
     (let w1 = try_deregister v cfg (supCancel v (srv_log v ''shutting down...'' w));
          (shutErr, w2) = srv_Shutdown v w1;
          w3 = log_error v ''server shutdown error: '' shutErr w2
      in case CloseAll (map_order v) (srv_shell v) sm w3 of
           None \<Rightarrow> None
         | Some (closeErr, sm1, w4) \<Rightarrow>
             (case supervisor_done v (log_error v ''shell cleanup error: '' closeErr w4) of
                None \<Rightarrow> None
              | Some w5 \<Rightarrow>
                  Some (if shutErr = None then closeErr else shutErr, sm1, srv_log v ''shutdown complete'' w5)))"

definition runner_run ::
  "('h, 'w) server_env \<Rightarrow> runner_event list \<Rightarrow> ('h, 'w) serverConfig \<Rightarrow> 'w \<Rightarrow>
   (go_error option \<times> ('h, 'w) ShellManager \<times> 'w) option" where
  "runner_run v evs cfg w =
     (case serve_until (srv_outside v) (srv_shell v) evs (cfg_sm cfg) w of
        None \<Rightarrow> None
      | Some (Inl err, sm, w1) \<Rightarrow>
          (case supervisor_done v (supCancel v w1) of
             None \<Rightarrow> None
           | Some w2 \<Rightarrow> Some (Some (Wrap ''serve: '' err), sm, w2))
      | Some (Inr _, sm, w1) \<Rightarrow> shut_down v cfg sm w1)"

section \<open>start\<close>

text \<open>
  \<open>signal_Notify\<close> and \<open>signal_Stop\<close> are the calls of the package \<open>signal\<close>; \<open>ln_Close\<close> closes the
  listener. The context of the registration is done when a signal comes, and the goroutine puts the
  signal back into the channel, so that the server finds it there.
\<close>

record ('h, 'w) start_env =
  signal_Notify :: "'w \<Rightarrow> 'w"
  signal_Stop :: "'w \<Rightarrow> 'w"
  net_Listen :: "string \<Rightarrow> 'w \<Rightarrow> go_error option \<times> 'w"
  ln_Close :: "'w \<Rightarrow> 'w"
  identity_deps :: "'w identityDeps"
  register_deps :: "string \<Rightarrow> Identity \<Rightarrow> 'w registerDeps"
  new_manager :: "('h, 'w) ShellManager"
  start_log :: "string \<Rightarrow> 'w \<Rightarrow> 'w"

text \<open>\<open>start\<close> up to the call of \<open>run\<close>: an error, with the listener closed, or the configuration.\<close>

definition start_config ::
  "('h, 'w) start_env \<Rightarrow> string \<Rightarrow> 'w \<Rightarrow> ((go_error + ('h, 'w) serverConfig) \<times> 'w) option" where
  "start_config s addr w =
     (case net_Listen s addr (signal_Notify s w) of
        (Some err, w1) \<Rightarrow> Some (Inl (Wrap ''listen: '' err), w1)
      | (None, w1) \<Rightarrow>
          (case resolveIdentity (identity_deps s) w1 of
             (Inl err, w2) \<Rightarrow> Some (Inl (Wrap ''resolve identity: '' err), ln_Close s w2)
           | (Inr i, w2) \<Rightarrow>
               (let w3 = start_log s (''runner identity: id='' @ IdentityRunnerID i @ '' host='' @ IdentityPrivateHost i) w2;
                    url = getenv (identity_deps s) ''BROKER_URL''
                in if url = []
                   then Some (Inl (ErrorString ''missing required environment variable: BROKER_URL''), ln_Close s w3)
                   else (case register (register_deps s url i) w3 of
                      None \<Rightarrow> None
                    | Some (Some err, w4) \<Rightarrow> Some (Inl (Wrap ''register with broker: '' err), ln_Close s w4)
                    | Some (None, w4) \<Rightarrow>
                        Some (Inr \<lparr>cfg_sm = new_manager s, cfg_brokerURL = url, cfg_runnerID = IdentityRunnerID i\<rparr>, w4)))))"

definition start ::
  "('h, 'w) start_env \<Rightarrow> ('h, 'w) server_env \<Rightarrow> runner_event list \<Rightarrow> string \<Rightarrow> 'w \<Rightarrow> (go_error option \<times> 'w) option" where
  "start s v evs addr w =
     (case start_config s addr w of
        None \<Rightarrow> None
      | Some (Inl err, w1) \<Rightarrow> Some (Some err, signal_Stop s w1)
      | Some (Inr cfg, w1) \<Rightarrow>
          (case runner_run v evs cfg w1 of
             None \<Rightarrow> None
           | Some (err, sm, w2) \<Rightarrow> Some (err, signal_Stop s w2)))"

text \<open>\<open>main\<close>: the text of the fatal error, if there is one.\<close>

definition runner_main ::
  "('h, 'w) start_env \<Rightarrow> ('h, 'w) server_env \<Rightarrow> runner_event list \<Rightarrow> 'w \<Rightarrow> (string option \<times> 'w) option" where
  "runner_main s v evs w =
     (let port = getenv (identity_deps s) ''RUNNER_API_PORT''
      in if port = [] then Some (Some ''missing required environment variable: RUNNER_API_PORT'', w)
         else (case start s v evs ('':'' @ port) w of
            None \<Rightarrow> None
          | Some (Some err, w1) \<Rightarrow> Some (Some (''server error: '' @ error_text err), w1)
          | Some (None, w1) \<Rightarrow> Some (None, w1)))"

end
