(* ===== verification/Bash_Session.thy ===== *)
theory Bash_Session
  imports Bash_Shell
begin

text \<open>
  What \<open>bashShell\<close> promises. The locale \<open>bash_session\<close> states what it relies on: a bash that
  runs the lines it is given and writes what a command prints, an operating system that delivers
  the bytes of each pipe in order and in any chunks, \<open>bufio.Scanner\<close>, and a clock. The
  last part interprets it on a bash in memory.
\<close>

section \<open>Lines and what is relayed\<close>

text \<open>\<open>bufio.ScanLines\<close> drops a carriage return at the end of a line; the buffer is 1 MiB.\<close>

definition dropCR :: "string \<Rightarrow> string" where
  "dropCR l = (if l \<noteq> [] \<and> last l = CHR 0x0D then butlast l else l)"

definition maxLine :: int where "maxLine = 1024 * 1024"

text \<open>
  What the loop sends for the lines before the marker, and the same in one piece: every line
  with its newline, except an empty last one, which the script has added.
\<close>

fun relay :: "bool \<Rightarrow> string list \<Rightarrow> string list" where
  "relay pe [] = []"
| "relay pe (l # ls) =
     (if pe then [[nl]] else []) @ (if l = [] then relay True ls else (l @ [nl]) # relay False ls)"

definition drop_last_empty :: "string list \<Rightarrow> string list" where
  "drop_last_empty ls = (if ls \<noteq> [] \<and> last ls = [] then butlast ls else ls)"

lemma drop_last_empty_Cons:
  "drop_last_empty (l # ls) = (if ls = [] then (if l = [] then [] else [l]) else l # drop_last_empty ls)"
  by (simp add: drop_last_empty_def)

lemma relay_eq:
  "relay pe ls = map (\<lambda>l. l @ [nl]) (drop_last_empty ((if pe then [[]] else []) @ ls))"
proof (induction ls arbitrary: pe)
  case Nil
  then show ?case by (simp add: drop_last_empty_def)
next
  case (Cons l ls)
  show ?case
    by (cases pe; cases "l = []"; cases "ls = []")
      (auto simp: Cons.IH drop_last_empty_Cons; simp add: drop_last_empty_def)+
qed

text \<open>For text without carriage returns the relayed lines are the text, ended with a newline.\<close>

definition with_newline :: "string \<Rightarrow> string" where
  "with_newline t = (if t = [] \<or> last t = nl then t else t @ [nl])"

lemma concat_lines: "concat (map (\<lambda>l. l @ [c]) (Split_on c t)) = t @ [c]"
  by (induction c t rule: Split_on.induct) (auto split: list.splits)

lemma last_Split_on: "last (Split_on c t) = [] \<longleftrightarrow> t = [] \<or> last t = c"
proof (induction t)
  case (Cons x t)
  show ?case
  proof (cases "x = c")
    case True
    then show ?thesis using Cons.IH by simp
  next
    case False
    obtain y ys where s: "Split_on c t = y # ys" by (cases "Split_on c t") auto
    have "t = [] \<longleftrightarrow> ys = [] \<and> y = []" using s by (cases t) (auto split: if_splits list.splits)
    then show ?thesis using False s Cons.IH by (cases ys) auto
  qed
qed simp

lemma concat_relay_lines:
  "concat (map (\<lambda>l. l @ [c]) (drop_last_empty (Split_on c t))) = (if t = [] \<or> last t = c then t else t @ [c])"
proof (cases "last (Split_on c t) = []")
  case True
  then obtain ls where ls: "Split_on c t = ls @ [[]]"
    using append_butlast_last_id [OF Split_on_neq_Nil, of c t] by metis
  then have "concat (map (\<lambda>l. l @ [c]) ls) @ [c] = t @ [c]" using concat_lines [of c t] by simp
  moreover have "t = [] \<or> last t = c" using True by (simp only: last_Split_on)
  ultimately show ?thesis using ls by (simp add: drop_last_empty_def)
next
  case False
  then show ?thesis by (simp add: concat_lines last_Split_on drop_last_empty_def)
qed

lemma dropCR_id: "CHR 0x0D \<notin> set l \<Longrightarrow> dropCR l = l"
  by (metis dropCR_def last_in_set)

lemma relay_text:
  assumes "CHR 0x0D \<notin> set t"
  shows "concat (relay False (map dropCR (Split_on nl t))) = with_newline t"
proof -
  have "dropCR l = l" if "l \<in> set (Split_on nl t)" for l
    using Split_on_parts [OF that] assms by (intro dropCR_id) auto
  then have "map dropCR (Split_on nl t) = Split_on nl t" by (simp add: map_idI)
  then show ?thesis by (simp add: relay_eq concat_relay_lines with_newline_def)
qed

section \<open>Markers\<close>

text \<open>
  A marker begins with a fixed text that is followed by a digit or a sign. When standard error
  does not hold this text, the marker that follows it is found at its own place: a marker cannot
  begin before it and end in it.
\<close>

definition marker_head :: string where "marker_head = ''__MRK_''"

lemma marker_text_head: "marker_text t = marker_head @ show_int t @ ''_END__''"
  by (simp add: marker_text_def marker_head_def)

lemma show_int_hd: "\<exists>c cs. show_int t = c # cs \<and> c \<noteq> CHR ''_'' \<and> c \<noteq> nl"
proof -
  have "\<exists>c cs. show_nat n = c # cs \<and> is_digit c" for n
    using show_nat_digits [of n] by (cases "show_nat n") auto
  moreover have "is_digit c \<Longrightarrow> c \<noteq> CHR ''_'' \<and> c \<noteq> nl" for c by (auto simp: char_class_defs nl_def)
  ultimately show ?thesis unfolding show_int_def by (fastforce simp: nl_def)
qed

lemma marker_no_overlap:
  assumes "0 < d" and "d < 6" and "prefix (marker_text t) (u @ marker_text t @ r)" and "length u = d"
  shows False
proof -
  obtain c cs where i: "show_int t = c # cs" "c \<noteq> CHR ''_''" using show_int_hd by blast
  have m: "marker_text t = ''__MRK_'' @ c # cs @ ''_END__''" by (simp add: marker_text_def i(1))
  obtain z where z: "u @ marker_text t @ r = marker_text t @ z" using assms(3) by (auto simp: prefix_def)
  have len: "7 \<le> length (marker_text t)" by (simp add: m)
  have "(u @ marker_text t @ r) ! (d + j) = marker_text t ! j" if "j < 7" for j
    using that assms(4) len by (simp add: nth_append)
  then have eq: "(marker_text t @ z) ! (d + j) = marker_text t ! j" if "j < 7" for j
    using that z by simp
  have "d = 1 \<or> d = 2 \<or> d = 3 \<or> d = 4 \<or> d = 5" using assms(1,2) by arith
  then show False
    using eq [of 0] eq [of 1] i(2) unfolding m by (elim disjE) simp_all
qed

lemma marker_place:
  assumes "\<not> sublist marker_head e"
  shows "Index (e @ marker_text t) (marker_text t) = Some (length e)"
proof -
  have "Index (e @ marker_text t @ []) (marker_text t) = Some (length e)"
  proof (rule Index_first)
    fix n
    assume n: "n < length e"
    show "\<not> prefix (marker_text t) (drop n e @ marker_text t @ [])"
    proof
      assume pre: "prefix (marker_text t) (drop n e @ marker_text t @ [])"
      show False
      proof (cases "length e - n < 6")
        case True
        then show False using marker_no_overlap [of "length e - n" t "drop n e" "[]"] pre n by simp
      next
        case False
        have "prefix marker_head (marker_text t)" by (simp add: marker_text_head)
        then have "prefix marker_head (drop n e @ marker_text t)" using pre by (simp add: prefix_order.trans)
        then have "prefix marker_head (drop n e)"
          by (rule prefix_length_prefix) (use False in \<open>simp_all add: marker_head_def\<close>)
        then obtain z where "drop n e = marker_head @ z" by (auto simp: prefix_def)
        then have "e = take n e @ marker_head @ z" by (metis append_take_drop_id)
        then have "sublist marker_head e" unfolding sublist_def by blast
        then show False using assms by simp
      qed
    qed
  qed
  then show ?thesis by simp
qed

lemma sublist_head_nl: "sublist marker_head (nl # e) \<longleftrightarrow> sublist marker_head e"
  by (simp add: sublist_Cons_right marker_head_def nl_def)

lemma no_head_after_nl:
  "x = [] \<or> x = [nl] \<Longrightarrow> \<not> sublist marker_head e \<Longrightarrow> \<not> sublist marker_head (x @ e)"
  by (elim disjE) (simp_all add: sublist_head_nl)

lemma marker_text_neq_Nil [simp]: "marker_text t \<noteq> []"
  by (simp add: marker_text_def)

lemma nl_not_in_marker: "nl \<notin> set (marker_text t)"
  using nl_not_in_show_int [of t] by (simp add: marker_text_def) (simp add: nl_def)

text \<open>The marker line is short: the clock is a 64-bit number and an exit code is a byte.\<close>

lemma length_show_nat: "n < 10 ^ Suc d \<Longrightarrow> length (show_nat n) \<le> Suc d"
proof (induction d arbitrary: n)
  case 0
  then show ?case by (simp add: show_nat.simps [of n])
next
  case (Suc d)
  show ?case
  proof (cases "n < 10")
    case False
    have "n div 10 < 10 ^ Suc d" using Suc.prems by (simp add: less_mult_imp_div_less mult.commute)
    then show ?thesis using Suc.IH [of "n div 10"] False by (simp add: show_nat.simps [of n])
  qed (simp add: show_nat.simps [of n])
qed

lemma marker_line_short:
  assumes "- (2 ^ 63) \<le> t" and "t < 2 ^ 63" and "0 \<le> ec" and "ec < 256"
  shows "int (length (marker_text t @ show_int ec)) < maxLine"
proof -
  have "nat t < 10 ^ Suc 18" and "nat (- t) < 10 ^ Suc 18" using assms(1,2) by auto
  from this [THEN length_show_nat] have "length (show_int t) \<le> 20" by (auto simp: show_int_def)
  moreover have "length (show_int ec) \<le> 3"
    using length_show_nat [of "nat ec" 2] assms(3,4) by (simp add: show_int_def)
  ultimately show ?thesis by (simp add: marker_text_def maxLine_def)
qed

lemma dropCR_marker_line: "0 \<le> ec \<Longrightarrow> dropCR (marker_text t @ show_int ec) = marker_text t @ show_int ec"
proof -
  assume "0 \<le> ec"
  then have "show_int ec = show_nat (nat ec)" by (simp add: show_int_def)
  moreover have "show_nat n \<noteq> []" and "list_all is_digit (show_nat n)" for n
    using show_nat_digits [of n] by auto
  moreover have "is_digit c \<Longrightarrow> c \<noteq> CHR 0x0D" for c by (auto simp: char_class_defs)
  ultimately have "last (marker_text t @ show_int ec) \<noteq> CHR 0x0D"
    by (metis last_appendR last_in_set list_all_iff)
  then show ?thesis by (simp add: dropCR_def)
qed

section \<open>What a session relies on\<close>

text \<open>
  What there is to see of a world: the bytes of standard output and standard error that have been
  written and not yet read, the lines that went to the caller's channel, and the state of bash.
\<close>

record 'sh session_view =
  v_out :: string
  v_err :: string
  v_sent :: "string list"
  v_shell :: 'sh

lemma view_err_trans: "v' = v\<lparr>v_err := a\<rparr> \<Longrightarrow> v'' = v'\<lparr>v_err := b\<rparr> \<Longrightarrow> v'' = v\<lparr>v_err := b\<rparr>"
  by simp

lemma view_err_fields:
  "v' = v\<lparr>v_err := b\<rparr> \<Longrightarrow> v_out v' = v_out v \<and> v_sent v' = v_sent v \<and> v_shell v' = v_shell v"
  by simp

definition context_error :: "go_error \<Rightarrow> bool" where
  "context_error e \<longleftrightarrow> e = Sentinel ContextCanceled \<or> e = Sentinel ContextDeadlineExceeded"

text \<open>
  Chunks are whole when no read stops right before the newline that ends the marker line.
  \<open>reader_waits m pre s rest\<close>: of standard error, which is the text \<open>pre\<close> and the marker line,
  the bytes \<open>rest\<close> have not been read, and the marker has not been found yet.
\<close>

definition whole_chunks :: "'w streams \<Rightarrow> ('w \<Rightarrow> 'sh session_view) \<Rightarrow> bool" where
  "whole_chunks p view \<longleftrightarrow> (\<forall>w c w'. nextChunk p w = Some (c, w') \<longrightarrow> v_err (view w') \<noteq> [nl])"

definition reader_waits :: "string \<Rightarrow> string \<Rightarrow> bashShell \<Rightarrow> string \<Rightarrow> bool" where
  "reader_waits m pre s rest \<longleftrightarrow>
     stderrMarker s = m \<and> m \<noteq> [] \<and> Index (pre @ m) m = Some (length pre) \<and> stderrDone s = OpenChan \<and>
     stderrBuf s @ rest = pre @ m @ [nl] \<and> length (stderrBuf s) < length (pre @ m)"

text \<open>
  A shell is idle when it is not broken and nothing is left to read on standard output; on
  standard error at most the newline of the last marker line is.
\<close>

definition session_idle :: "bashShell \<Rightarrow> 'sh session_view \<Rightarrow> bool" where
  "session_idle s v \<longleftrightarrow>
     broken s = None \<and> (stderrMarker s = [] \<or> (\<exists>t. stderrMarker s = marker_text t)) \<and>
     v_out v = [] \<and> (v_err v = [] \<or> v_err v = [nl])"

text \<open>The lines before the marker line fit the scanner's buffer and are no marker lines.\<close>

definition lines_ok :: "string \<Rightarrow> string list \<Rightarrow> bool" where
  "lines_ok m ls \<longleftrightarrow> (\<forall>l\<in>set ls. nl \<notin> set l \<and> int (length l) < maxLine \<and> \<not> prefix m (dropCR l))"

lemma suffix_of_one: "x = a @ b \<Longrightarrow> x = [] \<or> x = [c] \<Longrightarrow> b = [] \<or> b = x"
  by (cases a) auto

lemma taken_append:
  assumes "x @ y = s @ all" and "length s \<le> length x"
  shows "\<exists>n. x = s @ take n all"
proof -
  have "prefix s x" using assms by (metis prefixI prefix_length_prefix)
  then obtain z where "x = s @ z" by (auto simp: prefix_def)
  with assms(1) show ?thesis by (metis append_assoc append_eq_conv_conj same_append_eq)
qed

text \<open>
  How a call for a command ends that prints the lines \<open>ls\<close> and then \<open>pre\<close> on standard error.
  Either all lines went to the channel and the exit code and standard error are those of the
  command, with one stray newline at the end at most; or the caller's context was done and a
  first part of the lines has been sent. In both cases the shell is idle again.
\<close>

definition answers ::
  "(go_error \<Rightarrow> bool) \<Rightarrow> bool \<Rightarrow> string \<Rightarrow> string list \<Rightarrow> int \<Rightarrow> string list \<Rightarrow> string list \<Rightarrow>
   executed \<Rightarrow> bool" where
  "answers ctx_error whole pre ls ec sent sent' res \<longleftrightarrow>
     (case res of
        (c, e, None) \<Rightarrow> c = ec \<and> (e = pre \<or> e = pre @ [nl]) \<and> (whole \<longrightarrow> e = pre) \<and> sent' = sent @ ls
      | (c, e, Some err) \<Rightarrow> c = -1 \<and> e = [] \<and> (\<exists>n. sent' = sent @ take n ls) \<and>
          (\<exists>x. ctx_error x \<and> (err = Wrap ''context: '' x \<or> err = desynchronized (Wrap ''context: '' x))))"

definition command_ends ::
  "(go_error \<Rightarrow> bool) \<Rightarrow> 'w streams \<Rightarrow> ('w \<Rightarrow> 'sh session_view) \<Rightarrow> string \<Rightarrow> string list \<Rightarrow> int \<Rightarrow>
   'sh \<Rightarrow> string list \<Rightarrow> (executed \<times> bashShell \<times> 'w) option \<Rightarrow> bool" where
  "command_ends ctx_error p view pre ls ec sh sent r \<longleftrightarrow>
     (\<exists>res s' w'. r = Some (res, s', w') \<and> session_idle s' (view w') \<and> v_shell (view w') = sh \<and>
        (whole_chunks p view \<longrightarrow> v_err (view w') = []) \<and>
        answers ctx_error (whole_chunks p view) pre ls ec sent (v_sent (view w')) res)"

text \<open>
  A command is clean when its output holds no carriage return, no line that begins like a marker
  or does not fit the scanner, and its standard error does not hold the head of a marker.
\<close>

definition clean_output :: "string \<Rightarrow> string \<Rightarrow> bool" where
  "clean_output out err \<longleftrightarrow>
     CHR 0x0D \<notin> set out \<and> \<not> sublist marker_head err \<and>
     (\<forall>l\<in>set (Split_on nl out). int (length l) < maxLine \<and> \<not> prefix marker_head l)"

lemma clean_dropCR: "clean_output out err \<Longrightarrow> l \<in> set (Split_on nl out) \<Longrightarrow> dropCR l = l"
  using Split_on_parts [of l nl out] by (intro dropCR_id) (auto simp: clean_output_def)

text \<open>Several commands, each with a channel of its own; and what bash does with them.\<close>

fun execute_all ::
  "'w streams \<Rightarrow> 'w caller \<Rightarrow> string list \<Rightarrow> bashShell \<Rightarrow> 'w \<Rightarrow> (executed list \<times> bashShell \<times> 'w) option" where
  "execute_all p k [] s w = Some ([], s, w)"
| "execute_all p k (cmd # cmds) s w =
     (case ExecuteStream p k cmd s w of
        None \<Rightarrow> None
      | Some (res, s1, w1) \<Rightarrow>
          (case execute_all p k cmds s1 w1 of
             None \<Rightarrow> None
           | Some (rs, s2, w2) \<Rightarrow> Some (res # rs, s2, w2)))"

fun bash_all ::
  "('sh \<Rightarrow> string \<Rightarrow> (string \<times> string \<times> int \<times> 'sh) option) \<Rightarrow> string list \<Rightarrow> 'sh \<Rightarrow>
   ((string \<times> string \<times> int) list \<times> 'sh) option" where
  "bash_all run [] sh = Some ([], sh)"
| "bash_all run (cmd # cmds) sh =
     (case run sh cmd of
        None \<Rightarrow> None
      | Some (out, err, ec, sh1) \<Rightarrow>
          (case bash_all run cmds sh1 of
             None \<Rightarrow> None
           | Some (es, sh2) \<Rightarrow> Some ((out, err, ec) # es, sh2)))"

definition never_cancelled :: "'w caller \<Rightarrow> bool" where
  "never_cancelled k \<longleftrightarrow> (\<forall>w. callErr k w = None) \<and> (\<forall>l w. fst (sendOrDone k l w) = None)"

text \<open>
  \<open>run\<close> says what bash does with a command: its output, its standard error, its exit code and
  the next state; \<open>None\<close> for a command that does not come back to the script, such as one that
  ends bash, redirects its standard error for good, or reads the rest of the script.
\<close>

locale bash_session =
  fixes p :: "'w streams"
    and k :: "'w caller"
    and view :: "'w \<Rightarrow> 'sh session_view"
    and run :: "'sh \<Rightarrow> string \<Rightarrow> (string \<times> string \<times> int \<times> 'sh) option"
    and ctx_error :: "go_error \<Rightarrow> bool"
  assumes clock: "UnixNano k w = (t, w') \<Longrightarrow> view w' = view w \<and> - (2 ^ 63) \<le> t \<and> t < 2 ^ 63"
    and bash: "writeStdin p (script_text cmd (marker_text t)) w = (res, w') \<Longrightarrow> v_out (view w) = [] \<Longrightarrow>
      run (v_shell (view w)) cmd = Some (out, err, ec, sh) \<Longrightarrow>
      res = None \<and> 0 \<le> ec \<and> ec < 256 \<and>
      view w' = (view w)\<lparr>v_out := out @ [nl] @ marker_text t @ show_int ec @ [nl],
        v_err := v_err (view w) @ err @ marker_text t @ [nl], v_shell := sh\<rparr>"
    and scanner: "v_out (view w) = l @ nl # rest \<Longrightarrow> nl \<notin> set l \<Longrightarrow> int (length l) < maxLine \<Longrightarrow>
      \<exists>w'. scanStdout p w = Some (Line (dropCR l), w') \<and> view w' = (view w)\<lparr>v_out := rest\<rparr>"
    and ready: "readyChunks p w = (cs, w') \<Longrightarrow>
      v_err (view w) = concat cs @ v_err (view w') \<and> view w' = (view w)\<lparr>v_err := v_err (view w')\<rparr>"
    and waiting: "v_err (view w) \<noteq> [] \<Longrightarrow>
      \<exists>c w'. nextChunk p w = Some (c, w') \<and> c \<noteq> [] \<and> v_err (view w) = c @ v_err (view w') \<and>
        view w' = (view w)\<lparr>v_err := v_err (view w')\<rparr>"
    and channel: "sendOrDone k l w = (res, w') \<Longrightarrow>
      (case res of
         None \<Rightarrow> view w' = (view w)\<lparr>v_sent := v_sent (view w) @ [l]\<rparr>
       | Some e \<Rightarrow> view w' = view w \<and> ctx_error e)"
    and call_error: "callErr k w = Some e \<Longrightarrow> ctx_error e"
    and closing: "view (closeStdoutCh k w) = view w"
begin

lemma await_finishes:
  assumes "reader_waits m pre s (v_err (view w))"
  shows "\<exists>s' w'. await_stderr p s w = Some (s', w') \<and> stderrBuf s' = pre \<and> stderrMarker s' = [] \<and>
    broken s' = broken s \<and> view w' = (view w)\<lparr>v_err := v_err (view w')\<rparr> \<and>
    (v_err (view w') = [] \<or> v_err (view w') = [nl]) \<and> (whole_chunks p view \<longrightarrow> v_err (view w') = [])"
  using assms
proof (induction "length (v_err (view w))" arbitrary: s w rule: less_induct)
  case less
  note waits = less.prems [unfolded reader_waits_def]
  then have "v_err (view w) \<noteq> []" by auto
  then obtain c w1 where c: "nextChunk p w = Some (c, w1)" "c \<noteq> []" "v_err (view w) = c @ v_err (view w1)"
      "view w1 = (view w)\<lparr>v_err := v_err (view w1)\<rparr>" using waiting by blast
  then have buf: "stderrBuf s @ c @ v_err (view w1) = pre @ m @ [nl]" using waits by simp
  have step: "await_stderr p s w = await_stderr p (read_chunk c s) w1"
    using c(1) waits by (subst await_stderr.simps) simp
  show ?case
  proof (cases "length (stderrBuf s @ c) < length (pre @ m)")
    case True
    have s1: "read_chunk c s = s\<lparr>stderrBuf := stderrBuf s @ c\<rparr>"
      by (rule read_chunk_waiting [OF _ _ _ buf True]) (use waits in auto)
    have "reader_waits m pre (read_chunk c s) (v_err (view w1))" using waits buf True by (simp add: s1 reader_waits_def)
    moreover have "length (v_err (view w1)) < length (v_err (view w))" using c(2,3) by simp
    ultimately obtain s' w' where "await_stderr p (read_chunk c s) w1 = Some (s', w')" "stderrBuf s' = pre"
      "stderrMarker s' = []" "broken s' = broken s" "view w' = (view w1)\<lparr>v_err := v_err (view w')\<rparr>"
      "v_err (view w') = [] \<or> v_err (view w') = [nl]" "whole_chunks p view \<longrightarrow> v_err (view w') = []"
      using less.hyps [of w1 "read_chunk c s"] by auto
    moreover from this c(4) have "view w' = (view w)\<lparr>v_err := v_err (view w')\<rparr>" by (metis session_view.update_convs(2) session_view.surjective)
    ultimately show ?thesis using step by auto
  next
    case False
    from read_chunk_completes [OF _ _ _ buf] False waits
    have s1: "read_chunk c s = s\<lparr>stderrBuf := pre, stderrMarker := [], stderrDone := ClosedChan\<rparr>"
      and left: "v_err (view w1) = [] \<or> v_err (view w1) = [nl]" by auto
    then have "await_stderr p (read_chunk c s) w1 = Some (read_chunk c s, w1)"
      by (subst await_stderr.simps) simp
    moreover have "whole_chunks p view \<longrightarrow> v_err (view w1) = []" using left c(1) unfolding whole_chunks_def by blast
    ultimately show ?thesis using step s1 left c(4) by auto
  qed
qed

text \<open>The marker line has been read: the call ends, and the session is in step again.\<close>

lemma marker_found_finishes:
  assumes "reader_waits m pre s (v_err (view w))" and "0 \<le> ec" and "ec < 256"
  shows "\<exists>res s' w'. marker_found p (show_int ec) se s w = Some (res, s', w') \<and>
    stderrMarker s' = [] \<and> broken s' = (if se = None then broken s else None) \<and>
    view w' = (view w)\<lparr>v_err := v_err (view w')\<rparr> \<and> (v_err (view w') = [] \<or> v_err (view w') = [nl]) \<and>
    (whole_chunks p view \<longrightarrow> v_err (view w') = []) \<and>
    (case se of
       None \<Rightarrow> \<exists>e. res = (ec, e, None) \<and> (e = pre \<or> e = pre @ [nl]) \<and> (whole_chunks p view \<longrightarrow> e = pre)
     | Some err \<Rightarrow> res = (-1, [], Some err))"
proof -
  obtain s1 w1 where await: "await_stderr p s w = Some (s1, w1)" and s1: "stderrBuf s1 = pre"
      "stderrMarker s1 = []" "broken s1 = broken s" and w1: "view w1 = (view w)\<lparr>v_err := v_err (view w1)\<rparr>"
      "v_err (view w1) = [] \<or> v_err (view w1) = [nl]" "whole_chunks p view \<longrightarrow> v_err (view w1) = []"
    using await_finishes [OF assms(1)] by blast
  obtain cs w2 where cs: "readyChunks p w1 = (cs, w2)" by (cases "readyChunks p w1")
  from ready [OF cs] have w2: "v_err (view w1) = concat cs @ v_err (view w2)"
      "view w2 = (view w1)\<lparr>v_err := v_err (view w2)\<rparr>" by auto
  have s2: "readStderr cs s1 = s1\<lparr>stderrBuf := pre @ concat cs\<rparr>" using s1 by (simp add: readStderr_idle)
  have "view w2 = (view w)\<lparr>v_err := v_err (view w2)\<rparr>"
    using w1(1) w2(2) by (metis session_view.update_convs(2) session_view.surjective)
  moreover have "concat cs = [] \<or> concat cs = [nl]" "v_err (view w2) = [] \<or> v_err (view w2) = [nl]"
    using w1(2) w2(1) by (auto simp: append_eq_Cons_conv)
  moreover have "whole_chunks p view \<longrightarrow> concat cs = [] \<and> v_err (view w2) = []" using w1(3) w2(1) by auto
  moreover have "Atoi (show_int ec) = Inr ec" using assms(2,3) by (intro Atoi_show_int) simp_all
  ultimately show ?thesis
    using await cs s1 s2 by (cases se) (auto simp: marker_found_def reader_runs_def getStderr_def)
qed

text \<open>
  The loop. The lines \<open>ls\<close> are still to come, then the marker line. After a line was not taken
  by the caller the loop only reads on to the marker.
\<close>

lemma scan_line:
  assumes "v_out (view w) = concat (map (\<lambda>l. l @ [nl]) (l # ls)) @ tail" and "nl \<notin> set l"
    and "int (length l) < maxLine"
  shows "\<exists>w'. scanStdout p w = Some (Line (dropCR l), w') \<and>
    view w' = (view w)\<lparr>v_out := concat (map (\<lambda>l. l @ [nl]) ls) @ tail\<rparr>"
  using scanner [of w l "concat (map (\<lambda>l. l @ [nl]) ls) @ tail"] assms by simp

lemma scan_marker_line:
  assumes "v_out (view w) = marker_text t @ show_int ec @ [nl]" and "- (2 ^ 63) \<le> t" and "t < 2 ^ 63"
    and "0 \<le> ec" and "ec < 256"
  shows "\<exists>w'. scan_loop p k (marker_text t) pe se s w = marker_found p (show_int ec) se s w' \<and>
    view w' = (view w)\<lparr>v_out := []\<rparr>"
proof -
  have "\<exists>w'. scanStdout p w = Some (Line (dropCR (marker_text t @ show_int ec)), w') \<and>
      view w' = (view w)\<lparr>v_out := []\<rparr>"
    by (rule scanner) (use assms marker_line_short [OF assms(2-5)] nl_not_in_marker nl_not_in_show_int in simp_all)
  then show ?thesis
    using dropCR_marker_line [OF assms(4), of t] by (subst scan_loop.simps) auto
qed

lemma scan_loop_drains:
  assumes "v_out (view w) = concat (map (\<lambda>l. l @ [nl]) ls) @ marker_text t @ show_int ec @ [nl]"
    and "lines_ok (marker_text t) ls" and "reader_waits (marker_text t) pre s (v_err (view w))"
    and t: "- (2 ^ 63) \<le> t" "t < 2 ^ 63" and ec: "0 \<le> ec" "ec < 256"
  shows "\<exists>s' w'. scan_loop p k (marker_text t) pe (Some err) s w = Some ((-1, [], Some err), s', w') \<and>
    session_idle s' (view w') \<and> v_shell (view w') = v_shell (view w) \<and> v_sent (view w') = v_sent (view w) \<and>
    (whole_chunks p view \<longrightarrow> v_err (view w') = [])"
  using assms(1-3)
proof (induction ls arbitrary: w)
  case Nil
  then obtain w1 where w1: "scan_loop p k (marker_text t) pe (Some err) s w = marker_found p (show_int ec) (Some err) s w1"
      "view w1 = (view w)\<lparr>v_out := []\<rparr>" using scan_marker_line [OF _ t ec] by force
  then have "reader_waits (marker_text t) pre s (v_err (view w1))" using Nil by simp
  from marker_found_finishes [OF this ec, of "Some err"] w1 show ?case
    by (fastforce simp: session_idle_def)
next
  case (Cons l ls)
  then have l: "nl \<notin> set l" "int (length l) < maxLine" "\<not> prefix (marker_text t) (dropCR l)"
    by (simp_all add: lines_ok_def)
  from scan_line [OF Cons.prems(1) l(1,2)]
  obtain w1 where w1: "scanStdout p w = Some (Line (dropCR l), w1)"
      "view w1 = (view w)\<lparr>v_out := concat (map (\<lambda>l. l @ [nl]) ls) @ marker_text t @ show_int ec @ [nl]\<rparr>"
    by blast
  have "scan_loop p k (marker_text t) pe (Some err) s w = scan_loop p k (marker_text t) pe (Some err) s w1"
    using w1(1) l(3) by (subst scan_loop.simps) simp
  moreover have "\<exists>s' w'. scan_loop p k (marker_text t) pe (Some err) s w1 = Some ((-1, [], Some err), s', w') \<and>
    session_idle s' (view w') \<and> v_shell (view w') = v_shell (view w1) \<and> v_sent (view w') = v_sent (view w1) \<and>
    (whole_chunks p view \<longrightarrow> v_err (view w') = [])"
    by (rule Cons.IH) (use w1(2) Cons.prems in \<open>simp_all add: lines_ok_def\<close>)
  ultimately show ?case using w1(2) by simp
qed

lemma sendLine_law:
  assumes "sendLine k l w = (res, w')"
  shows "case res of
      None \<Rightarrow> view w' = (view w)\<lparr>v_sent := v_sent (view w) @ [l @ [nl]]\<rparr>
    | Some err \<Rightarrow> view w' = view w \<and> (\<exists>x. ctx_error x \<and> err = Wrap ''context: '' x)"
proof -
  obtain r w1 where call: "sendOrDone k (l @ [nl]) w = (r, w1)" by (cases "sendOrDone k (l @ [nl]) w")
  from channel [OF this] call assms show ?thesis by (cases r) (auto simp: sendLine_def)
qed

lemma drain_ends:
  assumes "v_out (view w) = concat (map (\<lambda>l. l @ [nl]) ls) @ marker_text t @ show_int ec @ [nl]"
    and "lines_ok (marker_text t) ls" and "reader_waits (marker_text t) pre s (v_err (view w))"
    and "- (2 ^ 63) \<le> t" "t < 2 ^ 63" and "0 \<le> ec" "ec < 256"
    and "ctx_error x" and "v_sent (view w) = sent @ take n all"
  shows "command_ends ctx_error p view pre all ec (v_shell (view w)) sent
    (scan_loop p k (marker_text t) pe (Some (desynchronized (Wrap ''context: '' x)))
      (s\<lparr>broken := Some (desynchronized (Wrap ''context: '' x))\<rparr>) w)"
proof -
  let ?err = "desynchronized (Wrap ''context: '' x)"
  have "reader_waits (marker_text t) pre (s\<lparr>broken := Some ?err\<rparr>) (v_err (view w))"
    using assms(3) by (simp add: reader_waits_def)
  from scan_loop_drains [OF assms(1,2) this assms(4-7), of pe ?err] assms(8,9)
  show ?thesis by (auto simp: command_ends_def answers_def)
qed

lemma scan_loop_ends:
  assumes "v_out (view w) = concat (map (\<lambda>l. l @ [nl]) ls) @ marker_text t @ show_int ec @ [nl]"
    and "lines_ok (marker_text t) ls" and "reader_waits (marker_text t) pre s (v_err (view w))"
    and "broken s = None" and "v_sent (view w) @ relay pe (map dropCR ls) = sent @ all"
    and "v_sent (view w) = sent @ take n all"
    and t: "- (2 ^ 63) \<le> t" "t < 2 ^ 63" and ec: "0 \<le> ec" "ec < 256"
  shows "command_ends ctx_error p view pre all ec (v_shell (view w)) sent (scan_loop p k (marker_text t) pe None s w)"
  using assms(1-6)
proof (induction ls arbitrary: w pe n)
  case Nil
  then obtain w1 where w1: "scan_loop p k (marker_text t) pe None s w = marker_found p (show_int ec) None s w1"
      "view w1 = (view w)\<lparr>v_out := []\<rparr>" using scan_marker_line [OF _ t ec] by force
  then have "reader_waits (marker_text t) pre s (v_err (view w1))" using Nil by simp
  from marker_found_finishes [OF this ec, of None] w1 Nil.prems(4,5) show ?case
    unfolding command_ends_def by (fastforce simp: session_idle_def answers_def)
next
  case (Cons l ls)
  let ?rest = "concat (map (\<lambda>l. l @ [nl]) ls) @ marker_text t @ show_int ec @ [nl]"
  from Cons.prems have l: "nl \<notin> set l" "int (length l) < maxLine" "\<not> prefix (marker_text t) (dropCR l)"
    and ls: "lines_ok (marker_text t) ls" by (simp_all add: lines_ok_def)
  from scan_line [OF Cons.prems(1) l(1,2)]
  obtain w1 where w1: "scanStdout p w = Some (Line (dropCR l), w1)" "view w1 = (view w)\<lparr>v_out := ?rest\<rparr>" by blast
  note unfold = scan_loop.simps [of p k "marker_text t" pe None s w]
  obtain r w2 where pend: "(if pe then sendLine k [] w1 else (None, w1)) = (r, w2)" by fastforce
  show ?case
  proof (cases r)
    case (Some err)
    then have "sendLine k [] w1 = (Some err, w2)" using pend by (cases pe) auto
    from sendLine_law [OF this] obtain x where v: "view w2 = view w1" "ctx_error x" "err = Wrap ''context: '' x" by auto
    have "command_ends ctx_error p view pre all ec (v_shell (view w2)) sent
        (scan_loop p k (marker_text t) pe (Some (desynchronized err)) (s\<lparr>broken := Some (desynchronized err)\<rparr>) w2)"
      unfolding v(3)
      by (rule drain_ends [OF _ ls _ t ec v(2)]) (use v(1) w1(2) Cons.prems in simp_all)
    then show ?thesis using unfold w1 l(3) pend Some v(1) by simp
  next
    case None
    let ?pending = "if pe then [[nl]] else []"
    have v2: "view w2 = (view w1)\<lparr>v_sent := v_sent (view w1) @ ?pending\<rparr>"
    proof (cases pe)
      case True
      then have "sendLine k [] w1 = (None, w2)" using pend None by simp
      from sendLine_law [OF this] True show ?thesis by simp
    qed (use pend None in simp)
    have all: "(v_sent (view w) @ ?pending) @ (if dropCR l = [] then relay True (map dropCR ls)
        else (dropCR l @ [nl]) # relay False (map dropCR ls)) = sent @ all"
      using Cons.prems(5) by (simp split: if_splits)
    have long: "length sent \<le> length (v_sent (view w))" using Cons.prems(6) by simp
    have "length sent \<le> length (v_sent (view w) @ ?pending)" using long by simp
    from taken_append [OF all this] obtain n2 where n2: "v_sent (view w) @ ?pending = sent @ take n2 all" ..
    show ?thesis
    proof (cases "dropCR l = []")
      case True
      have "command_ends ctx_error p view pre all ec (v_shell (view w2)) sent (scan_loop p k (marker_text t) True None s w2)"
        by (rule Cons.IH [OF _ ls _ Cons.prems(4), of _ _ n2]) (use v2 w1(2) Cons.prems(3) all n2 True in simp_all)
      then show ?thesis using unfold w1 l(3) pend None v2 True by simp
    next
      case False
      obtain r3 w3 where line: "sendLine k (dropCR l) w2 = (r3, w3)" by fastforce
      show ?thesis
      proof (cases r3)
        case (Some err)
        from sendLine_law [OF line] Some obtain x where v: "view w3 = view w2" "ctx_error x" "err = Wrap ''context: '' x"
          by auto
        have "command_ends ctx_error p view pre all ec (v_shell (view w3)) sent
            (scan_loop p k (marker_text t) False (Some (desynchronized err)) (s\<lparr>broken := Some (desynchronized err)\<rparr>) w3)"
          unfolding v(3)
          by (rule drain_ends [OF _ ls _ t ec v(2), of _ _ _ _ n2]) (use v(1) v2 w1(2) Cons.prems(3) n2 in simp_all)
        then show ?thesis using unfold w1 l(3) pend None v2 False line Some v(1) by simp
      next
        case none3: None
        from sendLine_law [OF line] none3
        have v3: "view w3 = (view w2)\<lparr>v_sent := v_sent (view w2) @ [dropCR l @ [nl]]\<rparr>" by simp
        have all3: "(v_sent (view w) @ ?pending @ [dropCR l @ [nl]]) @ relay False (map dropCR ls) = sent @ all"
          using all False by simp
        have "length sent \<le> length (v_sent (view w) @ ?pending @ [dropCR l @ [nl]])" using long by simp
        from taken_append [OF all3 this] obtain n3 where
          n3: "v_sent (view w) @ ?pending @ [dropCR l @ [nl]] = sent @ take n3 all" ..
        have "command_ends ctx_error p view pre all ec (v_shell (view w3)) sent (scan_loop p k (marker_text t) False None s w3)"
          by (rule Cons.IH [OF _ ls _ Cons.prems(4), of _ _ n3]) (use v3 v2 w1(2) Cons.prems(3) all3 n3 in simp_all)
        then show ?thesis using unfold w1 l(3) pend None v2 False line none3 v3 by simp
      qed
    qed
  qed
qed

text \<open>
  A whole call on an idle shell. \<open>late\<close> is the newline that the reader may still owe from the
  command before.
\<close>

lemma late_chunks:
  assumes "stderrMarker s = [] \<or> (\<exists>t. stderrMarker s = marker_text t)"
    and "stderrBuf s @ concat cs = [] \<or> stderrBuf s @ concat cs = [nl]"
  shows "readStderr cs s = s\<lparr>stderrBuf := stderrBuf s @ concat cs\<rparr>"
  using assms
proof (induction cs arbitrary: s)
  case (Cons c cs)
  then have buf: "stderrBuf s @ c = [] \<or> stderrBuf s @ c = [nl]" by (auto simp: append_eq_Cons_conv)
  have "Index (stderrBuf s @ c) (marker_text t) = None" for t
    using buf by (auto simp: marker_text_def)
  then have "read_chunk c s = s\<lparr>stderrBuf := stderrBuf s @ c\<rparr>"
    using Cons.prems(1) by (auto simp: read_chunk_def checkStderrMarker_def)
  then show ?case using Cons.IH [of "read_chunk c s"] Cons.prems by simp
qed simp

lemma readStderr_marker: "stderrMarker (readStderr cs s) = stderrMarker s \<or> stderrMarker (readStderr cs s) = []"
proof (induction cs arbitrary: s)
  case (Cons c cs)
  have "stderrMarker (read_chunk c s) = stderrMarker s \<or> stderrMarker (read_chunk c s) = []"
    by (simp add: read_chunk_def checkStderrMarker_def Let_def split: option.splits)
  then show ?case using Cons.IH [of "read_chunk c s"] by auto
qed simp

lemma execute_ends:
  assumes idle: "session_idle s (view w)" and cmd: "run (v_shell (view w)) cmd = Some (out, err, ec, sh)"
    and err: "\<not> sublist marker_head err"
    and out: "\<And>l. l \<in> set (Split_on nl out) \<Longrightarrow> int (length l) < maxLine \<and> \<not> prefix marker_head (dropCR l)"
  shows "(\<exists>x s' w'. ExecuteStream p k cmd s w = Some ((-1, [], Some (Wrap ''context: '' x)), s', w') \<and>
      ctx_error x \<and> session_idle s' (view w') \<and> v_shell (view w') = v_shell (view w) \<and>
      v_sent (view w') = v_sent (view w) \<and> (v_err (view w) = [] \<longrightarrow> v_err (view w') = [])) \<or>
    (\<exists>late. (late = [] \<or> late = v_err (view w)) \<and>
      command_ends ctx_error p view (late @ err) (relay False (map dropCR (Split_on nl out))) ec sh (v_sent (view w))
        (ExecuteStream p k cmd s w))"
proof -
  obtain cs1 w1 where r1: "readyChunks p w = (cs1, w1)" by (cases "readyChunks p w")
  define s2 where "s2 = resetStderr (readStderr cs1 s)"
  obtain t w2 where t: "UnixNano k w1 = (t, w2)" by (cases "UnixNano k w1")
  obtain cs3 w3 where r3: "readyChunks p w2 = (cs3, w3)" by (cases "readyChunks p w2")
  define s4 where "s4 = (readStderr cs3 s2)\<lparr>stderrMarker := marker_text t, stderrDone := OpenChan\<rparr>"
  from clock [OF t] have range: "- (2 ^ 63) \<le> t" "t < 2 ^ 63" and v2: "view w2 = view w1" by auto
  from ready [OF r1] ready [OF r3] v2
  have late: "v_err (view w) = concat cs1 @ concat cs3 @ v_err (view w3)"
    and v3: "view w3 = (view w)\<lparr>v_err := v_err (view w3)\<rparr>"
    using view_err_trans by (metis append_assoc, metis)
  note f3 = view_err_fields [OF v3]
  have "stderrMarker s2 = [] \<or> (\<exists>t. stderrMarker s2 = marker_text t)"
    using idle readStderr_marker [of cs1 s] by (auto simp: s2_def resetStderr_def session_idle_def)
  moreover have "concat cs3 = [] \<or> concat cs3 = [nl]"
    using late idle by (auto simp: session_idle_def append_eq_Cons_conv)
  ultimately have s3: "readStderr cs3 s2 = s2\<lparr>stderrBuf := concat cs3\<rparr>"
    using late_chunks [of s2 cs3] by (simp add: s2_def resetStderr_def)
  have s4: "broken s4 = None" "stderrBuf s4 = concat cs3" "stderrMarker s4 = marker_text t" "stderrDone s4 = OpenChan"
    using idle by (simp_all add: s4_def s3, simp_all add: s2_def resetStderr_def session_idle_def)
  have start: "execute_locked p k cmd s w =
     (case callErr k w3 of
        Some err \<Rightarrow> Some ((-1, [], Some (Wrap ''context: '' err)), s4, w3)
      | None \<Rightarrow>
          (case writeStdin p (script_text cmd (marker_text t)) w3 of
             (Some err, w4) \<Rightarrow>
               (let e = Wrap ''shell session desynchronized: write command: '' err
                in Some ((-1, [], Some e), s4\<lparr>broken := Some e\<rparr>, w4))
           | (None, w4) \<Rightarrow> scan_loop p k (marker_text t) False None s4 w4))"
    unfolding execute_locked_def s4_def s2_def
    using idle r1 t r3 by (simp add: reader_runs_def session_idle_def Let_def)
  show ?thesis
  proof (cases "callErr k w3")
    case (Some x)
    have "session_idle s4 (view w3)" using idle f3 late s4
      by (auto simp: session_idle_def append_eq_Cons_conv)
    moreover have "v_err (view w) = [] \<longrightarrow> v_err (view w3) = []" using late by simp
    ultimately show ?thesis
      using start Some call_error [OF Some] f3 by (auto simp: ExecuteStream_def closing)
  next
    case None
    obtain res w4 where wr: "writeStdin p (script_text cmd (marker_text t)) w3 = (res, w4)" by fastforce
    have "v_out (view w3) = []" and sh: "v_shell (view w3) = v_shell (view w)" and
      sent: "v_sent (view w3) = v_sent (view w)" using f3 idle by (simp_all add: session_idle_def)
    from bash [OF wr this(1)] cmd sh have ok: "res = None" "0 \<le> ec" "ec < 256" and
      v4: "view w4 = (view w3)\<lparr>v_out := out @ [nl] @ marker_text t @ show_int ec @ [nl],
        v_err := v_err (view w3) @ err @ marker_text t @ [nl], v_shell := sh\<rparr>" by auto
    let ?late = "concat cs3 @ v_err (view w3)"
    have "v_err (view w) = [] \<or> v_err (view w) = [nl]" using idle by (simp add: session_idle_def)
    then have lt: "?late = [] \<or> ?late = v_err (view w)" and nlt: "?late = [] \<or> ?late = [nl]"
      using suffix_of_one [OF late] by auto
    have "\<not> sublist marker_head (?late @ err)" by (rule no_head_after_nl [OF nlt err])
    from marker_place [OF this, of t] have "reader_waits (marker_text t) (?late @ err) s4 (v_err (view w4))"
      using s4 v4 by (simp add: reader_waits_def)
    moreover have "lines_ok (marker_text t) (Split_on nl out)"
      unfolding lines_ok_def
    proof
      fix l
      assume l: "l \<in> set (Split_on nl out)"
      have "prefix marker_head (marker_text t)" by (simp add: marker_text_head)
      then have "\<not> prefix (marker_text t) (dropCR l)" using out [OF l] prefix_order.trans by blast
      then show "nl \<notin> set l \<and> int (length l) < maxLine \<and> \<not> prefix (marker_text t) (dropCR l)"
        using Split_on_parts [OF l] out [OF l] by blast
    qed
    moreover have "v_out (view w4) = concat (map (\<lambda>l. l @ [nl]) (Split_on nl out)) @ marker_text t @ show_int ec @ [nl]"
      using v4 by (simp add: concat_lines)
    ultimately have "command_ends ctx_error p view (?late @ err) (relay False (map dropCR (Split_on nl out))) ec
        (v_shell (view w4)) (v_sent (view w4)) (scan_loop p k (marker_text t) False None s4 w4)"
      by (intro scan_loop_ends [where n = 0 and ls = "Split_on nl out"]) (use s4 range ok in simp_all)
    then have "command_ends ctx_error p view (?late @ err) (relay False (map dropCR (Split_on nl out))) ec sh (v_sent (view w))
        (ExecuteStream p k cmd s w)"
      using start None wr ok v4 sent by (auto simp: command_ends_def ExecuteStream_def closing)
    then show ?thesis using lt by blast
  qed
qed

text \<open>With whole chunks, and nothing owed from before, a clean command comes through as it is.\<close>

lemma execute_clean:
  assumes whole: "whole_chunks p view" and idle: "session_idle s (view w)" "v_err (view w) = []"
    and cmd: "run (v_shell (view w)) cmd = Some (out, err, ec, sh)" and clean: "clean_output out err"
  shows "\<exists>res s' w' ls. ExecuteStream p k cmd s w = Some (res, s', w') \<and>
    session_idle s' (view w') \<and> v_err (view w') = [] \<and> v_sent (view w') = v_sent (view w) @ ls \<and>
    (case res of
       (c, e, None) \<Rightarrow> c = ec \<and> e = err \<and> concat ls = with_newline out \<and> v_shell (view w') = sh
     | (c, e, Some x) \<Rightarrow> c = -1 \<and> e = [] \<and> prefix (concat ls) (with_newline out) \<and>
         (\<exists>y. ctx_error y \<and> (x = Wrap ''context: '' y \<or> x = desynchronized (Wrap ''context: '' y))) \<and>
         (v_shell (view w') = v_shell (view w) \<and> ls = [] \<or> v_shell (view w') = sh))"
proof -
  let ?lines = "relay False (map dropCR (Split_on nl out))"
  have all: "concat ?lines = with_newline out" using clean by (intro relay_text) (simp add: clean_output_def)
  have out: "int (length l) < maxLine \<and> \<not> prefix marker_head (dropCR l)" if "l \<in> set (Split_on nl out)" for l
    using that clean clean_dropCR [OF clean that] by (simp add: clean_output_def)
  have pre: "prefix (concat (take n ?lines)) (with_newline out)" for n
    unfolding all [symmetric] by (metis append_take_drop_id concat_append prefixI)
  from clean have "\<not> sublist marker_head err" by (simp add: clean_output_def)
  from execute_ends [OF idle(1) cmd this out] show ?thesis
  proof
    assume "\<exists>x s' w'. ExecuteStream p k cmd s w = Some ((-1, [], Some (Wrap ''context: '' x)), s', w') \<and>
      ctx_error x \<and> session_idle s' (view w') \<and> v_shell (view w') = v_shell (view w) \<and>
      v_sent (view w') = v_sent (view w) \<and> (v_err (view w) = [] \<longrightarrow> v_err (view w') = [])"
    then show ?thesis using idle(2) by fastforce
  next
    assume "\<exists>late. (late = [] \<or> late = v_err (view w)) \<and>
      command_ends ctx_error p view (late @ err) ?lines ec sh (v_sent (view w)) (ExecuteStream p k cmd s w)"
    then have "command_ends ctx_error p view err ?lines ec sh (v_sent (view w)) (ExecuteStream p k cmd s w)"
      using idle(2) by auto
    then obtain res s' w' where r: "ExecuteStream p k cmd s w = Some (res, s', w')" "session_idle s' (view w')"
        "v_shell (view w') = sh" "v_err (view w') = []"
        "answers ctx_error True err ?lines ec (v_sent (view w)) (v_sent (view w')) res"
      using whole by (auto simp: command_ends_def)
    obtain c e x where res: "res = (c, e, x)" by (cases res)
    show ?thesis
    proof (cases x)
      case None
      with r(5) res have "c = ec \<and> e = err \<and> v_sent (view w') = v_sent (view w) @ ?lines"
        by (simp add: answers_def)
      then show ?thesis using r res None all by auto
    next
      case (Some y)
      with r(5) res obtain n z where "c = -1" "e = []" "v_sent (view w') = v_sent (view w) @ take n ?lines"
          "ctx_error z" "y = Wrap ''context: '' z \<or> y = desynchronized (Wrap ''context: '' z)"
        by (auto simp: answers_def)
      then show ?thesis using r res Some pre [of n] by auto
    qed
  qed
qed

end

text \<open>A caller that is never cancelled makes no context error at all.\<close>

lemma never_cancelled_session:
  assumes "bash_session p k view run ctx" and "never_cancelled k"
  shows "bash_session p k view run (\<lambda>e. False)"
proof (rule bash_session.intro)
  fix l w res w'
  assume call: "sendOrDone k l w = (res, w')"
  then have "res = None" using assms(2) by (metis fst_conv never_cancelled_def)
  with bash_session.channel [OF assms(1) call] show "case res of
      None \<Rightarrow> view w' = (view w)\<lparr>v_sent := v_sent (view w) @ [l]\<rparr> | Some e \<Rightarrow> view w' = view w \<and> False" by simp
next
  fix w e
  show "callErr k w = Some e \<Longrightarrow> False" using assms(2) by (simp add: never_cancelled_def)
qed (rule bash_session.clock [OF assms(1)] bash_session.bash [OF assms(1)] bash_session.scanner [OF assms(1)]
     bash_session.ready [OF assms(1)] bash_session.waiting [OF assms(1)] bash_session.closing [OF assms(1)]; assumption?)+

lemma execute_all_clean:
  assumes session: "bash_session p k view run (\<lambda>e. False)" and whole: "whole_chunks p view"
    and "session_idle s (view w)" and "v_err (view w) = []"
    and "bash_all run cmds (v_shell (view w)) = Some (es, sh)"
    and "\<forall>e\<in>set es. clean_output (fst e) (fst (snd e))"
  shows "\<exists>s' w' ls. execute_all p k cmds s w = Some (map (\<lambda>(out, err, ec). (ec, err, None)) es, s', w') \<and>
    session_idle s' (view w') \<and> v_err (view w') = [] \<and> v_shell (view w') = sh \<and>
    v_sent (view w') = v_sent (view w) @ ls \<and> concat ls = concat (map (\<lambda>e. with_newline (fst e)) es)"
  using assms(3-)
proof (induction cmds arbitrary: s w es)
  case Nil
  then show ?case by simp
next
  case (Cons cmd cmds)
  from Cons.prems(3) obtain out err ec sh1 es1 where cmd: "run (v_shell (view w)) cmd = Some (out, err, ec, sh1)"
    and rest: "bash_all run cmds sh1 = Some (es1, sh)" and es: "es = (out, err, ec) # es1"
    by (auto split: option.splits)
  have "clean_output out err" using Cons.prems(4) es by simp
  from bash_session.execute_clean [OF session whole Cons.prems(1,2) cmd this]
  obtain s1 w1 ls where r: "ExecuteStream p k cmd s w = Some ((ec, err, None), s1, w1)" "session_idle s1 (view w1)"
      "v_err (view w1) = []" "v_sent (view w1) = v_sent (view w) @ ls" "concat ls = with_newline out"
      "v_shell (view w1) = sh1" by (fastforce split: option.splits)
  from Cons.IH [OF r(2,3)] rest r(6) Cons.prems(4) es
  obtain s' w' ls1 where "execute_all p k cmds s1 w1 = Some (map (\<lambda>(out, err, ec). (ec, err, None)) es1, s', w')"
      "session_idle s' (view w')" "v_err (view w') = []" "v_shell (view w') = sh"
      "v_sent (view w') = v_sent (view w1) @ ls1" "concat ls1 = concat (map (\<lambda>e. with_newline (fst e)) es1)"
    by auto
  then show ?case using r es by (intro exI [of _ s'] exI [of _ w'] exI [of _ "ls @ ls1"]) simp
qed

end
