(* ===== verification/Shell_Properties.thy ===== *)
theory Shell_Properties
  imports Bash_Session
begin

text \<open>
  The properties of the persistent shell, and the interpretation of \<open>bash_session\<close> on a bash in
  memory that finds the command and the marker in the script it is given.
\<close>

section \<open>A bash in memory\<close>

text \<open>
  The table says what each command prints and its exit code; \<open>mb_done_after\<close> is the number of
  lines after which the caller's context is done.
\<close>

type_synonym effects = "(string \<times> string \<times> string \<times> int) list"

record mem_bash =
  mb_out :: string
  mb_err :: string
  mb_sent :: "string list"
  mb_table :: effects
  mb_clock :: int

definition mem_run :: "effects \<Rightarrow> string \<Rightarrow> (string \<times> string \<times> int \<times> effects) option" where
  "mem_run tab cmd =
     (case map_of tab cmd of
        None \<Rightarrow> None
      | Some (out, err, ec) \<Rightarrow> if 0 \<le> ec \<and> ec < 256 then Some (out, err, ec, tab) else None)"

text \<open>The command and the marker of a script, from its lines.\<close>

definition parse_script :: "string \<Rightarrow> string \<times> string" where
  "parse_script txt =
     (let ls = Split_on nl txt; n = length ls; marker_line = ls ! (n - 2)
      in (Join (take (n - 7) (drop 1 ls)) [nl], take (length marker_line - 22) (drop 14 marker_line)))"

definition mem_write :: "string \<Rightarrow> mem_bash \<Rightarrow> go_error option \<times> mem_bash" where
  "mem_write txt w =
     (let (cmd, marker) = parse_script txt
      in case mem_run (mb_table w) cmd of
           None \<Rightarrow> (None, w)
         | Some (out, err, ec, tab) \<Rightarrow>
             (None, w\<lparr>mb_out := mb_out w @ out @ [nl] @ marker @ show_int ec @ [nl],
                      mb_err := mb_err w @ err @ marker @ [nl]\<rparr>))"

definition mem_scan :: "mem_bash \<Rightarrow> (scanned \<times> mem_bash) option" where
  "mem_scan w =
     (case Cut (mb_out w) nl of
        (l, rest, found) \<Rightarrow>
          if \<not> found then None
          else if int (length l) < maxLine then Some (Line (dropCR l), w\<lparr>mb_out := rest\<rparr>)
          else Some (ScanErr (ErrorString ''bufio.Scanner: token too long''), w))"

text \<open>A read returns all there is, or at most \<open>width\<close> bytes.\<close>

definition mem_chunk :: "nat option \<Rightarrow> mem_bash \<Rightarrow> (string \<times> mem_bash) option" where
  "mem_chunk width w =
     (if mb_err w = [] then None
      else case width of
        None \<Rightarrow> Some (mb_err w, w\<lparr>mb_err := []\<rparr>)
      | Some n \<Rightarrow> Some (take (Suc n) (mb_err w), w\<lparr>mb_err := drop (Suc n) (mb_err w)\<rparr>))"

definition mem_streams :: "nat option \<Rightarrow> mem_bash streams" where
  "mem_streams width =
     \<lparr>writeStdin = mem_write, scanStdout = mem_scan, readyChunks = \<lambda>w. ([], w), nextChunk = mem_chunk width\<rparr>"

definition mem_caller :: "nat option \<Rightarrow> mem_bash caller" where
  "mem_caller limit =
     \<lparr>callErr = \<lambda>w. None,
      sendOrDone = \<lambda>l w. (if limit = Some (length (mb_sent w)) then (Some (Sentinel ContextCanceled), w)
                           else (None, w\<lparr>mb_sent := mb_sent w @ [l]\<rparr>)),
      closeStdoutCh = \<lambda>w. w,
      UnixNano = \<lambda>w. (mb_clock w mod 1000, w\<lparr>mb_clock := mb_clock w + 1\<rparr>)\<rparr>"

definition mem_view :: "mem_bash \<Rightarrow> effects session_view" where
  "mem_view w = \<lparr>v_out = mb_out w, v_err = mb_err w, v_sent = mb_sent w, v_shell = mb_table w\<rparr>"

lemma Split_on_append_sep: "Split_on c (s @ c # r) = Split_on c s @ Split_on c r"
proof (induction s)
  case (Cons x s)
  obtain y ys where "Split_on c s = y # ys" by (cases "Split_on c s") auto
  with Cons show ?case by simp
qed simp

lemma Join_Split_on: "Join (Split_on c s) [c] = s"
proof (induction s)
  case (Cons x s)
  obtain y ys where s: "Split_on c s = y # ys" by (cases "Split_on c s") auto
  show ?case
  proof (cases "x = c")
    case True
    have "Join ([] # y # ys) [c] = c # Join (y # ys) [c]" by simp
    then show ?thesis using s Cons True by simp
  next
    case False
    have "Join ((x # y) # ys) [c] = x # Join (y # ys) [c]" by (cases ys) simp_all
    then show ?thesis using s Cons False by simp
  qed
qed simp

lemma script_lines:
  assumes "nl \<notin> set m"
  shows "Split_on nl (script_text cmd m) =
    reloadEnv # Split_on nl cmd @
    [''__ec=$?'', reloadEnv, ''builtin echo '' @ apostrophe @ m @ apostrophe @ '' >&2'',
     ''builtin echo '' @ apostrophe @ apostrophe, ''builtin echo '' @ apostrophe @ m @ apostrophe @ ''${__ec}'', []]"
proof -
  have no: "nl \<notin> set reloadEnv" "nl \<notin> set ''__ec=$?''" "nl \<notin> set ''builtin echo ''" "nl \<notin> set apostrophe"
    "nl \<notin> set '' >&2''" "nl \<notin> set ''${__ec}''"
    by (simp_all add: nl_def reloadEnv_def apostrophe_def)
  have lines: "script_text cmd m = reloadEnv @ nl # cmd @ nl # ''__ec=$?'' @ nl # reloadEnv @ nl #
     (''builtin echo '' @ apostrophe @ m @ apostrophe @ '' >&2'') @ nl #
     (''builtin echo '' @ apostrophe @ apostrophe) @ nl #
     (''builtin echo '' @ apostrophe @ m @ apostrophe @ ''${__ec}'') @ nl # []"
    by (simp add: script_text_def)
  show ?thesis
    unfolding lines Split_on_append_sep using no assms by (simp add: Split_on_no_sep nl_def)
qed

lemma parse_script_text:
  assumes "nl \<notin> set m"
  shows "parse_script (script_text cmd m) = (cmd, m)"
  by (simp add: parse_script_def script_lines [OF assms] Let_def nth_append apostrophe_def Join_Split_on)

lemma mem_session: "bash_session (mem_streams width) (mem_caller limit) mem_view mem_run context_error"
proof
  show "UnixNano (mem_caller limit) w = (t, w') \<Longrightarrow> mem_view w' = mem_view w \<and> - (2 ^ 63) \<le> t \<and> t < 2 ^ 63" for w t w'
    using pos_mod_bound [of 1000 "mb_clock w"] pos_mod_sign [of 1000 "mb_clock w"]
    by (auto simp: mem_caller_def mem_view_def)
  show "writeStdin (mem_streams width) (script_text cmd (marker_text t)) w = (res, w') \<Longrightarrow> v_out (mem_view w) = [] \<Longrightarrow>
      mem_run (v_shell (mem_view w)) cmd = Some (out, err, ec, sh) \<Longrightarrow>
      res = None \<and> 0 \<le> ec \<and> ec < 256 \<and>
      mem_view w' = (mem_view w)\<lparr>v_out := out @ [nl] @ marker_text t @ show_int ec @ [nl],
        v_err := v_err (mem_view w) @ err @ marker_text t @ [nl], v_shell := sh\<rparr>"
    for cmd t w res w' out err ec sh
    by (auto simp: mem_streams_def mem_write_def parse_script_text [OF nl_not_in_marker] mem_view_def mem_run_def
        split: option.splits if_splits)
  show "v_out (mem_view w) = l @ nl # rest \<Longrightarrow> nl \<notin> set l \<Longrightarrow> int (length l) < maxLine \<Longrightarrow>
      \<exists>w'. scanStdout (mem_streams width) w = Some (Line (dropCR l), w') \<and> mem_view w' = (mem_view w)\<lparr>v_out := rest\<rparr>"
    for w l rest
    by (simp add: mem_streams_def mem_scan_def mem_view_def Cut_append)
  show "readyChunks (mem_streams width) w = (cs, w') \<Longrightarrow>
      v_err (mem_view w) = concat cs @ v_err (mem_view w') \<and> mem_view w' = (mem_view w)\<lparr>v_err := v_err (mem_view w')\<rparr>"
    for w cs w'
    by (auto simp: mem_streams_def)
  show "v_err (mem_view w) \<noteq> [] \<Longrightarrow>
      \<exists>c w'. nextChunk (mem_streams width) w = Some (c, w') \<and> c \<noteq> [] \<and> v_err (mem_view w) = c @ v_err (mem_view w') \<and>
        mem_view w' = (mem_view w)\<lparr>v_err := v_err (mem_view w')\<rparr>" for w
    by (cases width) (auto simp: mem_streams_def mem_chunk_def mem_view_def)
  show "sendOrDone (mem_caller limit) l w = (res, w') \<Longrightarrow>
      (case res of
         None \<Rightarrow> mem_view w' = (mem_view w)\<lparr>v_sent := v_sent (mem_view w) @ [l]\<rparr>
       | Some e \<Rightarrow> mem_view w' = mem_view w \<and> context_error e)" for l w res w'
    by (auto simp: mem_caller_def mem_view_def context_error_def split: if_splits)
qed (auto simp: mem_caller_def mem_view_def)

interpretation mem_sh: bash_session "mem_streams width" "mem_caller limit" mem_view mem_run context_error
  by (rule mem_session)

lemma mem_whole: "whole_chunks (mem_streams None) mem_view"
  by (simp add: whole_chunks_def mem_streams_def mem_chunk_def mem_view_def)

definition demo_bash :: mem_bash where
  "demo_bash = \<lparr>mb_out = [], mb_err = [], mb_sent = [],
     mb_table = [(''a'', ''x'' @ [nl] @ [nl] @ ''y'', ''e'', 3), (''b'', [], [], 0), (''c'', [nl], ''_'' @ [nl], 255)],
     mb_clock = 7\<rparr>"

lemma demo_idle: "session_idle new_bashShell (mem_view demo_bash)" "v_err (mem_view demo_bash) = []"
  by (simp_all add: session_idle_def new_bashShell_def mem_view_def demo_bash_def)

section \<open>One command\<close>

text \<open>
  C31: a command comes through the marker protocol as it is. On an idle shell the call returns. If
  it has no error, the exit code and standard error are those of the command, what went to the
  channel is its output, ended with a newline, and bash is in the state after the command. If it
  has one, the caller's context was done, and what was sent is a first part of the output. In
  both cases the shell is idle again, for the next command.
\<close>

theorem ExecuteStream_transparent:
  assumes "bash_session p k view run context_error" and "whole_chunks p view"
    and "session_idle s (view w)" and "v_err (view w) = []"
    and "run (v_shell (view w)) cmd = Some (out, err, ec, sh)" and "clean_output out err"
  shows "\<exists>res s' w' ls. ExecuteStream p k cmd s w = Some (res, s', w') \<and>
    session_idle s' (view w') \<and> v_err (view w') = [] \<and> v_sent (view w') = v_sent (view w) @ ls \<and>
    (case res of
       (c, e, None) \<Rightarrow> c = ec \<and> e = err \<and> concat ls = with_newline out \<and> v_shell (view w') = sh
     | (c, e, Some x) \<Rightarrow> c = -1 \<and> e = [] \<and> prefix (concat ls) (with_newline out) \<and>
         (\<exists>y. context_error y \<and> (x = Wrap ''context: '' y \<or> x = desynchronized (Wrap ''context: '' y))) \<and>
         (v_shell (view w') = v_shell (view w) \<and> ls = [] \<or> v_shell (view w') = sh))"
  using assms by (rule bash_session.execute_clean)

theorem ExecuteStream_transparent_witness:
  "\<exists>s' w'. ExecuteStream (mem_streams None) (mem_caller (Some 1)) ''a'' new_bashShell demo_bash =
      Some ((-1, [], Some (desynchronized (Wrap ''context: '' (Sentinel ContextCanceled)))), s', w') \<and>
    session_idle s' (mem_view w') \<and> mb_sent w' = [''x'' @ [nl]]"
proof -
  have run: "mem_run (v_shell (mem_view demo_bash)) ''a'' = Some (''x'' @ [nl] @ [nl] @ ''y'', ''e'', 3, mb_table demo_bash)"
    by (simp add: mem_run_def mem_view_def demo_bash_def)
  have "clean_output (''x'' @ [nl] @ [nl] @ ''y'') ''e''" by code_simp
  note result = ExecuteStream_transparent [OF mem_session [of None "Some 1"] mem_whole demo_idle run this]
  have "map_option (\<lambda>(res, s, w). (res, mb_sent w))
      (ExecuteStream (mem_streams None) (mem_caller (Some 1)) ''a'' new_bashShell demo_bash) =
    Some ((-1, [], Some (desynchronized (Wrap ''context: '' (Sentinel ContextCanceled)))), [''x'' @ [nl]])"
    by code_simp
  with result show ?thesis by fastforce
qed

text \<open>
  A session that has run any commands gives, for each of them, what bash gives when it runs
  the commands one after the other: nothing of one command shows up in the answer to another.
\<close>

theorem session_runs_commands:
  assumes "bash_session p k view run context_error" and "never_cancelled k" and "whole_chunks p view"
    and "session_idle s (view w)" and "v_err (view w) = []"
    and "bash_all run cmds (v_shell (view w)) = Some (es, sh)"
    and "\<forall>e\<in>set es. clean_output (fst e) (fst (snd e))"
  shows "\<exists>s' w' ls. execute_all p k cmds s w = Some (map (\<lambda>(out, err, ec). (ec, err, None)) es, s', w') \<and>
    session_idle s' (view w') \<and> v_err (view w') = [] \<and> v_shell (view w') = sh \<and>
    v_sent (view w') = v_sent (view w) @ ls \<and> concat ls = concat (map (\<lambda>e. with_newline (fst e)) es)"
  using never_cancelled_session [OF assms(1,2)] assms(3-) by (rule execute_all_clean)

theorem session_runs_commands_witness:
  "\<exists>s' w'. execute_all (mem_streams None) (mem_caller None) [''a'', ''b'', ''c''] new_bashShell demo_bash =
      Some ([(3, ''e'', None), (0, [], None), (255, ''_'' @ [nl], None)], s', w') \<and>
    concat (mb_sent w') = ''x'' @ [nl] @ [nl] @ ''y'' @ [nl] @ [nl]"
proof -
  have never: "never_cancelled (mem_caller None)" by (simp add: never_cancelled_def mem_caller_def)
  let ?es = "[(''x'' @ [nl] @ [nl] @ ''y'', ''e'', 3), ([], [], 0), ([nl], ''_'' @ [nl], 255)] :: (string \<times> string \<times> int) list"
  have all: "bash_all mem_run [''a'', ''b'', ''c''] (v_shell (mem_view demo_bash)) = Some (?es, mb_table demo_bash)"
    by (simp add: mem_run_def mem_view_def demo_bash_def)
  have "\<forall>e\<in>set ?es. clean_output (fst e) (fst (snd e))" by code_simp
  from session_runs_commands [OF mem_session [of None None] never mem_whole demo_idle all this]
  show ?thesis by (auto simp: mem_view_def demo_bash_def with_newline_def nl_def simp del: execute_all.simps)
qed

text \<open>
  C38: whatever the chunks in which standard error arrives, a command ends its call and leaves the
  shell idle. Its exit code and its output are right, and standard error is that of the command,
  with one newline too many in front or at the end at most: the one of a marker line whose chunk
  ended right before it.
\<close>

theorem ExecuteStream_any_chunks:
  assumes "bash_session p k view run context_error" and "session_idle s (view w)"
    and "run (v_shell (view w)) cmd = Some (out, err, ec, sh)" and "\<not> sublist marker_head err"
    and "\<And>l. l \<in> set (Split_on nl out) \<Longrightarrow> int (length l) < maxLine \<and> \<not> prefix marker_head (dropCR l)"
  shows "\<exists>res s' w'. ExecuteStream p k cmd s w = Some (res, s', w') \<and> session_idle s' (view w') \<and>
    (case res of
       (c, e, None) \<Rightarrow> c = ec \<and> v_shell (view w') = sh \<and>
         v_sent (view w') = v_sent (view w) @ relay False (map dropCR (Split_on nl out)) \<and>
         (\<exists>x y. e = x @ err @ y \<and> (x = [] \<or> x = v_err (view w)) \<and> (y = [] \<or> y = [nl]))
     | (c, e, Some x) \<Rightarrow> c = -1 \<and> e = [])"
  using bash_session.execute_ends [OF assms]
proof
  assume "\<exists>x s' w'. ExecuteStream p k cmd s w = Some ((-1, [], Some (Wrap ''context: '' x)), s', w') \<and>
      context_error x \<and> session_idle s' (view w') \<and> v_shell (view w') = v_shell (view w) \<and>
      v_sent (view w') = v_sent (view w) \<and> (v_err (view w) = [] \<longrightarrow> v_err (view w') = [])"
  then show ?thesis by fastforce
next
  assume "\<exists>late. (late = [] \<or> late = v_err (view w)) \<and>
      command_ends context_error p view (late @ err) (relay False (map dropCR (Split_on nl out))) ec sh
        (v_sent (view w)) (ExecuteStream p k cmd s w)"
  then obtain late where late: "late = [] \<or> late = v_err (view w)"
    and ends: "command_ends context_error p view (late @ err) (relay False (map dropCR (Split_on nl out))) ec sh
        (v_sent (view w)) (ExecuteStream p k cmd s w)" by blast
  from ends obtain res s' w' where
    r: "ExecuteStream p k cmd s w = Some (res, s', w')" "session_idle s' (view w')" "v_shell (view w') = sh"
      "answers context_error (whole_chunks p view) (late @ err) (relay False (map dropCR (Split_on nl out))) ec
        (v_sent (view w)) (v_sent (view w')) res"
    unfolding command_ends_def by blast
  obtain c e x where res: "res = (c, e, x)" by (cases res)
  show ?thesis
  proof (cases x)
    case None
    with r(4) res obtain y where "c = ec" "e = late @ err @ y" "y = [] \<or> y = [nl]"
        "v_sent (view w') = v_sent (view w) @ relay False (map dropCR (Split_on nl out))"
      by (auto simp: answers_def)
    then show ?thesis using r(1-3) res None late by auto
  next
    case (Some y)
    then show ?thesis using r res by (auto simp: answers_def)
  qed
qed

theorem ExecuteStream_any_chunks_witness:
  "\<exists>s1 w1 s2 w2. ExecuteStream (mem_streams (Some 0)) (mem_caller None) ''a'' new_bashShell demo_bash =
      Some ((3, ''e'', None), s1, w1) \<and>
    ExecuteStream (mem_streams (Some 0)) (mem_caller None) ''c'' s1 w1 = Some ((255, nl # ''_'' @ [nl], None), s2, w2) \<and>
    session_idle s2 (mem_view w2)"
proof -
  let ?p = "mem_streams (Some 0)" and ?k = "mem_caller None"
  have lines: "l \<in> set (Split_on nl (''x'' @ [nl] @ [nl] @ ''y'')) \<Longrightarrow>
        int (length l) < maxLine \<and> \<not> prefix marker_head (dropCR l)"
      "l \<in> set (Split_on nl [nl]) \<Longrightarrow> int (length l) < maxLine \<and> \<not> prefix marker_head (dropCR l)" for l
    by (auto simp: nl_def maxLine_def marker_head_def dropCR_def)
  have no: "\<not> sublist marker_head ''e''" "\<not> sublist marker_head (''_'' @ [nl])" by code_simp+
  have run: "mem_run (v_shell (mem_view demo_bash)) ''a'' = Some (''x'' @ [nl] @ [nl] @ ''y'', ''e'', 3, mb_table demo_bash)"
    by (simp add: mem_run_def mem_view_def demo_bash_def)
  from ExecuteStream_any_chunks [OF mem_session [of "Some 0" None] demo_idle(1) run no(1) lines(1)]
  obtain res1 s1 w1 where r1: "ExecuteStream ?p ?k ''a'' new_bashShell demo_bash = Some (res1, s1, w1)"
      "session_idle s1 (mem_view w1)" by blast
  have "map_option fst (ExecuteStream ?p ?k ''a'' new_bashShell demo_bash) = Some (3, ''e'', None) \<and>
      map_option (\<lambda>(r, s, w). mb_table w) (ExecuteStream ?p ?k ''a'' new_bashShell demo_bash) = Some (mb_table demo_bash) \<and>
      (case ExecuteStream ?p ?k ''a'' new_bashShell demo_bash of None \<Rightarrow> None | Some (r, s, w) \<Rightarrow>
         map_option fst (ExecuteStream ?p ?k ''c'' s w)) = Some (255, nl # ''_'' @ [nl], None)"
    by code_simp
  then have res1: "res1 = (3, ''e'', None)" and tab: "mb_table w1 = mb_table demo_bash"
    and second: "map_option fst (ExecuteStream ?p ?k ''c'' s1 w1) = Some (255, nl # ''_'' @ [nl], None)"
    using r1(1) by simp_all
  have run2: "mem_run (v_shell (mem_view w1)) ''c'' = Some ([nl], ''_'' @ [nl], 255, mb_table demo_bash)"
    using tab by (simp add: mem_run_def mem_view_def demo_bash_def)
  from ExecuteStream_any_chunks [OF mem_session [of "Some 0" None] r1(2) run2 no(2) lines(2)]
  obtain res2 s2 w2 where "ExecuteStream ?p ?k ''c'' s1 w1 = Some (res2, s2, w2)" "session_idle s2 (mem_view w2)"
    by blast
  then show ?thesis using r1 res1 second by auto
qed

section \<open>The reader and the channel of the marker\<close>

text \<open>
  The reader never closes a channel twice, and never one that was not made; and an exit code
  is reported only after the marker on standard error has been seen, with the shell in order.
\<close>

theorem ExecuteStream_waits_for_stderr:
  assumes "reader_ok s" and "ExecuteStream p k cmd s w = Some (res, s', w')"
  shows "reader_ok (readStderr chunks s) \<and> reader_ok s' \<and>
    (snd (snd res) = None \<longrightarrow> stderrDone s' = ClosedChan \<and> broken s' = None)"
  using reader_ok_chunks [OF assms(1)] ExecuteStream_reader [OF assms(2,1)] by blast

theorem ExecuteStream_waits_for_stderr_witness:
  "\<exists>s' w'. ExecuteStream (mem_streams None) (mem_caller None) ''b'' new_bashShell demo_bash = Some ((0, [], None), s', w') \<and>
    stderrDone s' = ClosedChan"
proof -
  have "map_option fst (ExecuteStream (mem_streams None) (mem_caller None) ''b'' new_bashShell demo_bash) =
      Some (0, [], None)" by code_simp
  then obtain s' w' where run: "ExecuteStream (mem_streams None) (mem_caller None) ''b'' new_bashShell demo_bash =
      Some ((0, [], None), s', w')" by auto
  from ExecuteStream_waits_for_stderr [OF reader_ok_new run] have "stderrDone s' = ClosedChan" by simp
  with run show ?thesis by blast
qed

text \<open>
  The wait has no way out but the marker: after a command that redirects the standard error of
  bash for good, the marker line comes on standard output only, and the call never returns. It
  keeps the mutex, so that \<open>Close\<close> does not return either.
\<close>

definition silent_streams :: "mem_bash streams" where
  "silent_streams = (mem_streams None)\<lparr>writeStdin := \<lambda>txt w. (None, (snd (mem_write txt w))\<lparr>mb_err := []\<rparr>)\<rparr>"

lemma silent_stderr_blocks: "ExecuteStream silent_streams (mem_caller None) ''b'' new_bashShell demo_bash = None"
  by code_simp

section \<open>Starting bash\<close>

text \<open>The pipes that are open, and what opening and closing does to them.\<close>

locale pipe_owner =
  fixes cmd :: "'w commander" and closePipe :: "pipe \<Rightarrow> 'w \<Rightarrow> 'w" and open_pipes :: "'w \<Rightarrow> pipe set"
  assumes opens: "cmd_StdinPipe cmd w = (res, w') \<Longrightarrow>
        open_pipes w' = (if res = None then insert Stdin (open_pipes w) else open_pipes w)"
      "cmd_StdoutPipe cmd w = (res, w') \<Longrightarrow>
        open_pipes w' = (if res = None then insert Stdout (open_pipes w) else open_pipes w)"
      "cmd_StderrPipe cmd w = (res, w') \<Longrightarrow>
        open_pipes w' = (if res = None then insert Stderr (open_pipes w) else open_pipes w)"
    and starts: "cmd_Start cmd w = (res, w') \<Longrightarrow> open_pipes w' = open_pipes w"
    and closes: "open_pipes (closePipe x w) = open_pipes w - {x}"
begin

lemma new_shell_pipes:
  assumes "newBashShellFromCommander cmd closePipe w = (res, w')" and "open_pipes w = {}"
  shows "open_pipes w' = (case res of Inl e \<Rightarrow> {} | Inr s \<Rightarrow> {Stdin, Stdout, Stderr})"
proof -
  obtain r1 w1 where s1: "cmd_StdinPipe cmd w = (r1, w1)" by fastforce
  obtain r2 w2 where s2: "cmd_StdoutPipe cmd w1 = (r2, w2)" by fastforce
  obtain r3 w3 where s3: "cmd_StderrPipe cmd w2 = (r3, w3)" by fastforce
  obtain r4 w4 where s4: "cmd_Start cmd w3 = (r4, w4)" by fastforce
  note laws = opens(1) [OF s1] opens(2) [OF s2] opens(3) [OF s3] starts [OF s4]
  show ?thesis
    using assms s1 s2 s3 s4 laws
    by (cases r1; cases r2; cases r3; cases r4) (auto simp: newBashShellFromCommander_def closes)
qed

end

text \<open>A commander in memory whose \<open>n\<close>th step fails; its world is the set of open pipes.\<close>

definition mem_commander :: "nat \<Rightarrow> pipe set commander" where
  "mem_commander n =
     (let step = (\<lambda>i x ps. if n = i then (Some (ErrorString ''broken''), ps) else (None, insert x ps))
      in \<lparr>cmd_Start = \<lambda>ps. (if n = 4 then Some (ErrorString ''no bash'') else None, ps),
          cmd_Wait = \<lambda>ps. Some (None, ps), cmd_StdinPipe = step 1 Stdin, cmd_StdoutPipe = step 2 Stdout,
          cmd_StderrPipe = step 3 Stderr\<rparr>)"

definition mem_closePipe :: "pipe \<Rightarrow> pipe set \<Rightarrow> pipe set" where
  "mem_closePipe x ps = ps - {x}"

interpretation mem_pipes: pipe_owner "mem_commander n" mem_closePipe id
  by unfold_locales (auto simp: mem_commander_def mem_closePipe_def Let_def split: if_splits)

text \<open>
  Starting bash leaks no pipe: when any step fails, the pipes that were opened are closed
  again; when none does, the shell has its three pipes.
\<close>

theorem newBashShell_pipes:
  assumes "pipe_owner cmd closePipe open_pipes" and "newBashShellFromCommander cmd closePipe w = (res, w')"
    and "open_pipes w = {}"
  shows "open_pipes w' = (case res of Inl e \<Rightarrow> {} | Inr s \<Rightarrow> {Stdin, Stdout, Stderr})"
  using assms by (rule pipe_owner.new_shell_pipes)

theorem newBashShell_pipes_witness:
  "snd (newBashShellFromCommander (mem_commander 3) mem_closePipe {}) = {} \<and>
   fst (newBashShellFromCommander (mem_commander 0) mem_closePipe {}) = Inr new_bashShell"
proof -
  obtain res w' where run: "newBashShellFromCommander (mem_commander 3) mem_closePipe {} = (res, w')" by fastforce
  have "res = Inl (Wrap ''stderr pipe: '' (ErrorString ''broken''))"
    using run by (auto simp: newBashShellFromCommander_def mem_commander_def)
  with newBashShell_pipes [OF mem_pipes.pipe_owner_axioms run] run
  have "snd (newBashShellFromCommander (mem_commander 3) mem_closePipe {}) = {}" by simp
  moreover have "fst (newBashShellFromCommander (mem_commander 0) mem_closePipe {}) = Inr new_bashShell"
    by (simp add: newBashShellFromCommander_def mem_commander_def)
  ultimately show ?thesis by blast
qed

end
