(* ===== verification/Shell_Pool.thy ===== *)
theory Shell_Pool
  imports Shell_Manager Shell_Properties
begin

text \<open>
  The shells that \<open>ShellManager\<close> really manages: \<open>newDefaultShell\<close> makes a \<open>bashShell\<close>, and the
  interface value that the manager keeps points to it. The pool is the store of these objects, with
  the process of each; \<open>bash_Shell\<close> is the implementation of the interface \<open>Shell\<close> on it. Then
  the properties of the manager, and their interpretation on the pool.
\<close>

section \<open>The store of the shells\<close>

record 'p pool =
  pool_next :: nat
  pool_bash :: "nat \<Rightarrow> bashShell"
  pool_procs :: "nat \<Rightarrow> 'p"
  pool_ended :: "nat list"

definition set_proc :: "nat \<Rightarrow> 'p \<Rightarrow> 'p pool \<Rightarrow> 'p pool" where
  "set_proc h q w = w\<lparr>pool_procs := (pool_procs w)(h := q)\<rparr>"

text \<open>The pipes of one process of the pool.\<close>

definition streams_at :: "'p streams \<Rightarrow> nat \<Rightarrow> 'p pool streams" where
  "streams_at p h =
     \<lparr>writeStdin = \<lambda>txt w. (case writeStdin p txt (pool_procs w h) of (r, q) \<Rightarrow> (r, set_proc h q w)),
      scanStdout = \<lambda>w. (case scanStdout p (pool_procs w h) of None \<Rightarrow> None | Some (x, q) \<Rightarrow> Some (x, set_proc h q w)),
      readyChunks = \<lambda>w. (case readyChunks p (pool_procs w h) of (cs, q) \<Rightarrow> (cs, set_proc h q w)),
      nextChunk = \<lambda>w. (case nextChunk p (pool_procs w h) of None \<Rightarrow> None | Some (c, q) \<Rightarrow> Some (c, set_proc h q w))\<rparr>"

definition bash_Shell :: "'p streams \<Rightarrow> (nat \<Rightarrow> 'p pool commander) \<Rightarrow> (nat, 'p pool) Shell" where
  "bash_Shell p cmds =
     \<lparr>shell_ExecuteStream = \<lambda>h k command w.
        (case ExecuteStream (streams_at p h) k command (pool_bash w h) w of
           None \<Rightarrow> None
         | Some (res, s, w1) \<Rightarrow> Some (res, w1\<lparr>pool_bash := (pool_bash w1)(h := s)\<rparr>)),
      shell_Close = \<lambda>h w.
        (case CloseShell (streams_at p h) (cmds h) w of
           None \<Rightarrow> None
         | Some (res, w1) \<Rightarrow> Some (res, w1\<lparr>pool_ended := pool_ended w1 @ [h]\<rparr>))\<rparr>"

definition newDefaultShell ::
  "(string \<Rightarrow> string list \<Rightarrow> string \<Rightarrow> 'p pool exec_Cmd) \<Rightarrow> (pipe \<Rightarrow> 'p pool \<Rightarrow> 'p pool) \<Rightarrow> 'p pool \<Rightarrow>
   (go_error + nat) \<times> 'p pool" where
  "newDefaultShell execCommand closePipe w =
     (case NewBashShell execCommand closePipe w of
        (Inl err, w1) \<Rightarrow> (Inl err, w1)
      | (Inr s, w1) \<Rightarrow>
          (Inr (pool_next w1),
           w1\<lparr>pool_next := pool_next w1 + 1, pool_bash := (pool_bash w1)(pool_next w1 := s)\<rparr>))"

section \<open>The pool of bashes in memory\<close>

definition mem_cmd :: "string \<Rightarrow> string list \<Rightarrow> string \<Rightarrow> mem_bash pool exec_Cmd" where
  "mem_cmd name args dir =
     \<lparr>Cmd_Start = \<lambda>w. (None, set_proc (pool_next w) demo_bash w), Cmd_Wait = \<lambda>w. Some (None, w),
      Cmd_StdinPipe = \<lambda>w. (None, w), Cmd_StdoutPipe = \<lambda>w. (None, w), Cmd_StderrPipe = \<lambda>w. (None, w)\<rparr>"

definition mem_exec :: "string \<Rightarrow> string list \<Rightarrow> string \<Rightarrow> mem_bash pool commander" where
  "mem_exec name args dir = execCommander (mem_cmd name args dir)"

lemmas mem_exec_defs = mem_exec_def mem_cmd_def execCommander_def

definition mem_Shell :: "(nat, mem_bash pool) Shell" where
  "mem_Shell = bash_Shell (mem_streams None) (\<lambda>h. mem_exec [] [] [])"

definition mem_fresh :: "mem_bash pool \<Rightarrow> (go_error + nat) \<times> mem_bash pool" where
  "mem_fresh = newDefaultShell mem_cmd (\<lambda>x w. w)"

text \<open>Random bytes that are not random: the same ID every other time.\<close>

definition mem_ids :: "mem_bash pool \<Rightarrow> (go_error + string) \<times> mem_bash pool" where
  "mem_ids = generateID (\<lambda>n w. ([char_of (pool_next w div 2)], w))"

definition mem_order :: "(string \<rightharpoonup> nat) \<Rightarrow> string list" where
  "mem_order m = sorted_list_of_set (dom m)"

definition pool_started :: "'p pool \<Rightarrow> nat set" where
  "pool_started w = {..<pool_next w}"

interpretation mem_pool: shell_world mem_Shell mem_order pool_started pool_ended mem_fresh mem_ids
proof
  show "mem_fresh w = (res, w') \<Longrightarrow> pool_ended w' = pool_ended w \<and>
      (case res of
         Inl e \<Rightarrow> pool_started w' = pool_started w
       | Inr h \<Rightarrow> h \<notin> pool_started w \<and> pool_started w' = insert h (pool_started w))" for w res w'
    by (auto simp: mem_fresh_def newDefaultShell_def NewBashShell_def newBashShellFromCommander_def mem_exec_defs
        set_proc_def pool_started_def)
  show "mem_ids w = (named, w') \<Longrightarrow> pool_ended w' = pool_ended w \<and> pool_started w' = pool_started w"
    for w named w'
    by (auto simp: mem_ids_def generateID_def pool_started_def)
  show "shell_Close mem_Shell h w = Some (err, w') \<Longrightarrow>
      pool_ended w' = pool_ended w @ [h] \<and> pool_started w' = pool_started w" for h w err w'
    by (auto simp: mem_Shell_def bash_Shell_def CloseShell_def streams_at_def mem_exec_defs set_proc_def
        pool_started_def Let_def split: prod.splits)
  show "finite (dom m) \<Longrightarrow> distinct (mem_order m) \<and> set (mem_order m) = dom m" for m :: "string \<rightharpoonup> nat"
    by (simp add: mem_order_def)
qed

definition empty_pool :: "mem_bash pool" where
  "empty_pool = \<lparr>pool_next = 0, pool_bash = \<lambda>h. new_bashShell, pool_procs = \<lambda>h. demo_bash, pool_ended = []\<rparr>"

definition mem_manager :: "(nat, mem_bash pool) ShellManager" where
  "mem_manager = \<lparr>shells = Map.empty, genID = mem_ids, newShell = mem_fresh\<rparr>"

lemma mem_Close: "\<exists>w1. shell_Close mem_Shell h w = Some (None, w1)"
  by (auto simp: mem_Shell_def bash_Shell_def CloseShell_def streams_at_def mem_exec_defs mem_streams_def
      mem_write_def Let_def split: prod.splits option.splits)

lemma mem_Create_state:
  "Create mem_Shell mem_manager empty_pool = Some (Inr (ident, h), m, w) \<Longrightarrow>
   shells m = [ident \<mapsto> h] \<and> pool_ended w = []"
  by (auto simp: Create_def mem_manager_def publish_def mem_ids_def generateID_def mem_fresh_def newDefaultShell_def
      NewBashShell_def newBashShellFromCommander_def mem_exec_defs empty_pool_def set_proc_def)

section \<open>The shells of the manager\<close>



text \<open>
  C29: the operations of the manager are runs of this system, whatever their result and whether or
  not starting or closing a shell fails.
\<close>

theorem manager_refines:
  assumes "shell_world ops order started ended fresh ids" and "genID m = ids" and "newShell m = fresh"
    and "finite (dom (shells m))" and "inj_on (shells m) (dom (shells m))"
    and "Create ops m w = Some (res, m', w') \<or> DeleteShell ops m ident w = Some (res2, m', w') \<or>
      CloseAll order ops m w = Some (res2, m', w')"
  shows "manager_step\<^sup>*\<^sup>* (state_of started ended m w) (state_of started ended m' w')"
  using assms(6)
proof (elim disjE)
  assume "Create ops m w = Some (res, m', w')"
  from shell_world.Create_steps [OF assms(1) this assms(2,3)] show ?thesis .
next
  assume "DeleteShell ops m ident w = Some (res2, m', w')"
  from shell_world.Delete_steps [OF assms(1) this] show ?thesis .
next
  assume "CloseAll order ops m w = Some (res2, m', w')"
  from shell_world.CloseAll_steps [OF assms(1) this assms(4,5)] show ?thesis by blast
qed

theorem manager_refines_witness:
  "\<exists>m' w'. Create mem_Shell mem_manager empty_pool = Some (Inr (''00'', 0), m', w') \<and>
     manager_step\<^sup>*\<^sup>* manager_init (state_of pool_started pool_ended m' w')"
proof -
  have "map_option fst (Create mem_Shell mem_manager empty_pool) = Some (Inr (''00'', 0))" by code_simp
  then obtain m' w' where run: "Create mem_Shell mem_manager empty_pool = Some (Inr (''00'', 0), m', w')" by auto
  have init: "state_of pool_started pool_ended mem_manager empty_pool = manager_init"
    by (simp add: state_of_def manager_init_def mem_manager_def empty_pool_def pool_started_def)
  have "manager_step\<^sup>*\<^sup>* (state_of pool_started pool_ended mem_manager empty_pool) (state_of pool_started pool_ended m' w')"
    by (rule manager_refines [OF mem_pool.shell_world_axioms _ _ _ _ disjI1 [OF run]])
      (simp_all add: mem_manager_def)
  with init run show ?thesis by auto
qed

text \<open>
  Shutting down leaves no bash behind. When all shells of the manager are accounted for and
  \<open>CloseAll\<close> returns, every shell that was ever started has been closed, and once, whatever the
  order of the map and whatever errors there were.
\<close>

theorem CloseAll_leaves_none:
  assumes "shell_world ops order started ended fresh ids" and "accounted (state_of started ended m w)"
    and "finite (dom (shells m))" and "CloseAll order ops m w = Some (res, m', w')"
  shows "set (ended w') = started w' \<and> distinct (ended w') \<and> shells m' = Map.empty"
proof -
  have "inj_on (shells m) (dom (shells m))" using assms(2) by (simp add: accounted_def state_of_def)
  from shell_world.CloseAll_steps [OF assms(1,4,3) this]
  have steps: "manager_step\<^sup>*\<^sup>* (state_of started ended m w) (state_of started ended m' w')" "shells m' = Map.empty"
    by auto
  from accounted_steps [OF steps(1) assms(2)] steps(2) show ?thesis by (simp add: accounted_def state_of_def)
qed

theorem CloseAll_leaves_none_witness:
  "\<exists>m w m' w'. Create mem_Shell mem_manager empty_pool = Some (Inr (''00'', 0), m, w) \<and>
     CloseAll mem_order mem_Shell m w = Some (None, m', w') \<and> pool_ended w' = [0]"
proof -
  have "map_option fst (Create mem_Shell mem_manager empty_pool) = Some (Inr (''00'', 0))" by code_simp
  then obtain m w where run: "Create mem_Shell mem_manager empty_pool = Some (Inr (''00'', 0), m, w)" by auto
  from mem_Create_state [OF run] have m: "shells m = [''00'' \<mapsto> 0]" and w: "pool_ended w = []" by auto
  have acc: "accounted (state_of pool_started pool_ended m w)"
    by (rule accounted_steps [OF mem_pool.Create_steps [OF run]])
      (simp_all add: mem_manager_def accounted_def state_of_def empty_pool_def pool_started_def)
  obtain w1 where c: "shell_Close mem_Shell 0 w = Some (None, w1)" using mem_Close by blast
  have close: "CloseAll mem_order mem_Shell m w = Some (None, m\<lparr>shells := Map.empty\<rparr>, w1)"
    using c m by (simp add: CloseAll_def mem_order_def)
  have "finite (dom (shells m))" by (simp add: m)
  from CloseAll_leaves_none [OF mem_pool.shell_world_axioms acc this close]
  have "set (pool_ended w1) = pool_started w1" "distinct (pool_ended w1)" by auto
  moreover have "pool_ended w1 = [0]" using mem_pool.ending [OF c] w by simp
  ultimately show ?thesis using run close by blast
qed

end
