(* ===== verification/Pool_Sessions.thy ===== *)
theory Pool_Sessions
  imports Shell_Pool
begin

text \<open>
  A session on one process is a session on the pool of all processes, and running a command in one
  shell touches nothing of the others.
\<close>

section \<open>Frames of a command\<close>

text \<open>
  What the pipes and the channel can do to the world is bounded by a reflexive, transitive
  relation; then so is what a command does.
\<close>

locale stream_frame =
  fixes p :: "'w streams" and k :: "'w caller" and R :: "'w \<Rightarrow> 'w \<Rightarrow> bool"
  assumes frame_refl [simp]: "R w w"
    and frame_trans [trans]: "R u v \<Longrightarrow> R v w \<Longrightarrow> R u w"
    and frame_write: "writeStdin p txt w = (e, w') \<Longrightarrow> R w w'"
    and frame_scan: "scanStdout p w = Some (x, w') \<Longrightarrow> R w w'"
    and frame_ready: "readyChunks p w = (cs, w') \<Longrightarrow> R w w'"
    and frame_next: "nextChunk p w = Some (c, w') \<Longrightarrow> R w w'"
    and frame_send: "sendOrDone k l w = (e, w') \<Longrightarrow> R w w'"
    and frame_close: "R w (closeStdoutCh k w)"
    and frame_clock: "UnixNano k w = (t, w') \<Longrightarrow> R w w'"
begin

lemma frame_reader: "reader_runs p s w = (s', w') \<Longrightarrow> R w w'"
  by (auto simp: reader_runs_def dest: frame_ready split: prod.splits)

lemma frame_sendLine: "sendLine k l w = (e, w') \<Longrightarrow> R w w'"
  by (auto simp: sendLine_def dest: frame_send split: prod.splits option.splits)

lemma frame_await:
  assumes "await_stderr p s w = Some r"
  shows "R w (snd r)"
proof -
  have "p = p \<longrightarrow> R w (snd r)"
  proof (rule await_stderr.raw_induct [where P = "\<lambda>p' s w r. p' = p \<longrightarrow> R w (snd r)", OF _ assms], goal_cases)
    case (1 f p' s w r)
    show ?case
    proof
      assume p': "p' = p"
      show "R w (snd r)"
      proof (cases "stderrDone s = ClosedChan")
        case False
        with 1(2) p' obtain chunk w1 where n: "nextChunk p w = Some (chunk, w1)" "f p (read_chunk chunk s) w1 = Some r"
          by (auto split: option.splits prod.splits)
        from 1(1) [OF n(2)] have "R w1 (snd r)" by simp
        with frame_next [OF n(1)] show ?thesis by (rule frame_trans)
      qed (use 1(2) in auto)
    qed
  qed
  then show ?thesis by simp
qed

lemma frame_marker:
  assumes "marker_found p ec se s w = Some (res, s', w')"
  shows "R w w'"
proof (cases "Atoi ec")
  case (Inr v)
  then obtain s1 w1 where await: "await_stderr p s w = Some (s1, w1)"
    using assms by (cases "await_stderr p s w") (auto simp: marker_found_def)
  obtain s2 w2 where reader: "reader_runs p s1 w1 = (s2, w2)" by fastforce
  then have "w' = w2" using assms Inr await by (auto simp: marker_found_def split: option.splits)
  moreover have "R w w1" using frame_await [OF await] by simp
  ultimately show ?thesis using frame_reader [OF reader] frame_trans by blast
qed (use assms in \<open>auto simp: marker_found_def\<close>)

lemma frame_loop:
  assumes "scan_loop p k m pe se s w = Some (res, s', w')"
  shows "R w w'"
proof -
  have "R w (snd (snd (res, s', w')))"
  proof (rule scan_loop_world_rule [where I = "\<lambda>se s v. R w v" and Q = "\<lambda>r. R w (snd (snd r))", OF assms])
    fix se s ec v r
    assume "R w v" and "marker_found p ec se s v = Some r"
    then show "R w (snd (snd r))" using frame_marker frame_trans by (cases r) fastforce
  qed (auto dest: frame_scan frame_sendLine intro: frame_trans)
  then show ?thesis by simp
qed

lemma frame_execute:
  assumes "ExecuteStream p k cmd s w = Some (res, s', w')"
  shows "R w w'"
proof -
  from assms obtain w5 where run: "execute_locked p k cmd s w = Some (res, s', w5)" and w': "w' = closeStdoutCh k w5"
    by (auto simp: ExecuteStream_def split: option.splits)
  have "R w w5"
  proof (cases "broken s")
    case None
    obtain s1 w1 where r1: "reader_runs p s w = (s1, w1)" by fastforce
    obtain t w2 where t: "UnixNano k w1 = (t, w2)" by fastforce
    obtain s3 w3 where r3: "reader_runs p (resetStderr s1) w2 = (s3, w3)" by fastforce
    have "R w w2" using frame_reader [OF r1] frame_clock [OF t] by (rule frame_trans)
    then have w3: "R w w3" using frame_reader [OF r3] by (rule frame_trans)
    obtain we w4 where wr: "writeStdin p (script_text cmd (marker_text t)) w3 = (we, w4)" by fastforce
    have w4: "R w w4" using w3 frame_write [OF wr] by (rule frame_trans)
    note steps = None r1 t r3 wr
    show ?thesis
    proof (cases "callErr k w3 = None \<and> we = None")
      case True
      then have "scan_loop p k (marker_text t) False None
          (s3\<lparr>stderrMarker := marker_text t, stderrDone := OpenChan\<rparr>) w4 = Some (res, s', w5)"
        using run steps by (simp add: execute_locked_def Let_def)
      from w4 frame_loop [OF this] show ?thesis by (rule frame_trans)
    next
      case False
      then have "w5 = w3 \<or> w5 = w4"
        using run steps by (cases "callErr k w3"; cases we) (auto simp: execute_locked_def Let_def)
      then show ?thesis using w3 w4 by blast
    qed
  qed (use run in \<open>auto simp: execute_locked_def\<close>)
  then show ?thesis unfolding w' using frame_close by (rule frame_trans)
qed

end

section \<open>One process of the pool\<close>

text \<open>The channel and the clock of a caller that only sees one process, and the view of it.\<close>

definition caller_at :: "'p caller \<Rightarrow> nat \<Rightarrow> 'p pool caller" where
  "caller_at k h =
     \<lparr>callErr = \<lambda>w. callErr k (pool_procs w h),
      sendOrDone = \<lambda>l w. (case sendOrDone k l (pool_procs w h) of (e, q) \<Rightarrow> (e, set_proc h q w)),
      closeStdoutCh = \<lambda>w. set_proc h (closeStdoutCh k (pool_procs w h)) w,
      UnixNano = \<lambda>w. (case UnixNano k (pool_procs w h) of (t, q) \<Rightarrow> (t, set_proc h q w))\<rparr>"

definition view_at :: "('p \<Rightarrow> 'sh session_view) \<Rightarrow> nat \<Rightarrow> 'p pool \<Rightarrow> 'sh session_view" where
  "view_at view h w = view (pool_procs w h)"

lemma view_at_set_proc [simp]: "view_at view h (set_proc h q w) = view q"
  by (simp add: view_at_def set_proc_def)

lemma session_at:
  assumes "bash_session p k view run ctx_error"
  shows "bash_session (streams_at p h) (caller_at k h) (view_at view h) run ctx_error"
proof -
  note laws = assms [unfolded bash_session_def]
  show ?thesis
  proof (unfold_locales, goal_cases)
    case (1 w t w')
    then show ?case using laws by (auto simp: caller_at_def view_at_def set_proc_def split: prod.splits)
  next
    case (2 cmd t w res w' out err ec sh)
    obtain q where q: "writeStdin p (script_text cmd (marker_text t)) (pool_procs w h) = (res, q)" "w' = set_proc h q w"
      using 2(1) by (auto simp: streams_at_def split: prod.splits)
    show ?case using bash_session.bash [OF assms q(1)] 2(2,3) q(2) by (simp add: view_at_def set_proc_def)
  next
    case (3 w l rest)
    obtain q where "scanStdout p (pool_procs w h) = Some (Line (dropCR l), q)"
        "view q = (view (pool_procs w h))\<lparr>v_out := rest\<rparr>"
      using bash_session.scanner [OF assms, of "pool_procs w h" l rest] 3 by (auto simp: view_at_def)
    then show ?case by (auto simp: streams_at_def view_at_def set_proc_def)
  next
    case (4 w cs w')
    obtain q where q: "readyChunks p (pool_procs w h) = (cs, q)" "w' = set_proc h q w"
      using 4 by (auto simp: streams_at_def split: prod.splits)
    show ?case using bash_session.ready [OF assms q(1)] q(2) by (simp add: view_at_def set_proc_def)
  next
    case (5 w)
    then obtain c q where "nextChunk p (pool_procs w h) = Some (c, q)" "c \<noteq> []"
        "v_err (view (pool_procs w h)) = c @ v_err (view q)"
        "view q = (view (pool_procs w h))\<lparr>v_err := v_err (view q)\<rparr>"
      using bash_session.waiting [OF assms, of "pool_procs w h"] by (auto simp: view_at_def)
    then show ?case by (auto simp: streams_at_def view_at_def set_proc_def)
  next
    case (6 l w res w')
    obtain q where q: "sendOrDone k l (pool_procs w h) = (res, q)" "w' = set_proc h q w"
      using 6 by (auto simp: caller_at_def split: prod.splits)
    show ?case using bash_session.channel [OF assms q(1)] q(2)
      by (simp add: view_at_def set_proc_def split: option.splits)
  next
    case (7 w e)
    then show ?case using bash_session.call_error [OF assms] by (simp add: caller_at_def)
  next
    case (8 w)
    then show ?case using bash_session.closing [OF assms] by (simp add: caller_at_def view_at_def set_proc_def)
  qed
qed

lemma never_cancelled_at: "never_cancelled k \<Longrightarrow> never_cancelled (caller_at k h)"
  by (auto simp: never_cancelled_def caller_at_def split: prod.splits) (metis fst_conv)

lemma whole_chunks_at: "whole_chunks p view \<Longrightarrow> whole_chunks (streams_at p h) (view_at view h)"
  by (auto simp: whole_chunks_def streams_at_def split: option.splits prod.splits)

text \<open>All other shells are as they were.\<close>

definition others_kept :: "nat \<Rightarrow> 'p pool \<Rightarrow> 'p pool \<Rightarrow> bool" where
  "others_kept h w w' \<longleftrightarrow>
     pool_bash w' = pool_bash w \<and> pool_next w' = pool_next w \<and> pool_ended w' = pool_ended w \<and>
     (\<forall>i. i \<noteq> h \<longrightarrow> pool_procs w' i = pool_procs w i)"

lemma others_kept_set_proc [simp]: "others_kept h w (set_proc h q w)"
  by (simp add: others_kept_def set_proc_def)

interpretation one_process: stream_frame "streams_at p h" "caller_at k h" "others_kept h"
  by unfold_locales
    (auto simp: streams_at_def caller_at_def split: option.splits prod.splits, auto simp: others_kept_def)

end
