(* ===== verification/Runner_Properties.thy ===== *)
theory Runner_Properties
  imports Pool_Sessions Audit_Log
begin

text \<open>
  The properties of the runner's handlers: what a command request does and logs, what the visitor
  gets from the stream, and the life of a shell cookie.
\<close>

section \<open>A command request\<close>

text \<open>
  What \<open>handleExecute\<close> decides before it runs anything: the status and text of a refusal, or the
  shell ID, the shell, the command and the client's address.
\<close>

definition execute_request ::
  "('h, 'w) ShellManager \<Rightarrow> rgin \<Rightarrow> (nat \<times> string) + string \<times> 'h \<times> string \<times> string" where
  "execute_request sm c =
     (case rg_cookie c shellIDCookie of
        None \<Rightarrow> Inl (400, errMissingShellCookie)
      | Some ident \<Rightarrow>
          if ident = [] then Inl (400, errMissingShellCookie)
          else (case (Get sm ident, bind_execute c, clientAddress c) of
             (Inl err, _) \<Rightarrow> Inl (404, error_text err)
           | (_, Inl err, _) \<Rightarrow> Inl (400, ''invalid request: '' @ error_text err)
           | (_, _, Inl err) \<Rightarrow> Inl (400, error_text err)
           | (Inr sh, Inr command, Inr remote) \<Rightarrow> Inr (ident, sh, command, remote)))"

lemma handleExecute_eq:
  "handleExecute e ops sm c w =
     (case execute_request sm c of
        Inl (code, msg) \<Rightarrow> Some (rg_JSON_error code msg c, w)
      | Inr (ident, sh, command, remote) \<Rightarrow>
          (case shell_ExecuteStream ops sh (exec_caller e) command w of
             None \<Rightarrow> None
           | Some ((exitCode, stderr, err), w1) \<Rightarrow>
               Some (auditLog e ident remote (classifyCommand command) command (Some exitCode) err w1
                 (rg_Write (writeSSE (complete_event exitCode))
                   ((if stderr \<noteq> [] then rg_Write (writeSSE (stderr_event stderr)) else id)
                     (relay_lines (exec_lines e w1)
                       (stream_headers (auditLog e ident remote (classifyCommand command) command None None w c))))), w1)))"
  by (simp add: handleExecute_def execute_request_def Let_def split: option.splits sum.splits prod.splits)

text \<open>The bytes that a response has so far.\<close>

definition stream_bytes :: "rgin \<Rightarrow> string" where
  "stream_bytes c = (case rg_response c of StreamResponse b \<Rightarrow> b | _ \<Rightarrow> [])"

lemma rg_Write_bytes [simp]:
  "stream_bytes (rg_Write b c) = stream_bytes c @ b" "rg_response (rg_Write b c) = StreamResponse (stream_bytes c @ b)"
  "rg_log (rg_Write b c) = rg_log c"
  by (simp_all add: rg_Write_def stream_bytes_def split: response_body.splits)

lemma relay_lines_bytes [simp]:
  "stream_bytes (relay_lines ls c) = stream_bytes c @ concat (map (\<lambda>l. writeSSE (stdout_event l)) ls)"
  "rg_log (relay_lines ls c) = rg_log c"
  by (induction ls arbitrary: c) (simp_all add: relay_lines_def)

lemma stream_headers_frame [simp]:
  "stream_bytes (stream_headers c) = stream_bytes c" "rg_log (stream_headers c) = rg_log c"
  by (simp_all add: stream_headers_def rg_Header_def stream_bytes_def)

lemma auditLog_frame [simp]:
  "stream_bytes (auditLog e sh r cl cmd ec err w c) = stream_bytes c"
  "rg_response (auditLog e sh r cl cmd ec err w c) = rg_response c"
  "rg_log (auditLog e sh r cl cmd ec err w c) =
     rg_log c @ [audit_line (now_text e w) sh r cl cmd ec err @ [nl]]"
  by (simp_all add: auditLog_def stream_bytes_def)

lemma rg_JSON_error_frame [simp]:
  "rg_log (rg_JSON_error code msg c) = rg_log c" "rg_status (rg_JSON_error code msg c) = code"
  "rg_response (rg_JSON_error code msg c) = errorResponse msg"
  by (simp_all add: rg_JSON_error_def)

definition result_events :: "string list \<Rightarrow> string \<Rightarrow> int \<Rightarrow> sseEvent list" where
  "result_events ls err ec =
     map stdout_event ls @ (if err = [] then [] else [stderr_event err]) @ [complete_event ec]"

lemma handleExecute_runs:
  assumes "execute_request sm c = Inr (ident, sh, command, remote)"
    and "shell_ExecuteStream ops sh (exec_caller e) command w = Some ((ec, stderr, err), w1)"
  shows "\<exists>c'. handleExecute e ops sm c w = Some (c', w1) \<and>
    rg_response c' = StreamResponse (stream_bytes c @ concat (map writeSSE (result_events (exec_lines e w1) stderr ec))) \<and>
    rg_log c' = rg_log c @
      [audit_line (now_text e w) ident remote (classifyCommand command) command None None @ [nl],
       audit_line (now_text e w1) ident remote (classifyCommand command) command (Some ec) err @ [nl]]"
  by (simp add: handleExecute_eq assms result_events_def comp_def)

section \<open>A runner in memory\<close>

definition mem_outside :: "nat \<Rightarrow> mem_bash pool outside" where
  "mem_outside h =
     \<lparr>exec_caller = caller_at (mem_caller None) h, exec_lines = \<lambda>w. v_sent (mem_view (pool_procs w h)),
      now_text = \<lambda>w. ''now'', os_ReadFile = \<lambda>path w. (Inr ''1;'', w), os_WriteFile = \<lambda>path data w. (None, w),
      os_Rename = \<lambda>a b w. (None, w), os_Remove = \<lambda>path w. (None, w), os_Getpid = 1, tmpCounter_Add = \<lambda>w. (1, w)\<rparr>"

definition demo_manager :: "nat \<Rightarrow> (nat, mem_bash pool) ShellManager" where
  "demo_manager h = \<lparr>shells = [''00'' \<mapsto> h], genID = mem_ids, newShell = mem_fresh\<rparr>"

definition demo_request :: "string \<Rightarrow> string \<Rightarrow> rgin" where
  "demo_request ident command =
     \<lparr>rg_cookie = [''shell_id'' \<mapsto> ident],
      rg_header = \<lambda>k. if k = ''X-Bunshin-Client-Address'' then ''1.2.3.4:8'' else [],
      rg_json = Inr command, rg_body = Inr [], rg_status = 0, rg_headers = Map.empty, rg_set_cookies = [],
      rg_strict = False, rg_response = NoResponse, rg_log = []\<rparr>"

section \<open>The audit log\<close>

text \<open>
  C22: a command is run if and only if it is in the audit log. A request that is refused runs
  nothing, logs nothing and changes nothing. Any other runs exactly one command, that of its body,
  in the shell of its cookie; the log gets a line before the command and one with its exit code
  after it, both with the shell, the client's address and the class of the command.
\<close>

theorem executed_iff_audited:
  assumes "handleExecute e ops sm c w = Some (c', w')"
  shows "(\<exists>msg. w' = w \<and> rg_log c' = rg_log c \<and> rg_status c' \<in> {400, 404} \<and> rg_response c' = errorResponse msg) \<or>
    (\<exists>ident sh command remote ec stderr err.
       rg_cookie c shellIDCookie = Some ident \<and> Get sm ident = Inr sh \<and> rg_json c = Inr command \<and>
       parseClientAddress (rg_header c clientAddressHeader) = Inr remote \<and>
       shell_ExecuteStream ops sh (exec_caller e) command w = Some ((ec, stderr, err), w') \<and>
       rg_log c' = rg_log c @
         [audit_line (now_text e w) ident remote (classifyCommand command) command None None @ [nl],
          audit_line (now_text e w') ident remote (classifyCommand command) command (Some ec) err @ [nl]])"
proof (cases "execute_request sm c")
  case (Inl refusal)
  then have "fst refusal \<in> {400, 404}"
    by (auto simp: execute_request_def split: option.splits if_splits sum.splits)
  then show ?thesis using assms Inl by (auto simp: handleExecute_eq split: prod.splits)
next
  case (Inr r)
  obtain ident sh command remote where r: "r = (ident, sh, command, remote)" by (cases r)
  obtain ec stderr err w1 where run: "shell_ExecuteStream ops sh (exec_caller e) command w = Some ((ec, stderr, err), w1)"
    using assms Inr r by (cases "shell_ExecuteStream ops sh (exec_caller e) command w") (auto simp: handleExecute_eq)
  from Inr r have "rg_cookie c shellIDCookie = Some ident" "Get sm ident = Inr sh" "rg_json c = Inr command"
      "parseClientAddress (rg_header c clientAddressHeader) = Inr remote"
    by (auto simp: execute_request_def bind_execute_def clientAddress_def Let_def
        split: option.splits if_splits sum.splits)
  then show ?thesis using handleExecute_runs [OF Inr [unfolded r] run] assms run by fastforce
qed

theorem executed_iff_audited_witness:
  "\<exists>c' w'. handleExecute (mem_outside 0) mem_Shell (demo_manager 0) (demo_request ''00'' ''b'') empty_pool = Some (c', w') \<and>
     length (rg_log c') = 2 \<and> rg_log c' ! 0 = ''now [AUDIT] shell=00 remote=1.2.3.4:8 class=unclassified command='' @ Quote ''b'' @ [nl]"
proof -
  let ?run = "handleExecute (mem_outside 0) mem_Shell (demo_manager 0) (demo_request ''00'' ''b'') empty_pool"
  have "map_option (rg_status \<circ> fst) ?run = Some 0" by code_simp
  then obtain c' w' where run: "?run = Some (c', w')" and ok: "rg_status c' = 0" by auto
  have "parseClientAddress ''1.2.3.4:8'' = Inr ''1.2.3.4:8''" "classifyCommand ''b'' = ''unclassified''" by code_simp+
  then have "length (rg_log c') = 2 \<and> rg_log c' ! 0 =
      audit_line ''now'' ''00'' ''1.2.3.4:8'' ''unclassified'' ''b'' None None @ [nl]"
    using executed_iff_audited [OF run] ok
    by (auto simp: demo_request_def mem_outside_def clientAddressHeader_def shellIDCookie_def)
  then show ?thesis using run by (simp add: audit_line_def)
qed

section \<open>From the request to the stream\<close>

text \<open>
  C21: a command request is answered with what its command did. On a shell of the manager that is in
  order, the stream holds the output of the command, one event for each line, its standard error
  when there is any, and its exit code; the shell is idle again, with bash in the state after the
  command, and no other shell has been touched.
\<close>

theorem execute_delivers:
  assumes "bash_session p k view run context_error" and "never_cancelled k" and "whole_chunks p view"
    and "execute_request sm c = Inr (ident, h, command, remote)" and "stream_bytes c = []"
    and "exec_caller e = caller_at k h" and "exec_lines e = (\<lambda>w. v_sent (view (pool_procs w h)))"
    and "session_idle (pool_bash w h) (view (pool_procs w h))" and "v_err (view (pool_procs w h)) = []"
    and "v_sent (view (pool_procs w h)) = []"
    and "run (v_shell (view (pool_procs w h))) command = Some (out, err, ec, sh)" and "clean_output out err"
  shows "\<exists>c' w' ls. handleExecute e (bash_Shell p cmds) sm c w = Some (c', w') \<and>
    rg_response c' = StreamResponse (concat (map writeSSE (result_events ls err ec))) \<and>
    concat ls = with_newline out \<and>
    session_idle (pool_bash w' h) (view (pool_procs w' h)) \<and> v_shell (view (pool_procs w' h)) = sh \<and>
    (\<forall>i. i \<noteq> h \<longrightarrow> pool_bash w' i = pool_bash w i \<and> pool_procs w' i = pool_procs w i)"
proof -
  let ?p = "streams_at p h" and ?k = "caller_at k h" and ?view = "view_at view h"
  have session: "bash_session ?p ?k ?view run (\<lambda>e. False)"
    by (rule never_cancelled_session [OF session_at [OF assms(1)] never_cancelled_at [OF assms(2)]])
  note start = assms(8-11) [folded view_at_def]
  from bash_session.execute_clean [OF session whole_chunks_at [OF assms(3)] start(1,2,4) assms(12)]
  obtain res s' w1 ls where run: "ExecuteStream ?p ?k command (pool_bash w h) w = Some (res, s', w1)"
    and idle: "session_idle s' (?view w1)" and sent: "v_sent (?view w1) = ls"
    and res: "case res of
       (c, e, None) \<Rightarrow> c = ec \<and> e = err \<and> concat ls = with_newline out \<and> v_shell (?view w1) = sh
     | (c, e, Some x) \<Rightarrow> False"
    using start(3) by (auto split: prod.splits option.splits)
  then have r: "res = (ec, err, None)" "concat ls = with_newline out" "v_shell (?view w1) = sh"
    by (auto split: prod.splits option.splits)
  let ?w' = "w1\<lparr>pool_bash := (pool_bash w1)(h := s')\<rparr>"
  have "shell_ExecuteStream (bash_Shell p cmds) h (exec_caller e) command w = Some ((ec, err, None), ?w')"
    by (simp add: bash_Shell_def assms(6) run r(1))
  from handleExecute_runs [OF assms(4) this]
  obtain c' where c': "handleExecute e (bash_Shell p cmds) sm c w = Some (c', ?w')"
    "rg_response c' = StreamResponse (stream_bytes c @ concat (map writeSSE (result_events (exec_lines e ?w') err ec)))"
    by blast
  have "exec_lines e ?w' = ls" using sent by (simp add: assms(7) view_at_def)
  moreover have "others_kept h w w1" by (rule one_process.frame_execute [OF run])
  ultimately show ?thesis
    using c' idle r assms(5)
    by (intro exI [of _ c'] exI [of _ ?w'] exI [of _ ls]) (auto simp: others_kept_def view_at_def)
qed

theorem execute_delivers_witness:
  "\<exists>c' w' ls. handleExecute (mem_outside 1) mem_Shell (demo_manager 1) (demo_request ''00'' ''a'') empty_pool = Some (c', w') \<and>
     rg_response c' = StreamResponse (concat (map writeSSE (result_events ls ''e'' 3))) \<and>
     concat ls = ''x'' @ [nl] @ [nl] @ ''y'' @ [nl] \<and> pool_procs w' 0 = demo_bash"
proof -
  have run: "mem_run (v_shell (mem_view (pool_procs empty_pool 1))) ''a'' = Some (''x'' @ [nl] @ [nl] @ ''y'', ''e'', 3, mb_table demo_bash)"
    by (simp add: mem_run_def mem_view_def empty_pool_def demo_bash_def)
  have addr: "parseClientAddress ''1.2.3.4:8'' = Inr ''1.2.3.4:8''" by code_simp
  have clean: "clean_output (''x'' @ [nl] @ [nl] @ ''y'') ''e''" by code_simp
  have request: "execute_request (demo_manager 1) (demo_request ''00'' ''a'') = Inr (''00'', 1, ''a'', ''1.2.3.4:8'')"
    by (simp add: execute_request_def demo_request_def demo_manager_def Get_def bind_execute_def clientAddress_def
        shellIDCookie_def clientAddressHeader_def addr)
  have "stream_bytes (demo_request ''00'' ''a'') = []" by (simp add: stream_bytes_def demo_request_def)
  note result = execute_delivers [OF mem_session [of None None] _ mem_whole request this _ _ _ _ _ run clean,
      of "mem_outside 1" "\<lambda>h. mem_exec [] [] []", folded mem_Shell_def]
  have "never_cancelled (mem_caller None)" by (auto simp: never_cancelled_def mem_caller_def)
  moreover have "with_newline (''x'' @ [nl] @ [nl] @ ''y'') = ''x'' @ [nl] @ [nl] @ ''y'' @ [nl]"
    by (simp add: with_newline_def nl_def)
  ultimately obtain c' w' ls where
    "handleExecute (mem_outside 1) mem_Shell (demo_manager 1) (demo_request ''00'' ''a'') empty_pool = Some (c', w')"
    "rg_response c' = StreamResponse (concat (map writeSSE (result_events ls ''e'' 3)))"
    "concat ls = ''x'' @ [nl] @ [nl] @ ''y'' @ [nl]"
    "\<forall>i. i \<noteq> 1 \<longrightarrow> pool_bash w' i = pool_bash empty_pool i \<and> pool_procs w' i = pool_procs empty_pool i"
    using result
    by (auto simp: mem_outside_def empty_pool_def mem_view_def demo_bash_def session_idle_def new_bashShell_def)
  then show ?thesis by (intro exI conjI) (auto simp: empty_pool_def)
qed

section \<open>The cookie of a shell\<close>






end
