(* ===== verification/App_Supervisor.thy ===== *)
theory App_Supervisor
  imports Go_Strings
begin

text \<open>
  \<open>runner/supervisor.go\<close>: the demo application runs in a process group of its own and is started
  again whenever it ends, until the context is done; then the group is asked to end, and killed
  when it does not.
\<close>

section \<open>Processes\<close>












section \<open>No process is left\<close>


section \<open>An application in memory\<close>






end
