(* ===== verification/Runner_Process.thy ===== *)
theory Runner_Process
  imports Runner_Main Runner_Properties App_Supervisor
begin

text \<open>
  The life of a runner process: whatever requests it serves, its shells are accounted for, and its
  shutdown leaves none; a start either ends in a registered server or closes the listener.
\<close>

section \<open>Serving keeps the shells accounted for\<close>




section \<open>A process in memory\<close>





section \<open>Shutdown\<close>




section \<open>Start\<close>

text \<open>
  C33: no failed start keeps the port, and no server runs unregistered. \<open>start\<close> gets to \<open>run\<close> only
  after \<open>register\<close> has returned without an error, for an ID that the broker accepts and a URL that
  is not empty, so that the shutdown will deregister it, and with no shell open; when it fails
  before that, either nothing was listening or closing the listener is the last thing done to it.
\<close>

theorem start_registers_or_closes:
  "case start_config s addr w of
     None \<Rightarrow> \<exists>url i w1. register (register_deps s url i) w1 = None
   | Some (Inl err, w') \<Rightarrow>
       (\<exists>e. net_Listen s addr (signal_Notify s w) = (Some e, w') \<and> err = Wrap ''listen: '' e) \<or> (\<exists>w1. w' = ln_Close s w1)
   | Some (Inr cfg, w') \<Rightarrow>
       (\<exists>i w1. register (register_deps s (cfg_brokerURL cfg) i) w1 = Some (None, w') \<and> IdentityRunnerID i = cfg_runnerID cfg) \<and>
       runnerIDRe (cfg_runnerID cfg) \<and> cfg_brokerURL cfg = getenv (identity_deps s) ''BROKER_URL'' \<and>
       cfg_brokerURL cfg \<noteq> [] \<and> cfg_runnerID cfg \<noteq> [] \<and> cfg_sm cfg = new_manager s"
proof -
  obtain lerr w1 where listen: "net_Listen s addr (signal_Notify s w) = (lerr, w1)" by fastforce
  obtain r w2 where ident: "resolveIdentity (identity_deps s) w1 = (r, w2)" by fastforce
  show ?thesis
  proof (cases "lerr = None \<and> (\<exists>i. r = Inr i)")
    case False
    then show ?thesis using listen ident by (cases lerr; cases r) (auto simp: start_config_def)
  next
    case True
    then obtain i where i: "lerr = None" "r = Inr i" by blast
    let ?url = "getenv (identity_deps s) ''BROKER_URL''"
    let ?w3 = "start_log s (''runner identity: id='' @ IdentityRunnerID i @ '' host='' @ IdentityPrivateHost i) w2"
    have rid: "runnerIDRe (IdentityRunnerID i)"
      using ident i(2)
      by (auto simp: resolveIdentity_def generateRunnerID_def Let_def runnerIDRe_EncodeToString
          split: prod.splits sum.splits option.splits if_splits)
    show ?thesis
    proof (cases "?url = []")
      case True
      then show ?thesis using listen ident i by (auto simp: start_config_def Let_def)
    next
      case url: False
      show ?thesis
      proof (cases "register (register_deps s ?url i) ?w3")
        case None
        then have "\<exists>url i w1. register (register_deps s url i) w1 = None" by blast
        then show ?thesis using listen ident i url None by (simp add: start_config_def Let_def)
      next
        case (Some q)
        obtain e w4 where q: "q = (e, w4)" by (cases q)
        show ?thesis
        proof (cases e)
          case None
          then show ?thesis using listen ident i url Some q rid runnerIDRe_neq_Nil [OF rid]
            by (auto simp: start_config_def Let_def)
        next
          case (Some x)
          then show ?thesis using listen ident i url \<open>register (register_deps s ?url i) ?w3 = Some q\<close> q
            by (auto simp: start_config_def Let_def)
        qed
      qed
    qed
  qed
qed

end
