(* ===== verification/Runner_Answers.thy ===== *)
theory Runner_Answers
  imports Runner_Properties
begin

text \<open>
  The shapes of the answers of a runner: what a client of any of its routes has to be ready for.
\<close>

section \<open>Shapes\<close>







lemma rg_Write_answer [simp]:
  "rg_status (rg_Write b c) = rg_status c" "rg_set_cookies (rg_Write b c) = rg_set_cookies c"
  "rg_headers (rg_Write b c) = rg_headers c"
  by (simp_all add: rg_Write_def)

lemma relay_lines_answer [simp]:
  "rg_status (relay_lines ls c) = rg_status c" "rg_set_cookies (relay_lines ls c) = rg_set_cookies c"
  "rg_headers (relay_lines ls c) = rg_headers c"
  by (induction ls arbitrary: c) (simp_all add: relay_lines_def)

lemma auditLog_answer [simp]:
  "rg_status (auditLog e sh r cl cmd ec err w c) = rg_status c"
  "rg_set_cookies (auditLog e sh r cl cmd ec err w c) = rg_set_cookies c"
  "rg_headers (auditLog e sh r cl cmd ec err w c) = rg_headers c"
  by (simp_all add: auditLog_def)




section \<open>Every route\<close>



end
