(* ===== verification/Line_Channel.thy ===== *)
theory Line_Channel
  imports Pool_Sessions Runner_Handler
begin

text \<open>
  The channel of \<open>handleExecute\<close> in \<open>runner/handler.go\<close>: \<open>ExecuteStream\<close> sends the lines of a
  command into a buffer of 100, and a goroutine writes an event for each, at its own pace. The
  handler goes on when the goroutine has ended. \<open>handleExecute\<close> says that it finds an event for
  every line; here is why, for every interleaving.
\<close>

section \<open>The channel and its goroutine\<close>





















section \<open>A command that sends into the channel\<close>


section \<open>A channel in memory\<close>










section \<open>The answer is complete\<close>




end
