(* ===== verification/Start_Signals.thy ===== *)
theory Start_Signals
  imports Go_Base
begin

text \<open>
  The signals of \<open>start\<close> in \<open>runner/main.go\<close>: one channel with a buffer of one, from which first the
  goroutine of the registration and then \<open>run\<close> receive. The goroutine puts the signal that it took
  back for \<open>run\<close>; here the three run in any order, with any number of signals.
\<close>

section \<open>The system\<close>

text \<open>
  \<open>signal.Notify\<close> does not wait: a signal that finds the buffer full is dropped. \<open>Preparing\<close> lasts
  from \<open>signal.Notify\<close> to the \<open>go\<close> statement, \<open>Registering\<close> until \<open>register\<close> returns, \<open>Serving\<close> until
  \<open>run\<close> receives a signal; \<open>Failed\<close> is a return with an error before that. The goroutine takes a
  signal, cancels the context of the registration, puts the signal back, and is gone.
\<close>

datatype main_pc = Preparing | Registering | Serving | Stopping | Failed
datatype waiter_pc = NotStarted | Selecting | Cancelling | Returning | Gone

record signals =
  main_at :: main_pc
  waiter :: waiter_pc
  sig_full :: bool
  reg_done :: bool
  signalled :: bool

definition notified :: signals where
  "notified = \<lparr>main_at = Preparing, waiter = NotStarted, sig_full = False, reg_done = False, signalled = False\<rparr>"

text \<open>\<open>goes\<close> are the steps of the program, \<open>signal_step\<close> has those and the signals.\<close>

inductive goes :: "signals \<Rightarrow> signals \<Rightarrow> bool" where
  fails_early: "main_at s = Preparing \<Longrightarrow> goes s (s\<lparr>main_at := Failed\<rparr>)"
| spawns: "main_at s = Preparing \<Longrightarrow> goes s (s\<lparr>main_at := Registering, waiter := Selecting\<rparr>)"
| takes: "waiter s = Selecting \<Longrightarrow> sig_full s \<Longrightarrow> goes s (s\<lparr>waiter := Cancelling, sig_full := False\<rparr>)"
| cancels: "waiter s = Cancelling \<Longrightarrow> goes s (s\<lparr>waiter := Returning, reg_done := True\<rparr>)"
| returns: "waiter s = Returning \<Longrightarrow> \<not> sig_full s \<Longrightarrow> goes s (s\<lparr>waiter := Gone, sig_full := True\<rparr>)"
| leaves: "waiter s = Selecting \<Longrightarrow> reg_done s \<Longrightarrow> goes s (s\<lparr>waiter := Gone\<rparr>)"
| registered: "main_at s = Registering \<Longrightarrow> goes s (s\<lparr>main_at := Serving, reg_done := True\<rparr>)"
| not_registered: "main_at s = Registering \<Longrightarrow> goes s (s\<lparr>main_at := Failed, reg_done := True\<rparr>)"
| stops: "main_at s = Serving \<Longrightarrow> sig_full s \<Longrightarrow> goes s (s\<lparr>main_at := Stopping, sig_full := False\<rparr>)"

inductive signal_step :: "signals \<Rightarrow> signals \<Rightarrow> bool" where
  program: "goes s t \<Longrightarrow> signal_step s t"
| signal: "signal_step s (s\<lparr>sig_full := True, signalled := True\<rparr>)"

inductive_cases goesE: "goes s t"
inductive_simps goes_iff: "goes s t"

text \<open>
  Until the server stops, a signal that has come is in the buffer or in the hands of the goroutine,
  which is there from the registration on; and nobody takes one that has not come.
\<close>

definition signals_ok :: "signals \<Rightarrow> bool" where
  "signals_ok s \<longleftrightarrow>
     (waiter s = NotStarted \<longrightarrow> main_at s \<in> {Preparing, Failed}) \<and>
     (main_at s = Preparing \<longrightarrow> waiter s = NotStarted \<and> \<not> reg_done s) \<and>
     (main_at s = Stopping \<longrightarrow> signalled s) \<and>
     (main_at s = Serving \<longrightarrow> reg_done s) \<and>
     (main_at s = Registering \<longrightarrow> reg_done s \<longrightarrow> waiter s \<in> {Returning, Gone}) \<and>
     (waiter s \<in> {Returning, Gone} \<longrightarrow> reg_done s) \<and>
     (sig_full s \<or> waiter s \<in> {Cancelling, Returning} \<longrightarrow> signalled s) \<and>
     (signalled s \<longrightarrow> main_at s \<in> {Preparing, Registering, Serving} \<longrightarrow>
        sig_full s \<or> waiter s \<in> {Cancelling, Returning})"

lemma signals_ok_notified: "signals_ok notified"
  by (simp add: signals_ok_def notified_def)

lemma signals_ok_goes: "goes s t \<Longrightarrow> signals_ok s \<Longrightarrow> signals_ok t"
proof (induction rule: goes.induct)
  case (fails_early s)
  then show ?case by (cases "waiter s"; simp add: signals_ok_def)
next
  case (spawns s)
  then show ?case by (cases "sig_full s"; cases "signalled s"; simp add: signals_ok_def)
next
  case (takes s)
  then show ?case by (cases "main_at s"; simp add: signals_ok_def)
next
  case (cancels s)
  then show ?case by (cases "main_at s"; simp add: signals_ok_def)
next
  case (returns s)
  then show ?case by (cases "main_at s"; simp add: signals_ok_def)
next
  case (leaves s)
  then show ?case by (cases "main_at s"; cases "signalled s"; simp add: signals_ok_def)
next
  case (registered s)
  then show ?case by (cases "waiter s"; simp add: signals_ok_def)
next
  case (not_registered s)
  then show ?case by (cases "waiter s"; simp add: signals_ok_def)
next
  case (stops s)
  then show ?case by (cases "waiter s"; simp add: signals_ok_def)
qed

lemma signals_ok_steps: "signal_step\<^sup>*\<^sup>* s t \<Longrightarrow> signals_ok s \<Longrightarrow> signals_ok t"
proof (induction rule: rtranclp_induct)
  case (step t u)
  then have "signals_ok t" by simp
  with step(2) show ?case
  proof cases
    case program
    then show ?thesis using \<open>signals_ok t\<close> by (rule signals_ok_goes)
  next
    case signal
    then show ?thesis using \<open>signals_ok t\<close> by (simp add: signals_ok_def)
  qed
qed

text \<open>While the server serves, each step of the program uses up one of these.\<close>

definition steps_left :: "signals \<Rightarrow> nat" where
  "steps_left s =
     (if main_at s = Serving then 1 else 0) +
     (case waiter s of NotStarted \<Rightarrow> 0 | Selecting \<Rightarrow> 3 | Cancelling \<Rightarrow> 2 | Returning \<Rightarrow> 1 | Gone \<Rightarrow> 0)"

lemma serving_step:
  assumes "goes s t" and "main_at s \<in> {Serving, Stopping}"
  shows "steps_left t < steps_left s \<and> main_at t \<in> {Serving, Stopping} \<and> signalled t = signalled s"
  using assms by cases (auto simp: steps_left_def)

lemma goes_run:
  assumes "(goes ^^ n) s t" and "signals_ok s" and "main_at s = Serving"
  shows "signals_ok t \<and> main_at t \<in> {Serving, Stopping} \<and> signalled t = signalled s \<and> n + steps_left t \<le> steps_left s"
  using assms(1)
proof (induction n arbitrary: t)
  case 0
  then show ?case using assms by simp
next
  case (Suc n)
  then obtain u where u: "(goes ^^ n) s u" "goes u t" by auto
  note before = Suc.IH [OF u(1)]
  from before have "main_at u \<in> {Serving, Stopping}" by blast
  from serving_step [OF u(2) this] before signals_ok_goes [OF u(2)] show ?case by simp
qed

lemma serving_goes_on:
  assumes "signals_ok s" and "main_at s = Serving" and "signalled s"
  shows "\<exists>t. goes s t"
proof (cases "sig_full s")
  case True
  with assms show ?thesis by (blast intro: stops)
next
  case False
  with assms have "waiter s \<in> {Cancelling, Returning}" by (simp add: signals_ok_def)
  with False show ?thesis by (blast intro: cancels returns)
qed

lemma registering_cancels:
  assumes "signals_ok s" and "main_at s = Registering" and "signalled s"
  shows "\<exists>n t. n \<le> 2 \<and> (goes ^^ n) s t \<and> reg_done t \<and> main_at t = Registering"
proof (cases "reg_done s")
  case True
  with assms(2) have "(goes ^^ 0) s s" by simp
  with True assms(2) show ?thesis by (meson zero_le)
next
  case False
  show ?thesis
  proof (cases "waiter s = Cancelling")
    case True
    have "(goes ^^ 1) s (s\<lparr>waiter := Returning, reg_done := True\<rparr>)" unfolding relpowp_1 using cancels [OF True] .
    then show ?thesis 
      using assms(2) by (intro exI [of _ 1] exI [of _ "s\<lparr>waiter := Returning, reg_done := True\<rparr>"]) simp
  next
    case other: False
    with False assms have w: "waiter s = Selecting" "sig_full s"
      by (cases "waiter s"; simp add: signals_ok_def)+
    let ?t = "s\<lparr>waiter := Cancelling, sig_full := False\<rparr>"
    have "goes s ?t" using w by (rule takes)
    moreover have "goes ?t (?t\<lparr>waiter := Returning, reg_done := True\<rparr>)" by (rule cancels) simp
    ultimately have "(goes ^^ 2) s (?t\<lparr>waiter := Returning, reg_done := True\<rparr>)"
      unfolding numeral_2_eq_2 relpowp.simps by blast
    then show ?thesis 
      using assms(2) by (intro exI [of _ 2] exI [of _ "?t\<lparr>waiter := Returning, reg_done := True\<rparr>"]) simp
  qed
qed

section \<open>No signal is lost\<close>

text \<open>
  C26: a runner that is told to stop while it starts does stop. In whatever order the main goroutine,
  the one that waits for a signal during the registration and any number of signals come: once a
  signal has come, a registration that still runs has its context cancelled after at most two steps
  of the waiting goroutine, and a server that serves cannot get stuck, and has stopped, after at
  most four more steps of the program, without another signal. It stops only when there was one.
\<close>

theorem signal_stops_server:
  assumes "signal_step\<^sup>*\<^sup>* notified s"
  shows "(signalled s \<and> main_at s = Registering \<longrightarrow>
      (\<exists>n t. n \<le> 2 \<and> (goes ^^ n) s t \<and> reg_done t \<and> main_at t = Registering)) \<and>
    (signalled s \<and> main_at s = Serving \<longrightarrow>
      (\<forall>n t. (goes ^^ n) s t \<longrightarrow> n \<le> 4 \<and> (main_at t = Stopping \<or> (\<exists>u. goes t u)))) \<and>
    (main_at s = Stopping \<longrightarrow> signalled s)"
proof -
  have ok: "signals_ok s" using assms signals_ok_notified by (rule signals_ok_steps)
  have "n \<le> 4 \<and> (main_at t = Stopping \<or> (\<exists>u. goes t u))"
    if "signalled s" and serving: "main_at s = Serving" and run: "(goes ^^ n) s t" for n t
  proof -
    have "steps_left s \<le> 4" using serving by (cases "waiter s"; simp add: steps_left_def)
    with goes_run [OF run ok serving] serving_goes_on [of t] \<open>signalled s\<close> show ?thesis by auto
  qed
  with registering_cancels [OF ok] ok show ?thesis by (auto simp: signals_ok_def)
qed

text \<open>
  The signal comes right after the registration has begun, and the broker's answer right after the
  goroutine has taken it: the server finds the signal in the channel.
\<close>

theorem signal_stops_server_witness:
  "\<exists>s. signal_step\<^sup>*\<^sup>* notified s \<and> main_at s = Serving \<and> waiter s = Cancelling \<and> \<not> sig_full s \<and>
     (\<forall>n t. (goes ^^ n) s t \<longrightarrow> n \<le> 4 \<and> (main_at t = Stopping \<or> (\<exists>u. goes t u)))"
proof -
  let ?s1 = "notified\<lparr>main_at := Registering, waiter := Selecting\<rparr>"
  let ?s2 = "?s1\<lparr>sig_full := True, signalled := True\<rparr>"
  let ?s3 = "?s2\<lparr>waiter := Cancelling, sig_full := False\<rparr>"
  let ?s4 = "?s3\<lparr>main_at := Serving, reg_done := True\<rparr>"
  have "signal_step notified ?s1" by (intro program spawns) (simp add: notified_def)
  moreover have "signal_step ?s1 ?s2" by (rule signal)
  moreover have "signal_step ?s2 ?s3" by (intro program takes) simp_all
  moreover have "signal_step ?s3 ?s4" by (intro program registered) simp
  ultimately have run: "signal_step\<^sup>*\<^sup>* notified ?s4" by (meson converse_rtranclp_into_rtranclp rtranclp.rtrancl_refl)
  from signal_stops_server [OF this] have
    "\<forall>n t. (goes ^^ n) ?s4 t \<longrightarrow> n \<le> 4 \<and> (main_at t = Stopping \<or> (\<exists>u. goes t u))" by simp
  with run show ?thesis by (intro exI [of _ ?s4]) simp
qed

end
