(* ===== verification/Forward_Target.thy ===== *)
theory Forward_Target
  imports Event_Stream
begin

text \<open>
  \<open>integration/cmd/forward-target/main.go\<close>: the server to which the integration tests let nginx
  forward requests. It records the last request, and a control server reads it back and sets the
  status of the answers. The mutex makes each access one step, so the recorder is passed as a state.
\<close>

section \<open>The recorder\<close>

text \<open>The header is a list of the keys with their values; \<open>json\<close> writes a map in the order of its keys.\<close>

record recordedRequest =
  Method :: string
  Path :: string
  Host :: string
  HeaderMap :: "(string \<times> string list) list"
  BodyText :: string

record recorder =
  req :: "recordedRequest option"
  recorder_status :: int

definition initial_recorder :: recorder where
  "initial_recorder = \<lparr>req = None, recorder_status = 204\<rparr>"

text \<open>
  A request as the handlers read it, with its query and what reading its body gives; and an answer:
  status, content type and body.
\<close>

record http_request =
  req_Method :: string
  req_RequestURI :: string
  req_Host :: string
  req_Header :: "(string \<times> string list) list"
  req_Query :: "string \<Rightarrow> string"
  req_ReadAll :: "go_error + string"

datatype http_answer = Answer int string string

definition http_Error :: "string \<Rightarrow> int \<Rightarrow> http_answer" where
  "http_Error msg code = Answer code ''text/plain; charset=utf-8'' (msg @ [nl])"

definition WriteHeader :: "int \<Rightarrow> http_answer" where
  "WriteHeader code = Answer code [] []"

definition requireEnv :: "(string \<Rightarrow> string) \<Rightarrow> string \<Rightarrow> string + string" where
  "requireEnv env name =
     (let v = env name in if v = [] then Inl (name @ '' environment variable is required'') else Inr v)"

definition recorder_set :: "http_request \<Rightarrow> string \<Rightarrow> recorder \<Rightarrow> recorder" where
  "recorder_set q bodyText r =
     r\<lparr>req := Some \<lparr>Method = req_Method q, Path = req_RequestURI q, Host = req_Host q, HeaderMap = req_Header q,
                     BodyText = bodyText\<rparr>\<rparr>"

definition recorder_reset :: "recorder \<Rightarrow> http_answer \<times> recorder" where
  "recorder_reset r = (WriteHeader 204, r\<lparr>req := None, recorder_status := 204\<rparr>)"

definition recorder_setStatus :: "http_request \<Rightarrow> recorder \<Rightarrow> http_answer \<times> recorder" where
  "recorder_setStatus q r =
     (let code = req_Query q ''code''
      in if code = [] then (http_Error ''missing code'' 400, r)
         else case Atoi code of
           Inl err \<Rightarrow> (http_Error ''invalid code'' 400, r)
         | Inr n \<Rightarrow>
             if n < 100 \<or> n > 599 then (http_Error ''invalid code'' 400, r)
             else (WriteHeader 204, r\<lparr>recorder_status := n\<rparr>))"

definition responseStatus :: "recorder \<Rightarrow> int" where
  "responseStatus r = recorder_status r"

definition json_header :: "(string \<times> string list) list \<Rightarrow> string" where
  "json_header h =
     ''{'' @ Join (map (\<lambda>(k, vs). json_string k @ '':['' @ Join (map json_string vs) '','' @ '']'') (sort_key fst h)) '','' @ ''}''"

definition json_request :: "recordedRequest \<Rightarrow> string" where
  "json_request q =
     ''{'' @ json_string ''method'' @ '':'' @ json_string (Method q) @ '','' @
     json_string ''path'' @ '':'' @ json_string (Path q) @ '','' @
     json_string ''host'' @ '':'' @ json_string (Host q) @ '','' @
     json_string ''header'' @ '':'' @ json_header (HeaderMap q) @ '','' @
     json_string ''body'' @ '':'' @ json_string (BodyText q) @ ''}''"

definition recorder_last :: "recorder \<Rightarrow> http_answer" where
  "recorder_last r =
     (case req r of
        None \<Rightarrow> http_Error ''404 page not found'' 404
      | Some q \<Rightarrow> Answer 200 ''application/json'' (json_request q @ [nl]))"

section \<open>The servers\<close>

definition target_handler :: "http_request \<Rightarrow> recorder \<Rightarrow> http_answer \<times> recorder" where
  "target_handler q r =
     (case req_ReadAll q of
        Inl err \<Rightarrow> (http_Error ''read body'' 500, r)
      | Inr bodyText \<Rightarrow> (let r1 = recorder_set q bodyText r in (WriteHeader (responseStatus r1), r1)))"

definition control_handler :: "string \<Rightarrow> http_request \<Rightarrow> recorder \<Rightarrow> http_answer \<times> recorder" where
  "control_handler path q r =
     (if path = ''/health'' then (WriteHeader 200, r)
      else if path = ''/__reset'' then recorder_reset r
      else if path = ''/__status'' then recorder_setStatus q r
      else if path = ''/__last'' then (recorder_last r, r)
      else (http_Error ''404 page not found'' 404, r))"

text \<open>
  The end of \<open>main\<close>: it panics without its two files (\<open>Inl\<close>), or serves until
  \<open>ListenAndServeTLS\<close> gives up, and then ends with a line of \<open>log.Fatalf\<close>.
\<close>

definition forward_main :: "(string \<Rightarrow> string) \<Rightarrow> (string \<Rightarrow> string \<Rightarrow> string \<Rightarrow> go_error option) \<Rightarrow> string + string option" where
  "forward_main env listenAndServeTLS =
     (case requireEnv env ''FORWARD_TARGET_CERT_FILE'' of
        Inl p \<Rightarrow> Inl p
      | Inr certFile \<Rightarrow>
          (case requireEnv env ''FORWARD_TARGET_KEY_FILE'' of
             Inl p \<Rightarrow> Inl p
           | Inr keyFile \<Rightarrow>
               (case listenAndServeTLS '':443'' certFile keyFile of
                  Some err \<Rightarrow> Inr (Some (''https server: '' @ error_text err))
                | None \<Rightarrow> Inr None)))"

text \<open>A request to the control server, by its path, or one that nginx forwards.\<close>

datatype arrival = Control string http_request | Forwarded http_request

fun arrivals :: "arrival list \<Rightarrow> recorder \<Rightarrow> http_answer list \<times> recorder" where
  "arrivals [] r = ([], r)"
| "arrivals (a # as) r =
     (let (x, r1) = (case a of Control p q \<Rightarrow> control_handler p q r | Forwarded q \<Rightarrow> target_handler q r);
          (xs, r2) = arrivals as r1
      in (x # xs, r2))"

definition answer_status :: "http_answer \<Rightarrow> int" where
  "answer_status x = (case x of Answer code ct b \<Rightarrow> code)"

section \<open>What the tests rely on\<close>

text \<open>Every status that is written is one that \<open>WriteHeader\<close> takes without a panic.\<close>

lemma step_status:
  assumes "(case a of Control p q \<Rightarrow> control_handler p q r | Forwarded q \<Rightarrow> target_handler q r) = (x, r')"
    and "100 \<le> recorder_status r" and "recorder_status r \<le> 599"
  shows "100 \<le> answer_status x \<and> answer_status x \<le> 599 \<and> 100 \<le> recorder_status r' \<and> recorder_status r' \<le> 599"
  using assms
  by (auto simp: control_handler_def recorder_reset_def recorder_setStatus_def recorder_last_def target_handler_def
      recorder_set_def responseStatus_def http_Error_def WriteHeader_def answer_status_def Let_def
      split: arrival.splits sum.splits option.splits if_splits)

lemma arrivals_status:
  assumes "arrivals as r = (xs, r')" and "100 \<le> recorder_status r" and "recorder_status r \<le> 599"
  shows "\<forall>x\<in>set xs. 100 \<le> answer_status x \<and> answer_status x \<le> 599"
  using assms
proof (induction as arbitrary: r xs)
  case (Cons a as)
  obtain x r1 where s: "(case a of Control p q \<Rightarrow> control_handler p q r | Forwarded q \<Rightarrow> target_handler q r) = (x, r1)"
    by (meson surj_pair)
  obtain ys r2 where ys: "arrivals as r1 = (ys, r2)" by fastforce
  have "xs = x # ys" "r' = r2" using Cons.prems(1) s ys by auto
  with Cons.IH [of r1 ys] step_status [OF s] Cons.prems ys show ?case by auto
qed simp

text \<open>The request that \<open>/__last\<close> shows is the last one that was forwarded since the last reset.\<close>

lemma last_shows_forwarded:
  assumes "req_ReadAll q = Inr bodyText"
  shows "recorder_last (snd (target_handler q r)) = Answer 200 ''application/json''
      (json_request \<lparr>Method = req_Method q, Path = req_RequestURI q, Host = req_Host q, HeaderMap = req_Header q,
        BodyText = bodyText\<rparr> @ [nl])"
  using assms by (simp add: target_handler_def recorder_set_def recorder_last_def Let_def)

lemma reset_forgets: "recorder_last (snd (recorder_reset r)) = http_Error ''404 page not found'' 404"
  by (simp add: recorder_reset_def recorder_last_def)

end
