(* ===== verification/Pem.thy ===== *)
theory Pem
  imports Go_Strings
begin

text \<open>
  The part of Go's \<open>encoding/pem\<close> and \<open>encoding/base64\<close> that the certificate generator writes its
  files with, and a reader for them: whatever is written is read back.
\<close>

section \<open>Base 64\<close>

definition b64_alphabet :: string where
  "b64_alphabet = ''ABCDEFGHIJKLMNOPQRSTUVWXYZabcdefghijklmnopqrstuvwxyz0123456789+/''"

definition b64_char :: "nat \<Rightarrow> char" where
  "b64_char n = b64_alphabet ! n"

definition b64_value :: "char \<Rightarrow> nat option" where
  "b64_value c = map_of (zip b64_alphabet [0..<64]) c"

fun b64_encode :: "string \<Rightarrow> string" where
  "b64_encode [] = []"
| "b64_encode [a] = (let a = of_char a in [b64_char (a div 4), b64_char (a mod 4 * 16), CHR ''='', CHR ''=''])"
| "b64_encode [a, b] =
     (let a = of_char a; b = of_char b
      in [b64_char (a div 4), b64_char (a mod 4 * 16 + b div 16), b64_char (b mod 16 * 4), CHR ''=''])"
| "b64_encode (a # b # c # s) =
     (let a = of_char a; b = of_char b; c = of_char c
      in b64_char (a div 4) # b64_char (a mod 4 * 16 + b div 16) # b64_char (b mod 16 * 4 + c div 64) #
         b64_char (c mod 64) # b64_encode s)"

text \<open>A reader takes groups of four and ends at the padding.\<close>

definition b64_first :: "nat \<Rightarrow> nat \<Rightarrow> char" where "b64_first u v = char_of (u * 4 + v div 16)"
definition b64_second :: "nat \<Rightarrow> nat \<Rightarrow> char" where "b64_second v x = char_of (v mod 16 * 16 + x div 4)"
definition b64_third :: "nat \<Rightarrow> nat \<Rightarrow> char" where "b64_third x y = char_of (x mod 4 * 64 + y)"

fun b64_decode :: "string \<Rightarrow> string option" where
  "b64_decode [] = Some []"
| "b64_decode (p # q # r # s # rest) =
     (case (b64_value p, b64_value q) of
        (Some u, Some v) \<Rightarrow>
          (if r = CHR ''='' then (if s = CHR ''='' \<and> rest = [] then Some [b64_first u v] else None)
           else case b64_value r of
             None \<Rightarrow> None
           | Some x \<Rightarrow>
               (if s = CHR ''='' then (if rest = [] then Some [b64_first u v, b64_second v x] else None)
                else case b64_value s of
                  None \<Rightarrow> None
                | Some y \<Rightarrow> map_option (\<lambda>t. b64_first u v # b64_second v x # b64_third x y # t) (b64_decode rest)))
      | _ \<Rightarrow> None)"
| "b64_decode _ = None"

lemma distinct_b64_alphabet: "distinct b64_alphabet"
  by (simp add: b64_alphabet_def)

lemma length_b64_alphabet: "length b64_alphabet = 64"
  by (simp add: b64_alphabet_def)

lemma b64_value_char: "n < 64 \<Longrightarrow> b64_value (b64_char n) = Some n"
  using map_of_zip_nth [of b64_alphabet "[0..<64]" n] distinct_b64_alphabet length_b64_alphabet
  by (simp add: b64_value_def b64_char_def)

lemma b64_char_in: "n < 64 \<Longrightarrow> b64_char n \<in> set b64_alphabet"
  by (simp add: b64_char_def length_b64_alphabet)

lemma b64_char_letter:
  assumes "n < 64"
  shows "b64_char n \<noteq> CHR ''=''" and "b64_char n \<noteq> CHR ''-''" and "b64_char n \<noteq> nl"
proof -
  have "CHR ''='' \<notin> set b64_alphabet" and "CHR ''-'' \<notin> set b64_alphabet" and "nl \<notin> set b64_alphabet"
    by (simp_all add: b64_alphabet_def nl_def)
  with b64_char_in [OF assms] show "b64_char n \<noteq> CHR ''=''" "b64_char n \<noteq> CHR ''-''" "b64_char n \<noteq> nl"
    by metis+
qed

lemma six_bits:
  "of_char a div 4 < (64::nat)" "of_char a mod 4 * 16 < (64::nat)" "of_char a mod 16 * 4 < (64::nat)"
  "of_char a mod 4 * 16 + of_char b div 16 < (64::nat)" "of_char b mod 16 * 4 + of_char c div 64 < (64::nat)"
  "of_char c mod 64 < (64::nat)"
  using of_char_less_256 [of a] of_char_less_256 [of b] of_char_less_256 [of c] by linarith+

lemma byte_parts:
  "of_char c div 16 div 16 = (0::nat)" "of_char c div 64 div 4 = (0::nat)"
  "of_char c div 16 mod 16 = (of_char c div 16 :: nat)" "of_char c div 64 mod 4 = (of_char c div 64 :: nat)"
proof -
  have "of_char c div 16 < (16::nat)" "of_char c div 64 < (4::nat)" using of_char_less_256 [of c] by linarith+
  then show "of_char c div 16 div 16 = (0::nat)" "of_char c div 64 div 4 = (0::nat)"
    "of_char c div 16 mod 16 = (of_char c div 16 :: nat)" "of_char c div 64 mod 4 = (of_char c div 64 :: nat)"
    by simp_all
qed

lemma b64_decode_encode: "b64_decode (b64_encode bs) = Some bs"
  by (induction bs rule: b64_encode.induct)
    (simp_all add: Let_def b64_value_char b64_char_letter six_bits b64_first_def b64_second_def b64_third_def byte_parts)

lemma set_b64_encode: "set (b64_encode bs) \<subseteq> insert (CHR ''='') (set b64_alphabet)"
  by (induction bs rule: b64_encode.induct) (auto simp: Let_def six_bits b64_char_in)

lemma b64_encode_plain: "nl \<notin> set (b64_encode bs)" "CHR ''-'' \<notin> set (b64_encode bs)"
  using set_b64_encode [of bs] by (auto simp: b64_alphabet_def nl_def)

section \<open>Lines and blocks\<close>

text \<open>The line breaker of \<open>pem\<close> ends each line after 64 bytes, and the last one if there is any.\<close>

function pem_lines :: "string \<Rightarrow> string" where
  "pem_lines s = (if s = [] then [] else take 64 s @ nl # pem_lines (drop 64 s))"
  by pat_completeness auto
termination by (relation "measure length") auto

declare pem_lines.simps [simp del]

definition pem_Encode :: "string \<Rightarrow> string \<Rightarrow> string" where
  "pem_Encode typ der =
     ''-----BEGIN '' @ typ @ ''-----'' @ [nl] @ pem_lines (b64_encode der) @ ''-----END '' @ typ @ ''-----'' @ [nl]"

text \<open>A reader: the type up to the end of the first line, the letters up to the next dash, the end line.\<close>

definition read_pem :: "string \<Rightarrow> (string \<times> string) option" where
  "read_pem s =
     (if take 11 s \<noteq> ''-----BEGIN '' then None
      else let line = takeWhile (\<lambda>x. x \<noteq> nl) (drop 11 s); typ = take (length line - 5) line;
               rest = drop (length line + 1) (drop 11 s)
           in if dropWhile (\<lambda>x. x \<noteq> CHR ''-'') rest = ''-----END '' @ typ @ ''-----'' @ [nl]
              then map_option (Pair typ) (b64_decode (filter (\<lambda>x. x \<noteq> nl) (takeWhile (\<lambda>x. x \<noteq> CHR ''-'') rest)))
              else None)"

lemma filter_pem_lines: "nl \<notin> set s \<Longrightarrow> filter (\<lambda>x. x \<noteq> nl) (pem_lines s) = s"
proof (induction s rule: pem_lines.induct)
  case (1 s)
  show ?case
  proof (cases "s = []")
    case True
    then show ?thesis by (simp add: pem_lines.simps)
  next
    case False
    have "nl \<notin> set (take 64 s)" "nl \<notin> set (drop 64 s)" using "1.prems" by (meson in_set_takeD in_set_dropD)+
    then have "filter (\<lambda>x. x \<noteq> nl) (take 64 s) = take 64 s" by (auto simp: filter_id_conv)
    with 1 False \<open>nl \<notin> set (drop 64 s)\<close> show ?thesis by (simp add: pem_lines.simps [of s])
  qed
qed

lemma set_pem_lines: "set (pem_lines s) \<subseteq> insert nl (set s)"
proof (induction s rule: pem_lines.induct)
  case (1 s)
  then show ?case by (subst pem_lines.simps) (auto dest: in_set_takeD in_set_dropD)
qed

lemma read_pem_Encode:
  assumes "nl \<notin> set typ"
  shows "read_pem (pem_Encode typ der) = Some (typ, der)"
proof -
  let ?body = "pem_lines (b64_encode der)" and ?tail = "''-----END '' @ typ @ ''-----'' @ [nl]"
  have "takeWhile (\<lambda>x. x \<noteq> nl) ((typ @ ''-----'') @ nl # ?body @ ?tail) = typ @ ''-----''"
    by (rule takeWhile_neq_append) (use assms in \<open>simp add: nl_def\<close>)
  then have line: "takeWhile (\<lambda>x. x \<noteq> nl) (drop 11 (pem_Encode typ der)) = typ @ ''-----''"
    by (simp add: pem_Encode_def)
  have body: "CHR ''-'' \<notin> set ?body"
    using set_pem_lines [of "b64_encode der"] b64_encode_plain(2) [of der] by (auto simp: nl_def)
  have "takeWhile (\<lambda>x. x \<noteq> CHR ''-'') (?body @ CHR ''-'' # tl ?tail) = ?body"
    and "dropWhile (\<lambda>x. x \<noteq> CHR ''-'') (?body @ CHR ''-'' # tl ?tail) = CHR ''-'' # tl ?tail"
    using takeWhile_neq_append [OF body] dropWhile_neq_append [OF body] by blast+
  moreover have "drop (length (typ @ ''-----'') + 1) (drop 11 (pem_Encode typ der)) = ?body @ ?tail"
    by (simp add: pem_Encode_def)
  ultimately show ?thesis
    unfolding read_pem_def Let_def line
    by (simp add: pem_Encode_def filter_pem_lines b64_encode_plain b64_decode_encode)
qed

end
