(* ===== verification/Forward_Cert.thy ===== *)
theory Forward_Cert
  imports Pem "HOL-Library.Product_Lexorder"
begin

text \<open>
  \<open>integration/cmd/gen-forward-cert/main.go\<close>: a self-signed certificate and its key for the forward
  target. The crypto library and the operating system are arguments; \<open>cert_files\<close> states what the
  code relies on of the files.
\<close>

unbundle bit_operations_syntax

section \<open>Times\<close>

text \<open>
  The calendar part of a \<open>time.Time\<close> in its zone: year, month, day and second of the day. \<open>AddDate\<close>
  by years keeps month and day, and the 29th of February becomes the 1st of March where there is none.
\<close>

type_synonym go_time = "int \<times> nat \<times> nat \<times> nat"

definition leap :: "int \<Rightarrow> bool" where
  "leap y \<longleftrightarrow> 4 dvd y \<and> (\<not> 100 dvd y \<or> 400 dvd y)"

definition month_days :: "int \<Rightarrow> nat \<Rightarrow> nat" where
  "month_days y m = (if m = 2 then (if leap y then 29 else 28) else if m \<in> {4, 6, 9, 11} then 30 else 31)"

fun add_years :: "int \<Rightarrow> go_time \<Rightarrow> go_time" where
  "add_years n (y, m, d, s) = (if m = 2 \<and> d = 29 \<and> \<not> leap (y + n) then (y + n, 3, 1, s) else (y + n, m, d, s))"

fun hour_earlier :: "go_time \<Rightarrow> go_time" where
  "hour_earlier (y, m, d, s) =
     (if 3600 \<le> s then (y, m, d, s - 3600)
      else if 1 < d then (y, m, d - 1, s + 82800)
      else if 1 < m then (y, m - 1, month_days y (m - 1), s + 82800)
      else (y - 1, 12, 31, s + 82800))"

lemma hour_earlier_less: "hour_earlier t < t" if "t = (y, m, d, s)" "0 < m" "0 < d"
  using that by (auto simp: less_prod_def less_eq_prod_def)

lemma less_add_years: "0 < n \<Longrightarrow> t < add_years n t"
  by (cases t) (auto simp: less_prod_def less_eq_prod_def)

section \<open>The certificate\<close>

record Certificate =
  SerialNumber :: int
  CommonName :: string
  NotBefore :: go_time
  NotAfter :: go_time
  DNSNames :: "string list"
  IPAddresses :: "nat list list"
  KeyUsage :: nat
  ExtKeyUsage :: "nat list"
  BasicConstraintsValid :: bool
  IsCA :: bool

datatype open_flag = O_CREATE | O_WRONLY | O_TRUNC

record ('k, 'p, 'w) gen_env =
  rsa_GenerateKey :: "nat \<Rightarrow> 'w \<Rightarrow> (go_error + 'k) \<times> 'w"
  rand_Int :: "int \<Rightarrow> 'w \<Rightarrow> (go_error + int) \<times> 'w"
  time_Now :: "'w \<Rightarrow> go_time \<times> 'w"
  x509_CreateCertificate :: "Certificate \<Rightarrow> Certificate \<Rightarrow> 'p \<Rightarrow> 'k \<Rightarrow> 'w \<Rightarrow> (go_error + string) \<times> 'w"
  PublicKey :: "'k \<Rightarrow> 'p"
  MarshalPKCS1PrivateKey :: "'k \<Rightarrow> string"
  sys_MkdirAll :: "string \<Rightarrow> nat \<Rightarrow> 'w \<Rightarrow> go_error option \<times> 'w"
  sys_OpenFile :: "string \<Rightarrow> open_flag list \<Rightarrow> nat \<Rightarrow> 'w \<Rightarrow> (go_error + nat) \<times> 'w"
  file_Chmod :: "nat \<Rightarrow> nat \<Rightarrow> 'w \<Rightarrow> go_error option \<times> 'w"
  file_Write :: "nat \<Rightarrow> string \<Rightarrow> 'w \<Rightarrow> go_error option \<times> 'w"
  file_Close :: "nat \<Rightarrow> 'w \<Rightarrow> 'w"

text \<open>\<open>0o755\<close>, \<open>0o644\<close> and \<open>0o600\<close>.\<close>

definition mode_dir :: nat where "mode_dir = 7 * 64 + 5 * 8 + 5"
definition mode_public :: nat where "mode_public = 6 * 64 + 4 * 8 + 4"
definition mode_private :: nat where "mode_private = 6 * 64"

text \<open>The writes of \<open>pem.Encode\<close> are one here, which may fail after any part of it.\<close>

definition writePEM ::
  "('k, 'p, 'w) gen_env \<Rightarrow> string \<Rightarrow> string \<Rightarrow> string \<Rightarrow> nat \<Rightarrow> 'w \<Rightarrow> go_error option \<times> 'w" where
  "writePEM g path typ der perm w =
     (case sys_MkdirAll g (path_Dir path) mode_dir w of
        (Some err, w1) \<Rightarrow> (Some err, w1)
      | (None, w1) \<Rightarrow>
          (case sys_OpenFile g path [O_CREATE, O_WRONLY, O_TRUNC] perm w1 of
             (Inl err, w2) \<Rightarrow> (Some err, w2)
           | (Inr f, w2) \<Rightarrow>
               (case file_Chmod g f perm w2 of
                  (Some err, w3) \<Rightarrow> (Some err, file_Close g f w3)
                | (None, w3) \<Rightarrow>
                    (case file_Write g f (pem_Encode typ der) w3 of
                       (err, w4) \<Rightarrow> (err, file_Close g f w4)))))"

definition forward_template :: "int \<Rightarrow> go_time \<Rightarrow> go_time \<Rightarrow> Certificate" where
  "forward_template serial now1 now2 =
     \<lparr>SerialNumber = serial, CommonName = ''forward-target'',
      NotBefore = hour_earlier now1, NotAfter = add_years 1 now2,
      DNSNames = [''ap-northeast-3.localhost'', ''forward-target''], IPAddresses = [[127, 0, 0, 1]],
      KeyUsage = (push_bit 2 1 OR push_bit 0 1) OR push_bit 5 1, ExtKeyUsage = [1],
      BasicConstraintsValid = True, IsCA = True\<rparr>"

definition crt_file :: string where "crt_file = ''testdata/forward-target.crt''"
definition ca_file :: string where "ca_file = ''testdata/ca-certificates.crt''"
definition key_file :: string where "key_file = ''testdata/forward-target.key''"

definition gen_run :: "('k, 'p, 'w) gen_env \<Rightarrow> 'w \<Rightarrow> go_error option \<times> 'w" where
  "gen_run g w =
     (case rsa_GenerateKey g 2048 w of
        (Inl err, w1) \<Rightarrow> (Some err, w1)
      | (Inr key, w1) \<Rightarrow>
          (case rand_Int g (push_bit 128 1) w1 of
             (Inl err, w2) \<Rightarrow> (Some err, w2)
           | (Inr serial, w2) \<Rightarrow>
               (let (now1, w3) = time_Now g w2; (now2, w4) = time_Now g w3;
                    tmpl = forward_template serial now1 now2
                in case x509_CreateCertificate g tmpl tmpl (PublicKey g key) key w4 of
                     (Inl err, w5) \<Rightarrow> (Some err, w5)
                   | (Inr der, w5) \<Rightarrow>
                       (case writePEM g crt_file ''CERTIFICATE'' der mode_public w5 of
                          (Some err, w6) \<Rightarrow> (Some err, w6)
                        | (None, w6) \<Rightarrow>
                            (case writePEM g ca_file ''CERTIFICATE'' der mode_public w6 of
                               (Some err, w7) \<Rightarrow> (Some err, w7)
                             | (None, w7) \<Rightarrow>
                                 writePEM g key_file ''RSA PRIVATE KEY'' (MarshalPKCS1PrivateKey g key) mode_private w7)))))"

text \<open>\<open>main\<close>: what it prints on standard error and its exit code.\<close>

definition gen_main :: "('k, 'p, 'w) gen_env \<Rightarrow> 'w \<Rightarrow> (string \<times> nat) \<times> 'w" where
  "gen_main g w =
     (case gen_run g w of
        (Some err, w1) \<Rightarrow> ((''gen-forward-cert: '' @ error_text err @ [nl], 1), w1)
      | (None, w1) \<Rightarrow> (([], 0), w1))"

section \<open>What is in the files\<close>

text \<open>
  \<open>node\<close> gives the mode and the content of each file and \<open>opened\<close> the path behind a handle. An
  existing file keeps its mode when it is opened, and a write that fails may have written a part.
\<close>

locale cert_files =
  fixes g :: "('k, 'p, 'w) gen_env" and node :: "'w \<Rightarrow> string \<rightharpoonup> nat \<times> string" and opened :: "'w \<Rightarrow> nat \<rightharpoonup> string"
  assumes key_call: "rsa_GenerateKey g n w = (res, w') \<Longrightarrow> node w' = node w"
    and int_call: "rand_Int g i w = (res', w') \<Longrightarrow> node w' = node w"
    and now_call: "time_Now g w = (t, w') \<Longrightarrow> node w' = node w"
    and sign_call: "x509_CreateCertificate g tmpl parent pub key w = (res'', w') \<Longrightarrow> node w' = node w"
    and mkdir_call: "sys_MkdirAll g d perm w = (err, w') \<Longrightarrow> node w' = node w"
    and open_call: "sys_OpenFile g p [O_CREATE, O_WRONLY, O_TRUNC] perm w = (opn, w') \<Longrightarrow>
      (case opn of
         Inl e \<Rightarrow> node w' = node w
       | Inr f \<Rightarrow> opened w' f = Some p \<and>
           (\<exists>m. node w' = (node w)(p \<mapsto> (m, [])) \<and> (\<forall>m0 d. node w p = Some (m0, d) \<longrightarrow> m = m0)))"
    and chmod_call: "file_Chmod g f perm w = (err, w') \<Longrightarrow> opened w f = Some p \<Longrightarrow> node w p = Some (m, data) \<Longrightarrow>
      opened w' = opened w \<and> node w' = (if err = None then (node w)(p \<mapsto> (perm, data)) else node w)"
    and write_call: "file_Write g f new w = (err, w') \<Longrightarrow> opened w f = Some p \<Longrightarrow> node w p = Some (m, data) \<Longrightarrow>
      (\<exists>k. node w' = (node w)(p \<mapsto> (m, data @ take k new)) \<and> (err = None \<longrightarrow> k = length new))"
    and close_call: "node (file_Close g f w) = node w"
begin

text \<open>
  No byte of a block is in its file while the mode is another than the one asked for: a failure
  leaves the file alone, empty, or with that mode and a part of the block.
\<close>

lemma writePEM_file:
  assumes "writePEM g path typ der perm w = (err, w')"
  shows "(node w' = node w \<or>
      (\<exists>m k. node w' = (node w)(path \<mapsto> (m, take k (pem_Encode typ der))) \<and> (k = 0 \<or> m = perm))) \<and>
    (err = None \<longrightarrow> node w' = (node w)(path \<mapsto> (perm, pem_Encode typ der)))"
proof -
  obtain e1 w1 where mk: "sys_MkdirAll g (path_Dir path) mode_dir w = (e1, w1)" by (meson surj_pair)
  obtain r w2 where op: "sys_OpenFile g path [O_CREATE, O_WRONLY, O_TRUNC] perm w1 = (r, w2)" by (meson surj_pair)
  show ?thesis
  proof (cases e1)
    case (Some x)
    then show ?thesis using assms mk mkdir_call [OF mk] by (auto simp: writePEM_def)
  next
    case None
    show ?thesis
    proof (cases r)
      case (Inl x)
      then show ?thesis using assms mk op None mkdir_call [OF mk] open_call [OF op] by (auto simp: writePEM_def)
    next
      case (Inr f)
      obtain m where w2: "opened w2 f = Some path" "node w2 = (node w)(path \<mapsto> (m, []))"
        using open_call [OF op] Inr mkdir_call [OF mk] by auto
      obtain e3 w3 where ch: "file_Chmod g f perm w2 = (e3, w3)" by (meson surj_pair)
      note w3 = chmod_call [OF ch w2(1), of m "[]"]
      obtain e4 w4 where wr: "file_Write g f (pem_Encode typ der) w3 = (e4, w4)" by (meson surj_pair)
      show ?thesis
      proof (cases e3)
        case (Some x)
        then have "node w' = (node w)(path \<mapsto> (m, take 0 (pem_Encode typ der)))" "err = Some x"
          using assms mk op None Inr ch w2 w3 by (auto simp: writePEM_def close_call)
        then show ?thesis by blast
      next
        case e3: None
        then have n3: "node w3 = (node w)(path \<mapsto> (perm, []))" "opened w3 f = Some path" using w2 w3 by auto
        then obtain k where "node w4 = (node w)(path \<mapsto> (perm, take k (pem_Encode typ der)))"
          "e4 = None \<longrightarrow> k = length (pem_Encode typ der)"
          using write_call [OF wr, of path perm "[]"] by auto
        moreover have "err = e4" "node w' = node w4"
          using assms mk op None Inr ch e3 wr by (auto simp: writePEM_def close_call)
        ultimately show ?thesis by auto
      qed
    qed
  qed
qed

lemma gen_run_files:
  assumes "gen_run g w = (err, w')"
  shows "p \<notin> {crt_file, ca_file, key_file} \<Longrightarrow> node w' p = node w p"
    and "node w' key_file = node w key_file \<or> (\<exists>m d. node w' key_file = Some (m, d) \<and> (d = [] \<or> m = mode_private))"
    and "err = None \<Longrightarrow> \<exists>key serial now1 now2 der w1 w2. let tmpl = forward_template serial now1 now2 in
      x509_CreateCertificate g tmpl tmpl (PublicKey g key) key w1 = (Inr der, w2) \<and>
      node w' crt_file = Some (mode_public, pem_Encode ''CERTIFICATE'' der) \<and>
      node w' ca_file = Some (mode_public, pem_Encode ''CERTIFICATE'' der) \<and>
      node w' key_file = Some (mode_private, pem_Encode ''RSA PRIVATE KEY'' (MarshalPKCS1PrivateKey g key))"
proof -
  have names [simp]: "crt_file \<noteq> ca_file" "crt_file \<noteq> key_file" "ca_file \<noteq> key_file"
    "ca_file \<noteq> crt_file" "key_file \<noteq> crt_file" "key_file \<noteq> ca_file"
    by (simp_all add: crt_file_def ca_file_def key_file_def)
  define ok where "ok v \<longleftrightarrow> (\<forall>p. p \<notin> {crt_file, ca_file, key_file} \<longrightarrow> node v p = node w p) \<and>
    (node v key_file = node w key_file \<or> (\<exists>m d. node v key_file = Some (m, d) \<and> (d = [] \<or> m = mode_private)))" for v
  have same: "ok v" if "node v = node w" for v using that by (simp add: ok_def)
  have step: "ok v'" if wr: "writePEM g q ty der perm v = (e, v')" and v: "ok v"
    and q: "q \<in> {crt_file, ca_file} \<or> q = key_file \<and> perm = mode_private" for q ty der perm v e v'
  proof (cases "node v' = node v")
    case True
    with v show ?thesis by (simp add: ok_def)
  next
    case False
    then obtain m k where n: "node v' = (node v)(q \<mapsto> (m, take k (pem_Encode ty der)))" and k: "k = 0 \<or> m = perm"
      using writePEM_file [OF wr] by blast
    from q have "q \<in> {crt_file, ca_file, key_file}" by blast
    with v n have "\<forall>p. p \<notin> {crt_file, ca_file, key_file} \<longrightarrow> node v' p = node w p" by (auto simp: ok_def)
    moreover have "node v' key_file = node w key_file \<or>
        (\<exists>m d. node v' key_file = Some (m, d) \<and> (d = [] \<or> m = mode_private))"
    proof (cases "q = key_file")
      case True
      with q n k show ?thesis by auto
    next
      case False
      with v n show ?thesis by (simp add: ok_def)
    qed
    ultimately show ?thesis by (simp add: ok_def)
  qed
  obtain r1 w1 where k: "rsa_GenerateKey g 2048 w = (r1, w1)" by (meson surj_pair)
  obtain r2 w2 where i: "rand_Int g (push_bit 128 1) w1 = (r2, w2)" by (meson surj_pair)
  obtain now1 w3 where t1: "time_Now g w2 = (now1, w3)" by (meson surj_pair)
  obtain now2 w4 where t2: "time_Now g w3 = (now2, w4)" by (meson surj_pair)
  note n1 = key_call [OF k] and n2 = int_call [OF i] and n3 = now_call [OF t1] and n4 = now_call [OF t2]
  have "ok w' \<and> (err = None \<longrightarrow> (\<exists>key serial now1 now2 der w1 w2. let tmpl = forward_template serial now1 now2 in
      x509_CreateCertificate g tmpl tmpl (PublicKey g key) key w1 = (Inr der, w2) \<and>
      node w' crt_file = Some (mode_public, pem_Encode ''CERTIFICATE'' der) \<and>
      node w' ca_file = Some (mode_public, pem_Encode ''CERTIFICATE'' der) \<and>
      node w' key_file = Some (mode_private, pem_Encode ''RSA PRIVATE KEY'' (MarshalPKCS1PrivateKey g key))))"
  proof (cases r1)
    case (Inl x)
    then show ?thesis using assms k n1 same by (auto simp: gen_run_def)
  next
    case r1: (Inr key)
    show ?thesis
    proof (cases r2)
      case (Inl x)
      then show ?thesis using assms k i r1 n1 n2 same by (auto simp: gen_run_def)
    next
      case r2: (Inr serial)
      let ?tmpl = "forward_template serial now1 now2"
      obtain r5 w5 where c: "x509_CreateCertificate g ?tmpl ?tmpl (PublicKey g key) key w4 = (r5, w5)" by (meson surj_pair)
      have ok5: "ok w5" using sign_call [OF c] n1 n2 n3 n4 same by simp
      note runs = k i t1 t2 r1 r2 c
      show ?thesis
      proof (cases r5)
        case (Inl x)
        then show ?thesis using assms runs ok5 by (auto simp: gen_run_def)
      next
        case r5: (Inr der)
        obtain e6 w6 where p6: "writePEM g crt_file ''CERTIFICATE'' der mode_public w5 = (e6, w6)" by (meson surj_pair)
        obtain e7 w7 where p7: "writePEM g ca_file ''CERTIFICATE'' der mode_public w6 = (e7, w7)" by (meson surj_pair)
        obtain e8 w8 where p8: "writePEM g key_file ''RSA PRIVATE KEY'' (MarshalPKCS1PrivateKey g key) mode_private w7
          = (e8, w8)" by (meson surj_pair)
        note f6 = writePEM_file [OF p6] and f7 = writePEM_file [OF p7] and f8 = writePEM_file [OF p8]
        have ok6: "ok w6" and ok7: "ok w7" and ok8: "ok w8" using step [OF p6 ok5] step [OF p7] step [OF p8] by auto
        consider "err \<noteq> None" "w' = w6" | "err \<noteq> None" "w' = w7" | "e6 = None" "e7 = None" "err = e8" "w' = w8"
          using assms runs r5 p6 p7 p8 by (cases e6; cases e7) (auto simp: gen_run_def)
        then show ?thesis
        proof cases
          case 3
          then have "node w' crt_file = Some (mode_public, pem_Encode ''CERTIFICATE'' der)"
            "node w' ca_file = Some (mode_public, pem_Encode ''CERTIFICATE'' der)"
            "node w' key_file = Some (mode_private, pem_Encode ''RSA PRIVATE KEY'' (MarshalPKCS1PrivateKey g key))"
            if "err = None"
            using that f6 f7 f8 by simp_all
          with ok8 3(4) c [unfolded r5] show ?thesis unfolding Let_def by blast
        qed (use ok6 ok7 in auto)
      qed
    qed
  qed
  then show "p \<notin> {crt_file, ca_file, key_file} \<Longrightarrow> node w' p = node w p"
    and "node w' key_file = node w key_file \<or> (\<exists>m d. node w' key_file = Some (m, d) \<and> (d = [] \<or> m = mode_private))"
    and "err = None \<Longrightarrow> \<exists>key serial now1 now2 der w1 w2. let tmpl = forward_template serial now1 now2 in
      x509_CreateCertificate g tmpl tmpl (PublicKey g key) key w1 = (Inr der, w2) \<and>
      node w' crt_file = Some (mode_public, pem_Encode ''CERTIFICATE'' der) \<and>
      node w' ca_file = Some (mode_public, pem_Encode ''CERTIFICATE'' der) \<and>
      node w' key_file = Some (mode_private, pem_Encode ''RSA PRIVATE KEY'' (MarshalPKCS1PrivateKey g key))"
    by (simp_all add: ok_def)
qed

end

section \<open>The certificate of the forward target\<close>

text \<open>
  Files in memory; the key and its parts are numbers, the certificate is the serial number in
  decimal, and \<open>fault\<close> makes the writes of the file with that name fail after three bytes.
\<close>

type_synonym mem_nodes = "(string \<rightharpoonup> nat \<times> string) \<times> (nat \<rightharpoonup> string)"

definition mem_gen :: "string \<Rightarrow> (nat, nat, mem_nodes) gen_env" where
  "mem_gen fault =
     \<lparr>rsa_GenerateKey = \<lambda>bits w. (Inr bits, w), rand_Int = \<lambda>m w. (Inr 7, w), time_Now = \<lambda>w. ((2024, 2, 29, 60), w),
      x509_CreateCertificate = \<lambda>t parent pub key w. (Inr (show_int (SerialNumber t)), w),
      PublicKey = \<lambda>k. k + 1, MarshalPKCS1PrivateKey = show_nat,
      sys_MkdirAll = \<lambda>d perm w. (None, w),
      sys_OpenFile = \<lambda>p fl perm (m, fds).
        (Inr 3, (m(p \<mapsto> (case m p of None \<Rightarrow> perm | Some (old, _) \<Rightarrow> old, [])), fds(3 \<mapsto> p))),
      file_Chmod = \<lambda>f perm (m, fds).
        (None, (case fds f of None \<Rightarrow> m | Some p \<Rightarrow> (case m p of None \<Rightarrow> m | Some (_, d) \<Rightarrow> m(p \<mapsto> (perm, d)))), fds),
      file_Write = \<lambda>f new (m, fds).
        (case fds f of
           None \<Rightarrow> (Some (ErrorString ''bad handle''), (m, fds))
         | Some p \<Rightarrow>
             (case m p of
                None \<Rightarrow> (Some (ErrorString ''gone''), (m, fds))
              | Some (md, d) \<Rightarrow>
                  if p = fault then (Some (ErrorString ''disk full''), (m(p \<mapsto> (md, d @ take 3 new)), fds))
                  else (None, (m(p \<mapsto> (md, d @ new)), fds)))),
      file_Close = \<lambda>f (m, fds). (m, fds(f := None))\<rparr>"

interpretation mem_cert: cert_files "mem_gen fault" fst snd
proof (unfold_locales, goal_cases)
  case (8 f new w err w' p m data)
  obtain nodes fds where w: "w = (nodes, fds)" by (cases w)
  have "fst w' = (fst w)(p \<mapsto> (m, data @ take (if p = fault then 3 else length new) new))" "err = None \<longleftrightarrow> p \<noteq> fault"
    using 8 w by (auto simp: mem_gen_def split: if_splits)
  then show ?case by (cases "p = fault") auto
qed (auto simp: mem_gen_def split: option.splits if_splits)
text \<open>
  The private key is never in a file that others can read. Whatever the crypto library and the
  file system answer, the key file is as before, or empty, or has mode 0600; only the three files
  change. When the command succeeds, the two certificate files read back as one certificate, signed
  with its own key over the template, and the key file reads back as that key, with mode 0600.
\<close>

theorem key_file_private:
  assumes "cert_files g node opened" and "gen_run g w = (err, w')"
  shows "(\<forall>p. p \<notin> {crt_file, ca_file, key_file} \<longrightarrow> node w' p = node w p) \<and>
    (node w' key_file = node w key_file \<or> (\<exists>m d. node w' key_file = Some (m, d) \<and> (d = [] \<or> m = mode_private))) \<and>
    (err = None \<longrightarrow> (\<exists>key serial now1 now2 der crt pem w1 w2. let tmpl = forward_template serial now1 now2 in
      x509_CreateCertificate g tmpl tmpl (PublicKey g key) key w1 = (Inr der, w2) \<and>
      node w' crt_file = Some (mode_public, crt) \<and> node w' ca_file = Some (mode_public, crt) \<and>
      read_pem crt = Some (''CERTIFICATE'', der) \<and>
      node w' key_file = Some (mode_private, pem) \<and>
      read_pem pem = Some (''RSA PRIVATE KEY'', MarshalPKCS1PrivateKey g key)))"
proof -
  note files = cert_files.gen_run_files [OF assms]
  have types: "nl \<notin> set ''CERTIFICATE''" "nl \<notin> set ''RSA PRIVATE KEY''" by (simp_all add: nl_def)
  have "err = None \<longrightarrow> (\<exists>key serial now1 now2 der crt pem w1 w2. let tmpl = forward_template serial now1 now2 in
      x509_CreateCertificate g tmpl tmpl (PublicKey g key) key w1 = (Inr der, w2) \<and>
      node w' crt_file = Some (mode_public, crt) \<and> node w' ca_file = Some (mode_public, crt) \<and>
      read_pem crt = Some (''CERTIFICATE'', der) \<and>
      node w' key_file = Some (mode_private, pem) \<and>
      read_pem pem = Some (''RSA PRIVATE KEY'', MarshalPKCS1PrivateKey g key))"
    using files(3) read_pem_Encode [OF types(1)] read_pem_Encode [OF types(2)] unfolding Let_def by blast
  with files(1,2) show ?thesis by blast
qed

text \<open>A run over a key file that everyone could read, whose write fails, and a run that succeeds.\<close>

theorem key_file_private_witness:
  "(\<exists>w1 w2. gen_run (mem_gen key_file) ([key_file \<mapsto> (mode_public, ''old'')], Map.empty) = (Some (ErrorString ''disk full''), w1) \<and>
     fst w1 key_file = Some (mode_private, ''---'') \<and>
     gen_run (mem_gen []) w1 = (None, w2) \<and> (\<exists>pem. fst w2 key_file = Some (mode_private, pem) \<and>
     read_pem pem = Some (''RSA PRIVATE KEY'', ''2048'')))"
proof -
  obtain e1 w1 where one: "gen_run (mem_gen key_file) ([key_file \<mapsto> (mode_public, ''old'')], Map.empty) = (e1, w1)"
    by (meson surj_pair)
  obtain e2 w2 where two: "gen_run (mem_gen []) w1 = (e2, w2)" by (meson surj_pair)
  have f: "fst w1 key_file = Some (mode_private, ''---'')" "e1 = Some (ErrorString ''disk full'')"
    using one by (auto simp: gen_run_def writePEM_def mem_gen_def crt_file_def ca_file_def key_file_def pem_Encode_def Let_def)
  have e2: "e2 = None"
    using two by (cases w1) (auto simp: gen_run_def writePEM_def mem_gen_def crt_file_def ca_file_def key_file_def Let_def)
  have "MarshalPKCS1PrivateKey (mem_gen []) k = show_nat k" "PublicKey (mem_gen []) k = k + 1" for k
    by (simp_all add: mem_gen_def)
  from key_file_private [OF mem_cert.cert_files_axioms two] e2 obtain k pem where
    pem: "fst w2 key_file = Some (mode_private, pem)" "read_pem pem = Some (''RSA PRIVATE KEY'', show_nat k)"
    by (auto simp: Let_def mem_gen_def)
  moreover have "fst w2 key_file = Some (mode_private, pem_Encode ''RSA PRIVATE KEY'' (show_nat 2048))"
    using two by (cases w1) (auto simp: gen_run_def writePEM_def mem_gen_def crt_file_def ca_file_def key_file_def Let_def)
  then have "read_pem pem = Some (''RSA PRIVATE KEY'', show_nat 2048)"
    using pem read_pem_Encode [of "''RSA PRIVATE KEY''" "show_nat 2048"] by (simp add: nl_def del: show_nat.simps)
  moreover have "show_nat 2048 = ''2048''" by code_simp
  ultimately show ?thesis using one two f e2 by metis
qed

end
